(* ===== verification/Prelude.thy ===== *)
theory Prelude
  imports Main "HOL-Library.Word" "HOL-Library.Sublist"
begin

section \<open>Prelude: programs, exceptions, bytes and numbers\<close>

text \<open>
  What every component shares: the outcome of a C++ member function (a value or a thrown
  exception, together with the state it leaves behind), the Hoare triples used to state
  invariants of such programs, bytes against characters, and the decimal rendering that
  the code obtains from \<open>snprintf("%d")\<close>.
\<close>

named_theorems prog_simps \<open>evaluation rules of the program combinators\<close>
named_theorems hoare_rules \<open>Hoare rules, one per program combinator or operation\<close>

subsection \<open>Outcomes\<close>

text \<open>
  The ways in which a call can fail to return. \<open>Socket_exception\<close> is the class of
  \<open>exception.h\<close> and the only one the library catches; \<open>Out_of_range\<close>,
  \<open>Invalid_argument\<close> and \<open>Length_error\<close> are thrown by the standard library;
  \<open>Undefined_behaviour\<close> stands for a step the language leaves undefined (a null
  pointer called, a buffer overrun); \<open>Aborted\<close> is the end of the process, by a failed \<open>assert\<close> or by
  \<open>std::terminate\<close>; \<open>Out_of_fuel\<close> is not an exception of the code: it
  marks a loop that has not finished within the fuel it was given.
\<close>

datatype exn =
    Socket_exception string
  | Out_of_range
  | Invalid_argument
  | Length_error
  | Undefined_behaviour
  | Aborted
  | Out_of_fuel

text \<open>
  A member function maps the state to an outcome and the state it leaves, also when it throws.
\<close>

type_synonym ('s, 'a) prog = "'s \<Rightarrow> (exn + 'a) \<times> 's"

definition pret :: "'a \<Rightarrow> ('s, 'a) prog" where
  "pret x s = (Inr x, s)"

definition praise :: "exn \<Rightarrow> ('s, 'a) prog" where
  "praise e s = (Inl e, s)"

definition pbind :: "('s, 'a) prog \<Rightarrow> ('a \<Rightarrow> ('s, 'b) prog) \<Rightarrow> ('s, 'b) prog" where
  "pbind m f s = (case m s of (Inl e, s') \<Rightarrow> (Inl e, s') | (Inr x, s') \<Rightarrow> f x s')"

definition pthen :: "('s, 'a) prog \<Rightarrow> ('s, 'b) prog \<Rightarrow> ('s, 'b) prog" where
  "pthen m n = pbind m (\<lambda>_. n)"

definition pget :: "('s \<Rightarrow> 'a) \<Rightarrow> ('s, 'a) prog" where
  "pget f s = (Inr (f s), s)"

definition pmod :: "('s \<Rightarrow> 's) \<Rightarrow> ('s, unit) prog" where
  "pmod f s = (Inr (), f s)"

text \<open>\<open>try \<dots> catch (const socket_exception &e)\<close>: no other failure is caught.\<close>

definition pcatch :: "('s, 'a) prog \<Rightarrow> (string \<Rightarrow> ('s, 'a) prog) \<Rightarrow> ('s, 'a) prog" where
  "pcatch m h s = (case m s of
      (Inl e, s') \<Rightarrow> (case e of Socket_exception msg \<Rightarrow> h msg s' | _ \<Rightarrow> (Inl e, s'))
    | (Inr x, s') \<Rightarrow> (Inr x, s'))"

text \<open>A \<open>noexcept\<close> function: an exception that would leave it ends the process.\<close>

fun no_throw :: "exn \<Rightarrow> exn" where
  "no_throw Undefined_behaviour = Undefined_behaviour"
| "no_throw Out_of_fuel = Out_of_fuel"
| "no_throw e = Aborted"

definition pnoexcept :: "('s, 'a) prog \<Rightarrow> ('s, 'a) prog" where
  "pnoexcept m s = (case m s of (Inl e, s') \<Rightarrow> (Inl (no_throw e), s') | (Inr x, s') \<Rightarrow> (Inr x, s'))"

text \<open>A range-based \<open>for\<close> loop.\<close>

fun piter :: "('x \<Rightarrow> ('s, unit) prog) \<Rightarrow> 'x list \<Rightarrow> ('s, unit) prog" where
  "piter f [] = pret ()"
| "piter f (x # xs) = pthen (f x) (piter f xs)"

lemma pret_apply [prog_simps]: "pret x s = (Inr x, s)"
  by (simp add: pret_def)

lemma praise_apply [prog_simps]: "praise e s = (Inl e, s)"
  by (simp add: praise_def)

lemma pget_apply [prog_simps]: "pget f s = (Inr (f s), s)"
  by (simp add: pget_def)

lemma pmod_apply [prog_simps]: "pmod f s = (Inr (), f s)"
  by (simp add: pmod_def)

lemma pbind_Inr: "m s = (Inr x, s') \<Longrightarrow> pbind m f s = f x s'"
  by (simp add: pbind_def)

lemma pbind_Inl: "m s = (Inl e, s') \<Longrightarrow> pbind m f s = (Inl e, s')"
  by (simp add: pbind_def)

lemma pthen_Inr: "m s = (Inr x, s') \<Longrightarrow> pthen m n s = n s'"
  by (simp add: pthen_def pbind_def)

lemma pthen_Inl: "m s = (Inl e, s') \<Longrightarrow> pthen m n s = (Inl e, s')"
  by (simp add: pthen_def pbind_def)

lemma pcatch_Inr: "m s = (Inr x, s') \<Longrightarrow> pcatch m h s = (Inr x, s')"
  by (simp add: pcatch_def)

lemma pcatch_Inl:
  "m s = (Inl e, s') \<Longrightarrow>
     pcatch m h s = (case e of Socket_exception msg \<Rightarrow> h msg s' | _ \<Rightarrow> (Inl e, s'))"
  by (simp add: pcatch_def)

lemma pbind_apply [prog_simps]:
  "pbind m f s = (case m s of (Inl e, s') \<Rightarrow> (Inl e, s') | (Inr x, s') \<Rightarrow> f x s')"
  by (simp add: pbind_def)

lemma pthen_apply [prog_simps]:
  "pthen m n s = (case m s of (Inl e, s') \<Rightarrow> (Inl e, s') | (Inr x, s') \<Rightarrow> n s')"
  by (simp add: pthen_def pbind_def)

lemma pcatch_apply [prog_simps]:
  "pcatch m h s = (case m s of
      (Inl e, s') \<Rightarrow> (case e of Socket_exception msg \<Rightarrow> h msg s' | _ \<Rightarrow> (Inl e, s'))
    | (Inr x, s') \<Rightarrow> (Inr x, s'))"
  by (simp add: pcatch_def)

lemma pnoexcept_apply [prog_simps]:
  "pnoexcept m s = (case m s of (Inl e, s') \<Rightarrow> (Inl (no_throw e), s') | (Inr x, s') \<Rightarrow> (Inr x, s'))"
  by (simp add: pnoexcept_def)

lemma prog_if [prog_simps]: "(if b then m else n) s = (if b then m s else n s)"
  by simp

lemma prog_case_option [prog_simps]:
  "(case x of None \<Rightarrow> m | Some y \<Rightarrow> n y) s = (case x of None \<Rightarrow> m s | Some y \<Rightarrow> n y s)"
  by (simp split: option.split)

lemma prog_case_prod [prog_simps]: "(case p of (x, y) \<Rightarrow> m x y) s = (case p of (x, y) \<Rightarrow> m x y s)"
  by (simp split: prod.split)

lemma pbind_pret [simp]: "pbind (pret x) f = f x"
  by (simp add: fun_eq_iff pbind_def pret_def)

lemma pbind_praise [simp]: "pbind (praise e) f = praise e"
  by (simp add: fun_eq_iff pbind_def praise_def)

lemma pbind_assoc: "pbind (pbind m f) g = pbind m (\<lambda>x. pbind (f x) g)"
  by (auto simp: fun_eq_iff pbind_def split: prod.splits sum.splits)

lemma piter_append: "piter f (xs @ ys) = pthen (piter f xs) (piter f ys)"
  by (induction xs) (simp_all add: pthen_def pbind_assoc)

text \<open>A loop whose body leaves a state as it is, and one whose body keeps a relation to it.\<close>

lemma piter_same: "(\<And>x. x \<in> set xs \<Longrightarrow> f x s = (Inr (), s)) \<Longrightarrow> piter f xs s = (Inr (), s)"
  by (induction xs) (simp_all add: prog_simps)

lemma piter_inv:
  assumes "\<And>x s. x \<in> set xs \<Longrightarrow> P s \<Longrightarrow> \<exists>s'. f x s = (Inr (), s') \<and> P s'" and "P s"
  shows "\<exists>s'. piter f xs s = (Inr (), s') \<and> P s'"
  using assms
proof (induction xs arbitrary: s)
  case (Cons x xs)
  from Cons.prems(1) [of x s] Cons.prems(2) obtain s1 where s1: "f x s = (Inr (), s1)" "P s1" by auto
  have "\<exists>s'. piter f xs s1 = (Inr (), s') \<and> P s'" by (rule Cons.IH) (use Cons.prems(1) s1(2) in auto)
  with s1(1) show ?case by (simp add: prog_simps)
qed (simp add: prog_simps)

subsection \<open>Hoare triples\<close>

text \<open>
  \<open>hoare P m Q E\<close>: from a state with \<open>P\<close>, the program either returns \<open>x\<close> with
  \<open>Q x\<close> or throws \<open>e\<close> with \<open>E e\<close>. Programs are total functions, so this is total
  correctness, up to \<open>Out_of_fuel\<close>, which \<open>E\<close> sees like any other outcome.
\<close>

definition hoare ::
  "('s \<Rightarrow> bool) \<Rightarrow> ('s, 'a) prog \<Rightarrow> ('a \<Rightarrow> 's \<Rightarrow> bool) \<Rightarrow> (exn \<Rightarrow> 's \<Rightarrow> bool) \<Rightarrow> bool" where
  "hoare P m Q E \<longleftrightarrow>
     (\<forall>s. P s \<longrightarrow> (case m s of (Inl e, s') \<Rightarrow> E e s' | (Inr x, s') \<Rightarrow> Q x s'))"

text \<open>\<open>keeps P m\<close>: \<open>P\<close> is an invariant of \<open>m\<close>, whether it returns or throws.\<close>

abbreviation keeps :: "('s \<Rightarrow> bool) \<Rightarrow> ('s, 'a) prog \<Rightarrow> bool" where
  "keeps P m \<equiv> hoare P m (\<lambda>_. P) (\<lambda>_. P)"

lemma hoareI:
  assumes "\<And>s x s'. P s \<Longrightarrow> m s = (Inr x, s') \<Longrightarrow> Q x s'"
    and "\<And>s e s'. P s \<Longrightarrow> m s = (Inl e, s') \<Longrightarrow> E e s'"
  shows "hoare P m Q E"
  using assms by (auto simp: hoare_def split: prod.splits sum.splits)

lemma hoare_Inr: "hoare P m Q E \<Longrightarrow> P s \<Longrightarrow> m s = (Inr x, s') \<Longrightarrow> Q x s'"
  by (auto simp: hoare_def split: prod.splits sum.splits)

lemma hoare_Inl: "hoare P m Q E \<Longrightarrow> P s \<Longrightarrow> m s = (Inl e, s') \<Longrightarrow> E e s'"
  by (auto simp: hoare_def split: prod.splits sum.splits)

lemma keeps_snd:
  assumes "keeps P m" and "P s" shows "P (snd (m s))"
proof -
  obtain r s' where "m s = (r, s')" by (cases "m s")
  with assms show ?thesis
    by (cases r) (auto dest: hoare_Inr hoare_Inl)
qed

lemma keepsI: "(\<And>s. P s \<Longrightarrow> P (snd (m s))) \<Longrightarrow> keeps P m"
  by (rule hoareI) (metis snd_conv)+

lemma keeps_pairI: "(\<And>ob w. P (ob, w) \<Longrightarrow> P (snd (m (ob, w)))) \<Longrightarrow> keeps P m"
  by (rule keepsI) (metis prod.collapse)

lemma hoare_pret: "hoare (Q x) (pret x) Q E"
  by (simp add: hoare_def pret_def)

lemma hoare_praise: "hoare (E e) (praise e) Q E"
  by (simp add: hoare_def praise_def)

lemma keeps_pret [hoare_rules]: "keeps P (pret x)"
  by (simp add: hoare_def pret_def)

lemma keeps_praise [hoare_rules]: "keeps P (praise e)"
  by (simp add: hoare_def praise_def)

lemma keeps_pget [hoare_rules]: "keeps P (pget f)"
  by (simp add: hoare_def pget_def)

lemma keeps_pmod: "(\<And>s. P s \<Longrightarrow> P (f s)) \<Longrightarrow> keeps P (pmod f)"
  by (simp add: hoare_def pmod_def)

lemma hoare_pbind:
  assumes "hoare P m R E" and "\<And>x. hoare (R x) (f x) Q E"
  shows "hoare P (pbind m f) Q E"
proof (rule hoareI)
  fix s x s' assume "P s" "pbind m f s = (Inr x, s')"
  then show "Q x s'"
    using assms by (auto simp: pbind_def split: prod.splits sum.splits dest: hoare_Inr)
next
  fix s e s' assume "P s" "pbind m f s = (Inl e, s')"
  then show "E e s'"
    using assms by (auto simp: pbind_def split: prod.splits sum.splits dest: hoare_Inr hoare_Inl)
qed

lemma keeps_pbind [hoare_rules]: "keeps P m \<Longrightarrow> (\<And>x. keeps P (f x)) \<Longrightarrow> keeps P (pbind m f)"
  by (rule hoare_pbind)

lemma keeps_pthen [hoare_rules]: "keeps P m \<Longrightarrow> keeps P n \<Longrightarrow> keeps P (pthen m n)"
  by (simp add: pthen_def keeps_pbind)

lemma keeps_if [hoare_rules]:
  "(b \<Longrightarrow> keeps P m) \<Longrightarrow> (\<not> b \<Longrightarrow> keeps P n) \<Longrightarrow> keeps P (if b then m else n)"
  by simp

lemma keeps_pcatch [hoare_rules]:
  "keeps P m \<Longrightarrow> (\<And>msg. keeps P (h msg)) \<Longrightarrow> keeps P (pcatch m h)"
proof (rule hoareI)
  fix s x s'
  assume k: "keeps P m" "\<And>msg. keeps P (h msg)" and P: "P s" and r: "pcatch m h s = (Inr x, s')"
  obtain o1 s1 where m: "m s = (o1, s1)" by (cases "m s")
  have "P s1" using keeps_snd [OF k(1) P] m by simp
  with k(2) r m show "P s'"
    by (auto simp: pcatch_def split: sum.splits exn.splits dest: hoare_Inr)
next
  fix s e s'
  assume k: "keeps P m" "\<And>msg. keeps P (h msg)" and P: "P s" and r: "pcatch m h s = (Inl e, s')"
  obtain o1 s1 where m: "m s = (o1, s1)" by (cases "m s")
  have "P s1" using keeps_snd [OF k(1) P] m by simp
  with k(2) r m show "P s'"
    by (auto simp: pcatch_def split: sum.splits exn.splits dest: hoare_Inl)
qed

lemma keeps_pnoexcept [hoare_rules]: "keeps P m \<Longrightarrow> keeps P (pnoexcept m)"
  by (rule hoareI) (auto simp: pnoexcept_def split: prod.splits sum.splits dest: hoare_Inr hoare_Inl)

lemma keeps_piter [hoare_rules]: "(\<And>x. keeps P (f x)) \<Longrightarrow> keeps P (piter f xs)"
  by (induction xs) (auto intro: hoare_rules)

subsection \<open>Bytes and characters\<close>

text \<open>
  \<open>socket::data_type\<close> is \<open>unsigned char\<close>; a \<open>std::string\<close> holds \<open>char\<close>. Building
  one from the other, as the code does through iterator ranges, converts element by element.
\<close>

type_synonym byte = "8 word"

definition byte_of :: "char \<Rightarrow> byte" where
  "byte_of c = of_char c"

definition char_of_byte :: "byte \<Rightarrow> char" where
  "char_of_byte b = char_of (unat b)"

abbreviation bytes_of :: "string \<Rightarrow> byte list" where
  "bytes_of s \<equiv> map byte_of s"

abbreviation string_of :: "byte list \<Rightarrow> string" where
  "string_of bs \<equiv> map char_of_byte bs"

lemma unat_byte_of: "unat (byte_of c) = of_char c"
proof -
  have "of_char c = (of_char (char_of (of_char c :: nat)) :: nat)" by simp
  then have "(of_char c :: nat) < 256"
    by (metis of_char_of mod_less_divisor zero_less_numeral)
  moreover have "byte_of c = of_nat (of_char c)"
    by (simp add: byte_of_def of_nat_of_char)
  ultimately show ?thesis by (simp add: unat_of_nat)
qed

lemma char_of_byte_of [simp]: "char_of_byte (byte_of c) = c"
  by (simp add: char_of_byte_def unat_byte_of)

lemma byte_of_char_of_byte [simp]: "byte_of (char_of_byte b) = b"
proof -
  have "unat b < 2 ^ LENGTH(8)" by (rule unsigned_less)
  then have "unat b < 256" by simp
  then have "unat (byte_of (char_of_byte b)) = unat b"
    by (simp add: unat_byte_of char_of_byte_def)
  then show ?thesis by (rule unsigned_word_eqI)
qed

lemma byte_of_inject [simp]: "byte_of c = byte_of d \<longleftrightarrow> c = d"
  by (metis char_of_byte_of)

lemma byte_char_comp [simp]: "char_of_byte \<circ> byte_of = id" "byte_of \<circ> char_of_byte = id"
  by (simp_all add: fun_eq_iff)

lemma string_of_bytes_of: "string_of (bytes_of s) = s"
  by simp

lemma bytes_of_string_of: "bytes_of (string_of bs) = bs"
  by simp

subsection \<open>Machine integers\<close>

text \<open>
  Conversion to a 32-bit \<open>int\<close>: the low 32 bits, read as two's complement.
  \<open>cast_int\<close> is \<open>static_cast<int>\<close> of a \<open>size_t\<close>.
\<close>

definition to_int :: "int \<Rightarrow> int" where
  "to_int i = signed_take_bit 31 i"

definition cast_int :: "nat \<Rightarrow> int" where
  "cast_int n = to_int (int n)"

lemma to_int_small: "- (2 ^ 31) \<le> i \<Longrightarrow> i < 2 ^ 31 \<Longrightarrow> to_int i = i"
  unfolding to_int_def by (intro signed_take_bit_int_eq_self) auto

lemma cast_int_small: "n < 2 ^ 31 \<Longrightarrow> cast_int n = int n"
  unfolding cast_int_def by (intro to_int_small) auto

lemma to_int_const [simp]: "to_int 0 = 0" "to_int (- 1) = - 1"
  by (simp_all add: to_int_def)

lemma cast_int_0 [simp]: "cast_int 0 = 0"
  by (simp add: cast_int_def)

text \<open>Decimal rendering (\<open>%d\<close>, \<open>%zu\<close>).\<close>

definition digit_char :: "nat \<Rightarrow> char" where
  "digit_char d = char_of (48 + d)"

fun dec_nat :: "nat \<Rightarrow> string" where
  "dec_nat n = (if n < 10 then [digit_char n] else dec_nat (n div 10) @ [digit_char (n mod 10)])"

declare dec_nat.simps [simp del]

definition dec_int :: "int \<Rightarrow> string" where
  "dec_int i = (if i < 0 then CHR ''-'' # dec_nat (nat (- i)) else dec_nat (nat i))"

lemma dec_nat_ne [simp]: "dec_nat n \<noteq> []"
  by (subst dec_nat.simps) simp

text \<open>\<open>isdigit\<close> and the value of a digit, as \<open>sscanf\<close> and \<open>stoi\<close> read them.\<close>

definition is_digit :: "char \<Rightarrow> bool" where
  "is_digit c \<longleftrightarrow> (48 :: nat) \<le> of_char c \<and> (of_char c :: nat) \<le> 57"

definition digit_val :: "char \<Rightarrow> nat" where
  "digit_val c = of_char c - 48"

definition num_of :: "string \<Rightarrow> nat" where
  "num_of ds = foldl (\<lambda>n c. 10 * n + digit_val c) 0 ds"

lemma digit_char_props [simp]:
  assumes "d < 10"
  shows "is_digit (digit_char d)" "digit_val (digit_char d) = d"
  using assms by (auto simp: is_digit_def digit_val_def digit_char_def)

lemma dec_nat_digits: "c \<in> set (dec_nat n) \<Longrightarrow> is_digit c"
proof (induction n arbitrary: c rule: dec_nat.induct)
  case (1 n)
  then show ?case
    by (cases "n < 10") (auto simp: dec_nat.simps [of n])
qed

lemma num_of_dec_nat [simp]: "num_of (dec_nat n) = n"
proof (induction n rule: dec_nat.induct)
  case (1 n)
  then show ?case
    by (cases "n < 10") (simp_all add: dec_nat.simps [of n] num_of_def)
qed

text \<open>C strings end at the first NUL: what \<open>c_str()\<close> shows to a C function.\<close>

definition c_str :: "string \<Rightarrow> string" where
  "c_str s = takeWhile (\<lambda>c. c \<noteq> CHR 0x00) s"

lemma c_str_id: "CHR 0x00 \<notin> set s \<Longrightarrow> c_str s = s"
  unfolding c_str_def by (rule takeWhile_eq_all_conv [THEN iffD2]) auto

text \<open>\<open>snprintf(buf, n, \<dots>)\<close> keeps at most \<open>n - 1\<close> characters.\<close>

definition snprintf :: "nat \<Rightarrow> string \<Rightarrow> string" where
  "snprintf n s = take (n - 1) s"

end
