(* ===== verification/Cpp_Seq.thy ===== *)
theory Cpp_Seq
  imports Prelude
begin

section \<open>Sequences: iterators, algorithms and string searches\<close>

text \<open>
  The standard algorithms the code calls on \<open>std::vector\<close> and \<open>std::string\<close>. An iterator
  into a sequence \<open>xs\<close> is its position, a number up to \<open>length xs\<close>, which is
  \<open>end()\<close>. \<open>std::string::npos\<close> is \<open>None\<close>.
\<close>

subsection \<open>\<open>std::find\<close>, \<open>std::find_first_of\<close>, \<open>erase\<close>\<close>

text \<open>\<open>find_range P xs i j\<close>: the first position in \<open>[i, j)\<close> whose element satisfies
  \<open>P\<close>, or \<open>j\<close>; \<open>find_from\<close> searches up to \<open>end()\<close>.\<close>

definition find_range :: "('a \<Rightarrow> bool) \<Rightarrow> 'a list \<Rightarrow> nat \<Rightarrow> nat \<Rightarrow> nat" where
  "find_range P xs i j = i + length (takeWhile (\<lambda>x. \<not> P x) (take (j - i) (drop i xs)))"

definition find_from :: "('a \<Rightarrow> bool) \<Rightarrow> 'a list \<Rightarrow> nat \<Rightarrow> nat" where
  "find_from P xs i = i + length (takeWhile (\<lambda>x. \<not> P x) (drop i xs))"

definition erase_range :: "'a list \<Rightarrow> nat \<Rightarrow> nat \<Rightarrow> 'a list" where
  "erase_range xs i j = take i xs @ drop j xs"

abbreviation erase_at :: "'a list \<Rightarrow> nat \<Rightarrow> 'a list" where
  "erase_at xs i \<equiv> erase_range xs i (Suc i)"

definition sub_range :: "'a list \<Rightarrow> nat \<Rightarrow> nat \<Rightarrow> 'a list" where
  "sub_range xs i j = take (j - i) (drop i xs)"

lemma find_from_ge: "i \<le> find_from P xs i"
  by (simp add: find_from_def)

lemma find_from_le: "i \<le> length xs \<Longrightarrow> find_from P xs i \<le> length xs"
  using length_takeWhile_le [of "\<lambda>x. \<not> P x" "drop i xs"]
  by (simp add: find_from_def)

lemma find_from_append:
  "find_from P (pre @ ys) (length pre) = length pre + length (takeWhile (\<lambda>x. \<not> P x) ys)"
  by (simp add: find_from_def)

lemma find_from_hit:
  "(\<And>x. x \<in> set a \<Longrightarrow> \<not> P x) \<Longrightarrow> P c \<Longrightarrow>
     find_from P (pre @ a @ c # b) (length pre) = length pre + length a"
  by (simp add: find_from_append takeWhile_tail)

lemma find_from_miss:
  "(\<And>x. x \<in> set a \<Longrightarrow> \<not> P x) \<Longrightarrow> find_from P (pre @ a) (length pre) = length (pre @ a)"
  by (simp add: find_from_append takeWhile_eq_all_conv [THEN iffD2])

lemma find_from_holds:
  assumes "find_from P xs i < length xs"
  shows "P (xs ! find_from P xs i)"
proof -
  have "length (takeWhile (\<lambda>x. \<not> P x) (drop i xs)) < length (drop i xs)"
    using assms by (simp add: find_from_def)
  from nth_length_takeWhile [OF this] assms show ?thesis
    by (simp add: find_from_def)
qed

lemma find_from_decomp:
  assumes "i \<le> length xs"
  obtains (hit) a b c where "drop i xs = a @ c # b" "P c" "\<forall>x\<in>set a. \<not> P x"
      "find_from P xs i = i + length a"
  | (miss) "\<forall>x\<in>set (drop i xs). \<not> P x" "find_from P xs i = length xs"
proof -
  let ?t = "takeWhile (\<lambda>x. \<not> P x) (drop i xs)"
  let ?d = "dropWhile (\<lambda>x. \<not> P x) (drop i xs)"
  show thesis
  proof (cases ?d)
    case Nil
    then have "\<forall>x\<in>set (drop i xs). \<not> P x" by (simp add: dropWhile_eq_Nil_conv)
    moreover from this have "find_from P xs i = length xs"
      using assms by (simp add: find_from_def takeWhile_eq_all_conv [THEN iffD2])
    ultimately show thesis by (rule miss)
  next
    case (Cons c b)
    then have "P c" by (simp add: dropWhile_eq_Cons_conv)
    moreover have "drop i xs = ?t @ c # b"
      using takeWhile_dropWhile_id [of "\<lambda>x. \<not> P x" "drop i xs"] Cons by simp
    moreover have "\<forall>x\<in>set ?t. \<not> P x" by (auto dest: set_takeWhileD)
    ultimately show thesis by (intro hit) (simp_all add: find_from_def)
  qed
qed

subsection \<open>\<open>std::search\<close>, \<open>std::string::find\<close>, \<open>substr\<close>\<close>

fun find_sub :: "'a list \<Rightarrow> 'a list \<Rightarrow> nat option" where
  "find_sub pat [] = (if pat = [] then Some 0 else None)"
| "find_sub pat (x # xs) =
     (if prefix pat (x # xs) then Some 0 else map_option Suc (find_sub pat xs))"

definition str_find :: "'a list \<Rightarrow> 'a list \<Rightarrow> nat \<Rightarrow> nat option" where
  "str_find s pat pos =
     (if pos \<le> length s then map_option (\<lambda>k. pos + k) (find_sub pat (drop pos s)) else None)"

text \<open>\<open>s.substr(pos, n)\<close> throws \<open>std::out_of_range\<close> when \<open>pos > s.size()\<close>; a count
  \<open>None\<close> is \<open>npos\<close>: up to the end.\<close>

definition substr :: "'a list \<Rightarrow> nat \<Rightarrow> nat option \<Rightarrow> exn + 'a list" where
  "substr s pos n =
     (if length s < pos then Inl Out_of_range
      else Inr (case n of None \<Rightarrow> drop pos s | Some k \<Rightarrow> take k (drop pos s)))"

lemma find_sub_None_Nil: "find_sub pat xs = None \<Longrightarrow> pat \<noteq> []"
  by (cases xs) (auto split: if_splits)

lemma find_sub_Some:
  "find_sub pat xs = Some k \<Longrightarrow> \<exists>a b. xs = a @ pat @ b \<and> length a = k"
proof (induction pat xs arbitrary: k rule: find_sub.induct)
  case (1 pat)
  then show ?case by (auto split: if_splits)
next
  case (2 pat x xs)
  show ?case
  proof (cases "prefix pat (x # xs)")
    case True
    then obtain b where "x # xs = pat @ b" by (auto elim: prefixE)
    moreover have "k = 0" using True "2.prems" by simp
    ultimately show ?thesis by (intro exI [of _ "[]"] exI [of _ b]) simp
  next
    case False
    with "2.prems" obtain j where j: "find_sub pat xs = Some j" and k: "k = Suc j" by auto
    from "2.IH" [OF False j] obtain a b where "xs = a @ pat @ b" "length a = j" by auto
    with k show ?thesis by (intro exI [of _ "x # a"] exI [of _ b]) simp
  qed
qed

lemma find_sub_None: "find_sub pat xs = None \<longleftrightarrow> \<not> sublist pat xs"
  by (induction pat xs rule: find_sub.induct) (auto simp: sublist_Cons_right)

lemma find_sub_first:
  assumes "p \<notin> set a"
  shows "find_sub (p # ps) (a @ (p # ps) @ b) = Some (length a)"
  using assms
proof (induction a)
  case Nil
  then show ?case by (simp add: prefix_def)
next
  case (Cons x a)
  then have "\<not> prefix (p # ps) ((x # a) @ (p # ps) @ b)" by simp
  with Cons show ?case by simp
qed

lemma str_find_first:
  assumes "p \<notin> set a"
  shows "str_find (pre @ a @ (p # ps) @ b) (p # ps) (length pre) = Some (length pre + length a)"
  using find_sub_first [OF assms, of ps b] by (simp add: str_find_def)

lemma str_find_first0:
  assumes "p \<notin> set a"
  shows "str_find (a @ (p # ps) @ b) (p # ps) 0 = Some (length a)"
  using str_find_first [OF assms, of "[]"] by simp

lemma str_find_none:
  assumes "p \<notin> set a"
  shows "str_find (pre @ a) (p # ps) (length pre) = None"
proof -
  have "\<not> sublist (p # ps) a"
    using assms by (auto simp: sublist_def)
  then show ?thesis by (simp add: str_find_def find_sub_None)
qed

lemma str_find_bounds:
  assumes "str_find s pat pos = Some k"
  shows "pos \<le> k" "k + length pat \<le> length s"
proof -
  from assms obtain j where j: "find_sub pat (drop pos s) = Some j" and k: "k = pos + j"
    and p: "pos \<le> length s"
    by (auto simp: str_find_def split: if_splits)
  from find_sub_Some [OF j] obtain a b where ab: "drop pos s = a @ pat @ b" "length a = j" by auto
  have "length (drop pos s) = j + length pat + length b" using ab by simp
  with k p show "pos \<le> k" "k + length pat \<le> length s" by auto
qed

lemma substr_ok: "pos \<le> length s \<Longrightarrow>
    substr s pos n = Inr (case n of None \<Rightarrow> drop pos s | Some k \<Rightarrow> take k (drop pos s))"
  by (simp add: substr_def)

lemma substr_append:
  "substr (pre @ a @ b) (length pre) (Some (length a)) = Inr a"
  by (simp add: substr_def)

end
