(* ===== verification/Uri.thy ===== *)
theory Uri
  imports Cpp_Seq
begin

section \<open>URIs (\<open>uri.h\<close>, \<open>uri.cpp\<close>)\<close>

text \<open>
  The class \<open>uri\<close>: parsing into components, and percent encoding. The parser has two
  implementations, chosen when the program is built: one on the library uriparser, which is a
  parameter here, and a manual one on iterators. A dereferenced \<open>end()\<close> of a string reads the
  terminating NUL, which is how the code uses it; the character classes are those of the C
  locale, in which bytes above 127 are neither letters nor digits.
\<close>

definition NUL :: char where "NUL = CHR 0x00"

text \<open>\<open>*i\<close> and \<open>i[k]\<close> on an iterator.\<close>

definition char_at :: "string \<Rightarrow> nat \<Rightarrow> char" where
  "char_at s i = (if i < length s then s ! i else NUL)"

definition code :: "char \<Rightarrow> nat" where
  "code c = of_char c"

definition is_upper :: "char \<Rightarrow> bool" where
  "is_upper c \<longleftrightarrow> 65 \<le> code c \<and> code c \<le> 90"

definition is_lower :: "char \<Rightarrow> bool" where
  "is_lower c \<longleftrightarrow> 97 \<le> code c \<and> code c \<le> 122"

definition is_alnum :: "char \<Rightarrow> bool" where
  "is_alnum c \<longleftrightarrow> is_digit c \<or> is_upper c \<or> is_lower c"

definition to_lower :: "char \<Rightarrow> char" where
  "to_lower c = (if is_upper c then char_of (code c + 32) else c)"

subsection \<open>Percent encoding\<close>

definition is_unreserved :: "char \<Rightarrow> bool" where
  "is_unreserved c \<longleftrightarrow>
     is_alnum c \<or> c = CHR ''-'' \<or> c = CHR ''_'' \<or> c = CHR ''.'' \<or> c = CHR ''~''"

text \<open>A digit under the flags \<open>hex\<close> and \<open>uppercase\<close>; a number under \<open>setw(2)\<close>, fill \<open>0\<close>.\<close>

definition hex_upper :: "nat \<Rightarrow> char" where
  "hex_upper n = (if n < 10 then char_of (48 + n) else char_of (55 + n))"

definition hex2 :: "nat \<Rightarrow> string" where
  "hex2 n = [hex_upper (n div 16), hex_upper (n mod 16)]"

fun uri_encode :: "string \<Rightarrow> string" where
  "uri_encode [] = []"
| "uri_encode (c # cs) =
     (if is_unreserved c then c # uri_encode cs
      else CHR ''%'' # hex2 (code c) @ uri_encode cs)"

text \<open>\<open>from_hex\<close> computes in \<open>char\<close>, also on characters that are not digits.\<close>

definition from_hex :: "char \<Rightarrow> byte" where
  "from_hex ch =
     (if is_digit ch then byte_of ch - 48 else byte_of (to_lower ch) - 97 + 10)"

unbundle bit_operations_syntax

definition hex_pair :: "char \<Rightarrow> char \<Rightarrow> char" where
  "hex_pair a b = char_of_byte (push_bit 4 (from_hex a) OR from_hex b)"

fun uri_decode :: "string \<Rightarrow> string" where
  "uri_decode [] = []"
| "uri_decode (c # cs) =
     (if c = CHR ''%'' then
        (if char_at cs 0 \<noteq> NUL \<and> char_at cs 1 \<noteq> NUL
         then hex_pair (char_at cs 0) (char_at cs 1) # uri_decode (drop 2 cs)
         else uri_decode cs)
      else if c = CHR ''+'' then CHR '' '' # uri_decode cs
      else c # uri_decode cs)"

subsection \<open>The object\<close>

record uri =
  u_text :: string
  u_valid :: bool
  u_scheme :: string
  u_user :: string
  u_password :: string
  u_host :: string
  u_port :: string
  u_path :: string
  u_query :: string
  u_fragment :: string

definition uri_default :: uri where
  "uri_default = \<lparr>u_text = [], u_valid = False, u_scheme = [], u_user = [], u_password = [],
     u_host = [], u_port = [], u_path = [], u_query = [], u_fragment = []\<rparr>"

definition full_path :: "uri \<Rightarrow> string" where
  "full_path u =
     u_path u @ (if u_query u \<noteq> [] then CHR ''?'' # u_query u else [])
       @ (if u_fragment u \<noteq> [] then CHR ''#'' # u_fragment u else [])"

definition host_with_port :: "uri \<Rightarrow> string" where
  "host_with_port u = (if u_port u \<noteq> [] then u_host u @ '':'' @ u_port u else u_host u)"

text \<open>The structure that uriparser fills in: text ranges, null when absent, and a list of
  path segments.\<close>

record uri_ranges =
  r_scheme :: "string option"
  r_userInfo :: "string option"
  r_hostText :: "string option"
  r_portText :: "string option"
  r_path :: "string option list"
  r_query :: "string option"
  r_fragment :: "string option"

definition fromRange :: "string option \<Rightarrow> string" where
  "fromRange rng = (case rng of Some t \<Rightarrow> t | None \<Rightarrow> [])"

fun fromList :: "string option list \<Rightarrow> string \<Rightarrow> string" where
  "fromList [] delim = []"
| "fromList (x # xs) delim = delim @ fromRange x @ fromList xs delim"

definition prot_end :: string where
  "prot_end = ''://''"

text \<open>The branch on the library, \<open>uriParseUriA\<close> given the C string.\<close>

definition parse_lib ::
  "(string \<Rightarrow> uri_ranges option) \<Rightarrow> string \<Rightarrow> string \<Rightarrow> uri \<Rightarrow> bool \<times> uri" where
  "parse_lib uriParseUriA s defaultScheme u =
     (let url = (if find_sub prot_end s = None then defaultScheme @ prot_end @ s else s) in
      case uriParseUriA (c_str url) of
        None \<Rightarrow> (False, u)
      | Some r \<Rightarrow>
          let userInfo = fromRange (r_userInfo r);
              colon = str_find userInfo '':'' 0;
              u1 = u\<lparr>u_scheme := fromRange (r_scheme r)\<rparr>;
              u2 = (if userInfo \<noteq> []
                    then u1\<lparr>u_user := (case colon of None \<Rightarrow> userInfo | Some k \<Rightarrow> take k userInfo),
                            u_password := (case colon of None \<Rightarrow> userInfo
                                           | Some k \<Rightarrow> drop (k + 1) userInfo)\<rparr>
                    else u1)
          in (True, u2\<lparr>u_host := fromRange (r_hostText r), u_port := fromRange (r_portText r),
                u_path := fromList (r_path r) ''/'', u_query := fromRange (r_query r),
                u_fragment := fromRange (r_fragment r)\<rparr>))"

text \<open>The manual branch, in the order of the code; positions are iterators into \<open>s\<close>.\<close>

definition parse_userinfo :: "string \<Rightarrow> nat \<Rightarrow> uri \<Rightarrow> nat \<times> uri" where
  "parse_userinfo s pos u =
     (let user_i = find_from (\<lambda>c. c = CHR ''@'') s pos in
      if user_i \<noteq> length s then
        let pwd_i = find_range (\<lambda>c. c = CHR '':'') s pos user_i in
        (Suc user_i,
         if pwd_i \<noteq> user_i
         then u\<lparr>u_password := sub_range s pwd_i user_i, u_user := sub_range s pos pwd_i\<rparr>
         else u\<lparr>u_user := sub_range s pos user_i\<rparr>)
      else (pos, u))"

definition parse_authority :: "string \<Rightarrow> nat \<Rightarrow> uri \<Rightarrow> nat \<times> uri" where
  "parse_authority s pos u =
     (let path_i = find_from (\<lambda>c. c = CHR ''/'') s pos;
          port_i = find_range (\<lambda>c. c = CHR '':'') s pos path_i;
          u1 = (if port_i \<noteq> length s
                then u\<lparr>u_port := sub_range s
                        (if char_at s port_i = CHR '':'' then Suc port_i else port_i) path_i\<rparr>
                else u);
          host_end = (if port_i \<noteq> length s then port_i else path_i)
      in (path_i, u1\<lparr>u_host := map to_lower (sub_range s pos host_end)\<rparr>))"

definition parse_path :: "string \<Rightarrow> nat \<Rightarrow> uri \<Rightarrow> uri" where
  "parse_path s path_i u =
     (let query_i = find_from (\<lambda>c. c = CHR ''?'') s path_i;
          u1 = u\<lparr>u_path := sub_range s
                  (if char_at s path_i = CHR ''/'' then Suc path_i else path_i) query_i\<rparr>;
          query_i' = (if query_i \<noteq> length s then Suc query_i else query_i);
          frag_i = find_from (\<lambda>c. c = CHR ''#'') s query_i';
          u2 = u1\<lparr>u_query := sub_range s query_i' frag_i\<rparr>
      in if frag_i \<noteq> length s then u2\<lparr>u_fragment := sub_range s frag_i (length s)\<rparr> else u2)"

definition parse_manual :: "string \<Rightarrow> string \<Rightarrow> uri \<Rightarrow> bool \<times> uri" where
  "parse_manual s defaultScheme u =
     (let run = (\<lambda>pos u. case parse_userinfo s pos u of (pos', u1) \<Rightarrow>
                  case parse_authority s pos' u1 of (path_i, u2) \<Rightarrow> (True, parse_path s path_i u2))
      in case find_sub prot_end s of
           None \<Rightarrow> if defaultScheme = [] then (False, u)
                   else run 0 (u\<lparr>u_scheme := defaultScheme\<rparr>)
         | Some k \<Rightarrow> run (k + length prot_end) (u\<lparr>u_scheme := map to_lower (take k s)\<rparr>))"

definition uri_parse ::
  "(string \<Rightarrow> uri_ranges option) option \<Rightarrow> string \<Rightarrow> string \<Rightarrow> uri \<Rightarrow> bool \<times> uri" where
  "uri_parse lib s defaultScheme u =
     (if s = [] then (False, u)
      else case lib of None \<Rightarrow> parse_manual s defaultScheme u
           | Some uriParseUriA \<Rightarrow> parse_lib uriParseUriA s defaultScheme u)"

text \<open>\<open>uri(uri, defaultScheme)\<close>.\<close>

definition uri_of :: "(string \<Rightarrow> uri_ranges option) option \<Rightarrow> string \<Rightarrow> string \<Rightarrow> uri" where
  "uri_of lib s defaultScheme =
     (case uri_parse lib s defaultScheme (uri_default\<lparr>u_text := s\<rparr>) of (ok, u) \<Rightarrow> u\<lparr>u_valid := ok\<rparr>)"

end
