(* ===== verification/Uri_Facts.thy ===== *)
theory Uri_Facts
  imports Uri
begin

section \<open>URIs: encoding round trip and what the parser makes of a URI\<close>

text \<open>
  Percent encoding and decoding are inverse on every string. The manual parser is compared
  with a URI composed from its parts.
\<close>

subsection \<open>Percent encoding\<close>

lemma less_16: "n < 16 \<longleftrightarrow> n \<in> {0, 1, 2, 3, 4, 5, 6, 7, 8, 9, 10, 11, 12, 13, 14, 15}" for n :: nat
  by (simp add: insert_iff) arith

lemma byte_of_char_of: "byte_of (char_of n) = of_nat (n mod 256)" for n :: nat
proof -
  have "byte_of (char_of n) = of_nat (of_char (char_of n :: char))"
    by (simp only: byte_of_def of_nat_of_char)
  then show ?thesis by (simp only: of_char_of)
qed

lemma from_hex_upper: "n < 16 \<Longrightarrow> from_hex (hex_upper n) = of_nat n"
  unfolding less_16
  by (elim insertE emptyE)
    (simp_all add: from_hex_def hex_upper_def is_digit_def to_lower_def is_upper_def code_def byte_of_char_of)

lemma hex_upper_alnum: "n < 16 \<Longrightarrow> is_alnum (hex_upper n)"
  unfolding less_16
  by (elim insertE emptyE)
    (simp_all add: hex_upper_def is_alnum_def is_digit_def is_upper_def is_lower_def code_def)

lemma alnum_not:
  assumes "is_alnum c"
  shows "c \<noteq> NUL" "c \<noteq> CHR ''%''" "c \<noteq> CHR ''+''"
  using assms by (auto simp: is_alnum_def is_digit_def is_upper_def is_lower_def code_def NUL_def)

lemma unreserved_not: "is_unreserved c \<Longrightarrow> c \<noteq> CHR ''%'' \<and> c \<noteq> CHR ''+''"
  using alnum_not [of c] by (auto simp: is_unreserved_def)

lemma code_less: "code c < 256"
proof -
  have "code c = unat (byte_of c)" by (simp add: code_def unat_byte_of)
  then show ?thesis using unsigned_less [of "byte_of c"] by simp
qed

lemma nibbles_word: "a < 16 \<Longrightarrow> b < 16 \<Longrightarrow> push_bit 4 (of_nat a) OR of_nat b = (of_nat (16 * a + b) :: byte)"
proof -
  assume "a < 16" "b < 16"
  have b: "take_bit 4 (of_nat b :: byte) = of_nat b"
    using \<open>b < 16\<close> by (simp add: take_bit_of_nat) (simp add: take_bit_eq_mod)
  have "push_bit 4 (of_nat a :: byte) + of_nat b = push_bit 4 (of_nat a) OR of_nat b"
    by (rule disjunctive_add) (metis b bit_push_bit_iff bit_take_bit_iff not_less)
  then show ?thesis by (simp add: push_bit_eq_mult mult.commute [of 16])
qed

lemma hex_pair_code: "hex_pair (hex_upper (code c div 16)) (hex_upper (code c mod 16)) = c"
proof -
  have "code c div 16 < 16" using code_less [of c] by simp
  then have "push_bit 4 (from_hex (hex_upper (code c div 16))) OR from_hex (hex_upper (code c mod 16))
      = of_nat (16 * (code c div 16) + code c mod 16)"
    by (simp add: from_hex_upper nibbles_word)
  also have "\<dots> = byte_of c" by (simp add: byte_of_def code_def of_nat_of_char)
  finally show ?thesis by (simp add: hex_pair_def)
qed

lemma uri_decode_encoded: "uri_decode (uri_encode s) = s"
proof (induction s)
  case (Cons c s)
  have "hex_upper (code c div 16) \<noteq> NUL" "hex_upper (code c mod 16) \<noteq> NUL"
    using code_less [of c] by (simp_all add: alnum_not(1) hex_upper_alnum)
  then show ?case
    using Cons unreserved_not [of c] by (auto simp: hex2_def char_at_def hex_pair_code)
qed simp

text \<open>C23: decoding undoes encoding, for every string, whatever bytes it holds.\<close>

theorem uri_decode_encode: "uri_decode (uri_encode s) = s"
  by (rule uri_decode_encoded)

lemma uri_encode_chars: "c \<in> set (uri_encode s) \<Longrightarrow> is_unreserved c \<or> c = CHR ''%''"
proof (induction s)
  case (Cons a s)
  have "is_alnum (hex_upper (code a div 16))" "is_alnum (hex_upper (code a mod 16))"
    using code_less [of a] by (simp_all add: hex_upper_alnum)
  with Cons show ?case by (auto simp: hex2_def is_unreserved_def split: if_splits)
qed simp

lemma uri_encode_length: "length s \<le> length (uri_encode s)"
  by (induction s) auto

text \<open>
  An encoded string is made of unreserved characters and percent signs only, so it can
  stand anywhere in a URI; a string of unreserved characters is its own encoding, and no other
  string is.
\<close>

theorem uri_encode_charset:
  "set (uri_encode s) \<subseteq> {c. is_unreserved c} \<union> {CHR ''%''} \<and>
   (uri_encode s = s \<longleftrightarrow> set s \<subseteq> {c. is_unreserved c})"
proof
  show "set (uri_encode s) \<subseteq> {c. is_unreserved c} \<union> {CHR ''%''}"
    using uri_encode_chars by auto
  show "uri_encode s = s \<longleftrightarrow> set s \<subseteq> {c. is_unreserved c}"
  proof (induction s)
    case (Cons c s)
    have "uri_encode (c # s) \<noteq> c # s" if "\<not> is_unreserved c"
    proof
      assume "uri_encode (c # s) = c # s"
      then have "length (uri_encode (c # s)) = length (c # s)" by simp
      with that uri_encode_length [of s] show False by (simp add: hex2_def)
    qed
    with Cons show ?case by (cases "is_unreserved c") auto
  qed simp
qed

subsection \<open>Parsing\<close>

lemma find_range_append:
  "find_range P (pre @ ys) (length pre) (length pre + n) =
     length pre + length (takeWhile (\<lambda>x. \<not> P x) (take n ys))"
  by (simp add: find_range_def)

lemma takeWhile_all: "(\<And>x. x \<in> set xs \<Longrightarrow> P x) \<Longrightarrow> takeWhile P xs = xs"
  by (simp add: takeWhile_eq_all_conv)

text \<open>The parts of a URI with a path, as they are written.\<close>

record uri_parts =
  p_scheme :: string
  p_userinfo :: "(string \<times> string option) option"
  p_host :: string
  p_port :: "string option"
  p_path :: string
  p_query :: "(string \<times> string option) option"

fun userinfo_text :: "(string \<times> string option) option \<Rightarrow> string" where
  "userinfo_text None = []"
| "userinfo_text (Some (usr, None)) = usr @ ''@''"
| "userinfo_text (Some (usr, Some pw)) = usr @ '':'' @ pw @ ''@''"

fun port_text :: "string option \<Rightarrow> string" where
  "port_text None = []"
| "port_text (Some p) = CHR '':'' # p"

fun query_text :: "(string \<times> string option) option \<Rightarrow> string" where
  "query_text None = []"
| "query_text (Some (q, None)) = CHR ''?'' # q"
| "query_text (Some (q, Some f)) = CHR ''?'' # q @ CHR ''#'' # f"

definition after_userinfo :: "uri_parts \<Rightarrow> string" where
  "after_userinfo p = p_host p @ port_text (p_port p) @ CHR ''/'' # p_path p @ query_text (p_query p)"

definition parts_text :: "uri_parts \<Rightarrow> string" where
  "parts_text p = p_scheme p @ prot_end @ userinfo_text (p_userinfo p) @ after_userinfo p"

definition parts_ok :: "uri_parts \<Rightarrow> bool" where
  "parts_ok p \<longleftrightarrow>
     CHR '':'' \<notin> set (p_scheme p) \<and>
     (case p_userinfo p of
        None \<Rightarrow> CHR ''@'' \<notin> set (after_userinfo p)
      | Some (usr, pw) \<Rightarrow> CHR ''@'' \<notin> set usr \<and> CHR '':'' \<notin> set usr \<and>
          (case pw of None \<Rightarrow> True | Some w \<Rightarrow> CHR ''@'' \<notin> set w)) \<and>
     CHR ''/'' \<notin> set (p_host p) \<and> CHR '':'' \<notin> set (p_host p) \<and>
     (case p_port p of None \<Rightarrow> True | Some n \<Rightarrow> CHR ''/'' \<notin> set n) \<and>
     CHR ''?'' \<notin> set (p_path p) \<and>
     (case p_query p of None \<Rightarrow> True | Some (q, f) \<Rightarrow> CHR ''#'' \<notin> set q)"

text \<open>What the object holds after parsing these parts.\<close>

definition parsed_user :: "(string \<times> string option) option \<Rightarrow> string" where
  "parsed_user ui = (case ui of None \<Rightarrow> [] | Some (usr, _) \<Rightarrow> usr)"

definition parsed_password :: "(string \<times> string option) option \<Rightarrow> string" where
  "parsed_password ui = (case ui of Some (_, Some pw) \<Rightarrow> CHR '':'' # pw | _ \<Rightarrow> [])"

definition parsed_query :: "(string \<times> string option) option \<Rightarrow> string" where
  "parsed_query q = (case q of None \<Rightarrow> [] | Some (t, _) \<Rightarrow> t)"

definition parsed_fragment :: "(string \<times> string option) option \<Rightarrow> string" where
  "parsed_fragment q = (case q of Some (_, Some f) \<Rightarrow> CHR ''#'' # f | _ \<Rightarrow> [])"

lemmas parsed_defs = parsed_user_def parsed_password_def parsed_query_def parsed_fragment_def

lemma parse_userinfo_run:
  assumes "case ui of None \<Rightarrow> CHR ''@'' \<notin> set rest
      | Some (usr, pw) \<Rightarrow> CHR ''@'' \<notin> set usr \<and> CHR '':'' \<notin> set usr \<and>
          (case pw of None \<Rightarrow> True | Some w \<Rightarrow> CHR ''@'' \<notin> set w)"
    and "u_user u = []" and "u_password u = []"
  shows "parse_userinfo (pre @ userinfo_text ui @ rest) (length pre) u =
    (length pre + length (userinfo_text ui),
     u\<lparr>u_user := parsed_user ui, u_password := parsed_password ui\<rparr>)"
proof (cases ui)
  case None
  then have "find_from (\<lambda>c. c = CHR ''@'') (pre @ rest) (length pre) = length (pre @ rest)"
    using assms(1) by (intro find_from_miss) auto
  with None assms show ?thesis
    by (cases u) (simp add: parse_userinfo_def parsed_defs)
next
  case (Some ui')
  obtain usr pw where ui': "ui' = (usr, pw)" by (cases ui')
  show ?thesis
  proof (cases pw)
    case None
    have tw: "takeWhile (\<lambda>c. c \<noteq> CHR ''@'') (usr @ CHR ''@'' # rest) = usr"
      "takeWhile (\<lambda>c. c \<noteq> CHR '':'') usr = usr"
      using assms(1) Some ui' by (auto simp: takeWhile_tail intro!: takeWhile_all)
    from Some ui' None assms(3) show ?thesis
      by (cases u) (simp add: parse_userinfo_def find_from_append find_range_append sub_range_def
          parsed_defs Let_def tw)
  next
    case (Some w)
    have tw: "takeWhile (\<lambda>c. c \<noteq> CHR ''@'') (usr @ CHR '':'' # w @ CHR ''@'' # rest) = usr @ CHR '':'' # w"
      "takeWhile (\<lambda>c. c \<noteq> CHR '':'') (usr @ CHR '':'' # w) = usr"
      using assms(1) \<open>ui = Some ui'\<close> ui' Some takeWhile_tail [of "\<lambda>c. c \<noteq> CHR ''@''" "CHR ''@''" "usr @ CHR '':'' # w" rest]
      by (auto simp: takeWhile_tail takeWhile_append intro!: takeWhile_all)
    have fr: "find_range (\<lambda>c. c = CHR '':'') (pre @ usr @ CHR '':'' # w @ CHR ''@'' # rest) (length pre)
        (Suc (length pre + (length usr + length w))) = length pre + length usr"
      using find_range_append [of "\<lambda>c. c = CHR '':''" pre "usr @ CHR '':'' # w @ CHR ''@'' # rest"
          "Suc (length usr + length w)"] tw(2) by simp
    from \<open>ui = Some ui'\<close> ui' Some show ?thesis
      by (cases u) (simp add: parse_userinfo_def find_from_append tw(1) fr sub_range_def parsed_defs Let_def)
  qed
qed

lemma parse_authority_run:
  assumes "CHR ''/'' \<notin> set h" "CHR '':'' \<notin> set h"
    and "case port of None \<Rightarrow> True | Some n \<Rightarrow> CHR ''/'' \<notin> set n"
    and "u_port u = []"
  shows "parse_authority (pre @ h @ port_text port @ CHR ''/'' # rest) (length pre) u =
    (length pre + length h + length (port_text port),
     u\<lparr>u_host := map to_lower h, u_port := (case port of None \<Rightarrow> [] | Some n \<Rightarrow> n)\<rparr>)"
proof (cases port)
  case None
  have tw: "takeWhile (\<lambda>c. c \<noteq> CHR ''/'') (h @ CHR ''/'' # rest) = h"
    "takeWhile (\<lambda>c. c \<noteq> CHR '':'') h = h"
    using assms by (auto simp: takeWhile_tail intro!: takeWhile_all)
  from None assms(4) show ?thesis
    by (cases u) (simp add: parse_authority_def find_from_append find_range_append sub_range_def Let_def
        char_at_def nth_append tw)
next
  case (Some n)
  have tw: "takeWhile (\<lambda>c. c \<noteq> CHR ''/'') (h @ CHR '':'' # n @ CHR ''/'' # rest) = h @ CHR '':'' # n"
    "takeWhile (\<lambda>c. c \<noteq> CHR '':'') (h @ CHR '':'' # n) = h"
    using assms Some by (auto simp: takeWhile_tail takeWhile_append intro!: takeWhile_all)
  have fr: "find_range (\<lambda>c. c = CHR '':'') (pre @ h @ CHR '':'' # n @ CHR ''/'' # rest) (length pre)
      (Suc (length pre + (length h + length n))) = length pre + length h"
    using find_range_append [of "\<lambda>c. c = CHR '':''" pre "h @ CHR '':'' # n @ CHR ''/'' # rest"
        "Suc (length h + length n)"] tw(2) by simp
  from Some show ?thesis
    by (cases u) (simp add: parse_authority_def find_from_append tw(1) fr sub_range_def Let_def
        char_at_def nth_append)
qed

lemma parse_path_run:
  assumes "CHR ''?'' \<notin> set path"
    and "case q of None \<Rightarrow> True | Some (t, f) \<Rightarrow> CHR ''#'' \<notin> set t"
    and "u_fragment u = []"
  shows "parse_path (pre @ CHR ''/'' # path @ query_text q) (length pre) u =
    u\<lparr>u_path := path, u_query := parsed_query q, u_fragment := parsed_fragment q\<rparr>"
proof (cases q)
  case None
  let ?s = "pre @ CHR ''/'' # path"
  have "find_from (\<lambda>c. c = CHR ''?'') (pre @ (CHR ''/'' # path)) (length pre) = length ?s"
    using assms(1) by (intro find_from_miss) auto
  moreover have "find_from P ?s (length ?s) = length ?s" for P
    using find_from_append [of P ?s "[]"] by simp
  moreover have "sub_range ?s (Suc (length pre)) (length ?s) = path" "sub_range ?s (length ?s) (length ?s) = []"
    "char_at ?s (length pre) = CHR ''/''"
    by (simp_all add: sub_range_def char_at_def nth_append)
  ultimately have "parse_path ?s (length pre) u = u\<lparr>u_path := path, u_query := []\<rparr>"
    by (simp only: parse_path_def Let_def refl if_True if_False simp_thms)
  with None assms(3) show ?thesis
    by (cases u) (simp add: parsed_defs)
next
  case (Some q')
  obtain t f where q': "q' = (t, f)" by (cases q')
  let ?tl = "t @ (case f of None \<Rightarrow> [] | Some g \<Rightarrow> CHR ''#'' # g)"
  let ?pre = "pre @ CHR ''/'' # path @ ''?''"
  let ?s = "pre @ CHR ''/'' # path @ query_text q"
  have s: "?s = pre @ (CHR ''/'' # path) @ CHR ''?'' # ?tl" "?s = ?pre @ ?tl"
    using Some q' by (simp_all split: option.splits)
  have q1: "find_from (\<lambda>c. c = CHR ''?'') ?s (length pre) = length pre + length (CHR ''/'' # path)"
    unfolding s(1) using assms(1) by (intro find_from_hit) auto
  have suc: "Suc (length pre + length (CHR ''/'' # path)) = length ?pre" by simp
  have "takeWhile (\<lambda>c. c \<noteq> CHR ''#'') ?tl = t"
    using assms(2) Some q' by (auto simp: takeWhile_tail intro!: takeWhile_all split: option.splits)
  then have f1: "find_from (\<lambda>c. c = CHR ''#'') ?s (length ?pre) = length ?pre + length t"
    unfolding s(2) find_from_append by simp
  have ne: "length pre + length (CHR ''/'' # path) \<noteq> length ?s" unfolding s(2) by simp
  have rs: "sub_range ?s (Suc (length pre)) (length pre + length (CHR ''/'' # path)) = path"
    "sub_range ?s (length ?pre) (length ?pre + length t) = t"
    unfolding s(2) by (simp_all add: sub_range_def)
  have at: "char_at ?s (length pre) = CHR ''/''" by (simp add: char_at_def nth_append)
  have run: "parse_path ?s (length pre) u =
      (let u2 = u\<lparr>u_path := path, u_query := t\<rparr>
       in if length ?pre + length t \<noteq> length ?s
          then u2\<lparr>u_fragment := sub_range ?s (length ?pre + length t) (length ?s)\<rparr> else u2)"
    by (simp only: parse_path_def Let_def q1 suc f1 ne rs at refl if_True simp_thms)
  show ?thesis
  proof (cases f)
    case None
    have "length ?pre + length t = length ?s" unfolding s(2) using None by simp
    with run None Some q' assms(3) show ?thesis by (cases u) (simp add: parsed_defs Let_def)
  next
    case (Some g)
    have l: "length ?s = length ?pre + length t + Suc (length g)" unfolding s(2) using Some by simp
    have "sub_range ?s (length ?pre + length t) (length ?s) = CHR ''#'' # g"
      unfolding l unfolding s(2) using Some by (simp add: sub_range_def)
    then have "parse_path ?s (length pre) u = u\<lparr>u_path := path, u_query := t, u_fragment := CHR ''#'' # g\<rparr>"
      using run l by (simp only: Let_def) simp
    with Some \<open>q = Some q'\<close> q' show ?thesis by (simp add: parsed_defs)
  qed
qed

lemma parse_composed_run:
  assumes "parts_ok p"
  shows "uri_of None (parts_text p) d =
    \<lparr>u_text = parts_text p, u_valid = True, u_scheme = map to_lower (p_scheme p),
     u_user = parsed_user (p_userinfo p), u_password = parsed_password (p_userinfo p),
     u_host = map to_lower (p_host p), u_port = (case p_port p of None \<Rightarrow> [] | Some n \<Rightarrow> n),
     u_path = p_path p, u_query = parsed_query (p_query p), u_fragment = parsed_fragment (p_query p)\<rparr>"
proof -
  let ?pre = "p_scheme p @ prot_end"
  let ?pre2 = "p_scheme p @ prot_end @ userinfo_text (p_userinfo p)"
  let ?pre3 = "p_scheme p @ prot_end @ userinfo_text (p_userinfo p) @ p_host p @ port_text (p_port p)"
  let ?s = "parts_text p"
  have s: "?s = ?pre @ userinfo_text (p_userinfo p) @ after_userinfo p"
    "?s = ?pre2 @ p_host p @ port_text (p_port p) @ CHR ''/'' # p_path p @ query_text (p_query p)"
    "?s = ?pre3 @ CHR ''/'' # p_path p @ query_text (p_query p)"
    by (simp_all add: parts_text_def after_userinfo_def)
  have scheme: "find_sub prot_end ?s = Some (length (p_scheme p))"
    using assms find_sub_first [of "CHR '':''" "p_scheme p" "''//''"]
    by (simp add: parts_ok_def parts_text_def prot_end_def)
  have ui: "parse_userinfo ?s (length ?pre) u =
      (length ?pre2, u\<lparr>u_user := parsed_user (p_userinfo p), u_password := parsed_password (p_userinfo p)\<rparr>)"
    if "u_user u = []" "u_password u = []" for u
    unfolding s(1) using parse_userinfo_run [OF _ that, where ui = "p_userinfo p" and rest = "after_userinfo p" and pre = ?pre] assms
    by (simp add: parts_ok_def)
  have au: "parse_authority ?s (length ?pre2) u =
      (length ?pre3, u\<lparr>u_host := map to_lower (p_host p), u_port := (case p_port p of None \<Rightarrow> [] | Some n \<Rightarrow> n)\<rparr>)"
    if "u_port u = []" for u
    unfolding s(2) using parse_authority_run [OF _ _ _ that, where h = "p_host p" and port = "p_port p" and pre = ?pre2] assms
    by (simp add: parts_ok_def)
  have pa: "parse_path ?s (length ?pre3) u =
      u\<lparr>u_path := p_path p, u_query := parsed_query (p_query p), u_fragment := parsed_fragment (p_query p)\<rparr>"
    if "u_fragment u = []" for u
    unfolding s(3) using parse_path_run [OF _ _ that, where path = "p_path p" and q = "p_query p" and pre = ?pre3] assms
    by (simp add: parts_ok_def)
  have ne: "?s \<noteq> []" by (simp add: parts_text_def prot_end_def)
  have tk: "take (length (p_scheme p)) ?s = p_scheme p" by (simp add: parts_text_def)
  have len: "length (p_scheme p) + length prot_end = length ?pre" by simp
  show ?thesis
    using ne by (simp add: uri_of_def uri_parse_def parse_manual_def scheme tk len ui au pa uri_default_def
        Let_def del: length_append)
qed


definition sample_parts :: uri_parts where
  "sample_parts = \<lparr>p_scheme = ''HTTP'', p_userinfo = Some (''bob'', Some ''pw''), p_host = ''Host'',
     p_port = Some ''8080'', p_path = ''a'', p_query = Some (''x=1'', Some ''top'')\<rparr>"


text \<open>
  The request target that \<open>full_path\<close> rebuilds is not the one that was parsed: it has no
  leading slash, and the number sign before a fragment is doubled.
\<close>

theorem full_path_of_parsed:
  assumes "parts_ok p"
  shows "full_path (uri_of None (parts_text p) d) =
    p_path p @
    (case p_query p of
       None \<Rightarrow> []
     | Some (q, f) \<Rightarrow> (if q = [] then [] else CHR ''?'' # q) @
         (case f of None \<Rightarrow> [] | Some t \<Rightarrow> ''##'' @ t))"
  using parse_composed_run [OF assms, of d]
  by (simp add: full_path_def parsed_defs split: option.splits)

lemma full_path_of_parsed_witness:
  "full_path (uri_of None (parts_text sample_parts) ''http'') = ''a?x=1##top''"
proof -
  have ok: "parts_ok sample_parts" by (simp add: parts_ok_def sample_parts_def)
  show ?thesis using full_path_of_parsed [OF ok, of "''http''"] by (simp add: sample_parts_def)
qed

text \<open>
  The manual parser validates nothing: with a default scheme, every non-empty string makes
  a valid URI; without one, every string that contains the three characters after a scheme.
\<close>

lemma uri_valid_manual:
  "u_valid (uri_of None s d) \<longleftrightarrow> s \<noteq> [] \<and> (d \<noteq> [] \<or> sublist prot_end s)"
proof -
  have "sublist prot_end s \<longleftrightarrow> find_sub prot_end s \<noteq> None" by (simp add: find_sub_None)
  then show ?thesis
    by (cases "find_sub prot_end s")
      (auto simp: uri_of_def uri_parse_def parse_manual_def Let_def uri_default_def split: prod.splits)
qed

lemma parse_userinfo_at:
  assumes "CHR ''@'' \<notin> set a" "CHR '':'' \<notin> set a"
  shows "parse_userinfo (pre @ a @ CHR ''@'' # b) (length pre) u =
    (Suc (length pre + length a), u\<lparr>u_user := a\<rparr>)"
proof -
  have tw: "takeWhile (\<lambda>c. c \<noteq> CHR ''@'') (a @ CHR ''@'' # b) = a" "takeWhile (\<lambda>c. c \<noteq> CHR '':'') a = a"
    using assms by (auto simp: takeWhile_tail intro!: takeWhile_all)
  show ?thesis
    by (simp add: parse_userinfo_def find_from_append find_range_append sub_range_def Let_def tw)
qed

text \<open>
  The user information is not looked for in the authority only: an at sign in the path
  moves the host. A URI without user information whose path is \<open>a@b\<close> is parsed with \<open>host/a\<close>
  as the user and \<open>b\<close> as the host.
\<close>

theorem uri_at_sign_in_path:
  assumes "CHR '':'' \<notin> set sch" and "CHR '':'' \<notin> set (h @ a)" and "CHR ''@'' \<notin> set (h @ a)"
    and "CHR ''/'' \<notin> set b" and "CHR '':'' \<notin> set b"
  shows "u_user (uri_of None (sch @ prot_end @ h @ CHR ''/'' # a @ CHR ''@'' # b) d) = h @ CHR ''/'' # a \<and>
    u_host (uri_of None (sch @ prot_end @ h @ CHR ''/'' # a @ CHR ''@'' # b) d) = map to_lower b"
proof -
  let ?ha = "h @ CHR ''/'' # a"
  let ?s = "(sch @ prot_end) @ ?ha @ CHR ''@'' # b"
  let ?pre = "sch @ prot_end @ ?ha @ ''@''"
  have scheme: "find_sub prot_end ?s = Some (length sch)"
    using assms(1) find_sub_first [of "CHR '':''" sch "''//''"] by (simp add: prot_end_def)
  have ui: "parse_userinfo ?s (length (sch @ prot_end)) u = (length ?pre, u\<lparr>u_user := ?ha\<rparr>)" for u
    using assms by (subst parse_userinfo_at) auto
  have miss: "find_from (\<lambda>c. c = CHR ''/'') (?pre @ b) (length ?pre) = length (?pre @ b)"
    using assms(4) by (intro find_from_miss) auto
  have tw: "takeWhile (\<lambda>c. c \<noteq> CHR '':'') b = b" using assms(5) by (auto intro!: takeWhile_all)
  have rng: "find_range (\<lambda>c. c = CHR '':'') (?pre @ b) (length ?pre) (length ?pre + length b) = length (?pre @ b)"
    unfolding find_range_append by (simp add: tw)
  have s: "?s = ?pre @ b" "length (?pre @ b) = length ?pre + length b" by simp_all
  have sr: "sub_range (?pre @ b) (length ?pre) (length ?pre + length b) = b"
    by (simp add: sub_range_def)
  have au: "parse_authority ?s (length ?pre) u = (length ?s, u\<lparr>u_host := map to_lower b\<rparr>)" for u
    by (simp only: s parse_authority_def Let_def miss [unfolded s(2)] rng [unfolded s(2)] sr
        simp_thms if_False)
  have pp: "u_user (parse_path s i u) = u_user u" "u_host (parse_path s i u) = u_host u" for s i u
    by (simp_all add: parse_path_def Let_def)
  have len: "length sch + length prot_end = length (sch @ prot_end)" by simp
  have "uri_parse None ?s d u =
      (True, parse_path ?s (length ?s) (u\<lparr>u_scheme := map to_lower sch, u_user := ?ha, u_host := map to_lower b\<rparr>))"
    for u
  proof -
    have "?s \<noteq> []" by simp
    moreover have "take (length sch) ?s = sch" by simp
    moreover note scheme ui au len
    ultimately show ?thesis
      unfolding uri_parse_def parse_manual_def Let_def
      by (simp only: prod.case option.case if_False)
  qed
  then show ?thesis
    by (simp add: uri_of_def pp)
qed

lemma uri_at_sign_in_path_witness:
  "u_user (uri_of None ''http://host/a@b'' []) = ''host/a'' \<and>
   u_host (uri_of None ''http://host/a@b'' []) = ''b''"
  using uri_at_sign_in_path [of "''http''" "''host''" "''a''" "''b''" "[]"]
  by (simp add: prot_end_def to_lower_def is_upper_def code_def)

text \<open>
  In the build with uriparser, user information without a colon sets the password too: it
  becomes the user name.
\<close>

theorem uri_lib_password_is_user:
  assumes "lib (c_str s) = Some r" and "r_userInfo r = Some usr" and "CHR '':'' \<notin> set usr"
    and "usr \<noteq> []" and "sublist prot_end s"
  shows "u_user (uri_of (Some lib) s d) = usr \<and> u_password (uri_of (Some lib) s d) = usr"
proof -
  have "str_find usr '':'' 0 = None"
    using str_find_none [of "CHR '':''" usr "[]" "[]"] assms(3) by simp
  moreover have "s \<noteq> []" using assms(5) by (auto simp: prot_end_def)
  ultimately show ?thesis
    using assms by (simp add: uri_of_def uri_parse_def parse_lib_def find_sub_None fromRange_def Let_def)
qed

definition one_uri :: "string \<Rightarrow> uri_ranges option" where
  "one_uri s = (if s = ''http://bob@h'' then Some \<lparr>r_scheme = Some ''http'', r_userInfo = Some ''bob'',
     r_hostText = Some ''h'', r_portText = None, r_path = [], r_query = None, r_fragment = None\<rparr> else None)"

lemma uri_lib_password_is_user_witness:
  "u_user (uri_of (Some one_uri) ''http://bob@h'' []) = ''bob'' \<and>
   u_password (uri_of (Some one_uri) ''http://bob@h'' []) = ''bob''"
  by (rule uri_lib_password_is_user [where r = "\<lparr>r_scheme = Some ''http'', r_userInfo = Some ''bob'',
        r_hostText = Some ''h'', r_portText = None, r_path = [], r_query = None, r_fragment = None\<rparr>"])
    (simp_all add: one_uri_def c_str_def sublist_code prot_end_def)

end
