(* ===== verification/Std_Map.thy ===== *)
theory Std_Map
  imports Prelude "HOL-Library.Char_ord" "HOL-Library.List_Lexorder"
begin

section \<open>\<open>std::map\<close>: an ordered association list\<close>

text \<open>
  The code keeps HTTP headers, form data, the command line tool's history and the server's
  table of connections in \<open>std::map\<close>s, and iterates over them in key order. The model is the
  association list that the iteration visits, strictly ascending in its keys; the order on
  strings is the lexicographic one on character codes (\<open>char_traits<char>::compare\<close>).
\<close>

type_synonym ('k, 'v) smap = "('k \<times> 'v) list"

definition smap_ok :: "('k::linorder, 'v) smap \<Rightarrow> bool" where
  "smap_ok m \<longleftrightarrow> sorted_wrt (<) (map fst m)"

text \<open>\<open>m[k] = v\<close>: inserts or overwrites.\<close>

fun smap_put :: "'k::linorder \<Rightarrow> 'v \<Rightarrow> ('k, 'v) smap \<Rightarrow> ('k, 'v) smap" where
  "smap_put k v [] = [(k, v)]"
| "smap_put k v ((k', v') # m) =
     (if k = k' then (k, v) # m
      else if k < k' then (k, v) # (k', v') # m
      else (k', v') # smap_put k v m)"

text \<open>\<open>m.find(k)\<close>.\<close>

definition smap_get :: "('k, 'v) smap \<Rightarrow> 'k \<Rightarrow> 'v option" where
  "smap_get m k = map_of m k"

text \<open>\<open>m.insert({k, v})\<close>, \<open>m.emplace(k, v)\<close>: an existing entry stays.\<close>

definition smap_insert :: "'k::linorder \<Rightarrow> 'v \<Rightarrow> ('k, 'v) smap \<Rightarrow> ('k, 'v) smap" where
  "smap_insert k v m = (if smap_get m k = None then smap_put k v m else m)"

text \<open>\<open>m.insert(first, last)\<close>.\<close>

definition smap_insert_range ::
  "('k::linorder \<times> 'v) list \<Rightarrow> ('k, 'v) smap \<Rightarrow> ('k, 'v) smap" where
  "smap_insert_range kvs m = fold (\<lambda>(k, v). smap_insert k v) kvs m"

text \<open>\<open>m.erase(k)\<close>.\<close>

definition smap_erase :: "'k \<Rightarrow> ('k, 'v) smap \<Rightarrow> ('k, 'v) smap" where
  "smap_erase k m = filter (\<lambda>(k', _). k' \<noteq> k) m"

text \<open>\<open>m[k]\<close> used for reading: a missing key is inserted with the value-initialised \<open>d\<close>.\<close>

definition smap_index :: "'v \<Rightarrow> ('k::linorder, 'v) smap \<Rightarrow> 'k \<Rightarrow> 'v \<times> ('k, 'v) smap" where
  "smap_index d m k =
     (case smap_get m k of Some v \<Rightarrow> (v, m) | None \<Rightarrow> (d, smap_put k d m))"

subsection \<open>The interface\<close>

text \<open>
  What the components rely on: lookups after each operation and the invariant that keeps
  iteration in key order.
\<close>

locale ordered_map =
  fixes get :: "'m \<Rightarrow> 'k \<Rightarrow> 'v option"
    and put :: "'k \<Rightarrow> 'v \<Rightarrow> 'm \<Rightarrow> 'm"
    and erase :: "'k \<Rightarrow> 'm \<Rightarrow> 'm"
    and empty_map :: 'm
    and ok :: "'m \<Rightarrow> bool"
  assumes get_empty: "get empty_map k = None"
    and get_put: "get (put k v m) k' = (if k' = k then Some v else get m k')"
    and get_erase: "get (erase k m) k' = (if k' = k then None else get m k')"
    and ok_empty: "ok empty_map"
    and ok_put: "ok m \<Longrightarrow> ok (put k v m)"
    and ok_erase: "ok m \<Longrightarrow> ok (erase k m)"
begin

lemma get_put_same [simp]: "get (put k v m) k = Some v"
  by (simp add: get_put)

lemma get_put_other: "k' \<noteq> k \<Longrightarrow> get (put k v m) k' = get m k'"
  by (simp add: get_put)

lemma dom_put: "dom (get (put k v m)) = insert k (dom (get m))"
  by (auto simp: get_put dom_def)

lemma dom_erase: "dom (get (erase k m)) = dom (get m) - {k}"
  by (auto simp: get_erase dom_def)

text \<open>Storing a list of entries only where the key is free: the first one wins.\<close>

lemma get_fold_insert:
  "get (fold (\<lambda>(k, v) m. if get m k = None then put k v m else m) kvs m) j =
     (case get m j of Some v \<Rightarrow> Some v | None \<Rightarrow> map_of kvs j)"
proof (induction kvs arbitrary: m j)
  case Nil
  then show ?case by (simp split: option.splits)
next
  case (Cons kv kvs)
  obtain k v where kv: "kv = (k, v)" by (cases kv)
  show ?case
    by (cases "j = k") (auto simp: kv Cons.IH get_put split: option.splits)
qed

lemma ok_fold_insert:
  "ok m \<Longrightarrow> ok (fold (\<lambda>(k, v) m. if get m k = None then put k v m else m) kvs m)"
  by (induction kvs arbitrary: m) (auto simp: ok_put)

text \<open>Storing a list of entries, the last one winning.\<close>

lemma get_fold_put:
  "get (fold (\<lambda>(k, v). put k v) kvs m) j =
     (case map_of (rev kvs) j of Some v \<Rightarrow> Some v | None \<Rightarrow> get m j)"
proof (induction kvs arbitrary: m j)
  case Nil
  then show ?case by simp
next
  case (Cons kv kvs)
  obtain k v where kv: "kv = (k, v)" by (cases kv)
  show ?case
    by (cases "j = k") (auto simp: kv Cons.IH get_put map_add_def split: option.splits)
qed

lemma ok_fold_put: "ok m \<Longrightarrow> ok (fold (\<lambda>(k, v). put k v) kvs m)"
  by (induction kvs arbitrary: m) (auto simp: ok_put)

end

subsection \<open>The association list provides it\<close>

lemma set_smap_put: "fst ` set (smap_put k v m) = insert k (fst ` set m)"
  by (induction k v m rule: smap_put.induct) auto

lemma smap_put_ok:
  assumes "smap_ok m" shows "smap_ok (smap_put k v m)"
  using assms
proof (induction k v m rule: smap_put.induct)
  case (1 k v)
  then show ?case by (simp add: smap_ok_def)
next
  case (2 k v k' v' m)
  have keys: "set (map fst (smap_put k v m)) = insert k (set (map fst m))"
    using set_smap_put [of k v m] by simp
  show ?case
    using 2 keys unfolding smap_ok_def by (auto dest: less_trans)
qed

lemma map_of_smap_put: "map_of (smap_put k v m) k' = (if k' = k then Some v else map_of m k')"
  by (induction k v m rule: smap_put.induct) auto

lemma smap_erase_ok: "smap_ok m \<Longrightarrow> smap_ok (smap_erase k m)"
  unfolding smap_ok_def smap_erase_def
  by (induction m) auto

lemma map_of_smap_erase: "map_of (smap_erase k m) k' = (if k' = k then None else map_of m k')"
  by (induction m) (auto simp: smap_erase_def)

interpretation sm: ordered_map smap_get smap_put smap_erase "[]" smap_ok
  by unfold_locales
    (simp_all add: smap_get_def map_of_smap_put map_of_smap_erase smap_put_ok smap_erase_ok,
     simp add: smap_ok_def)

lemma smap_insert_range_eq:
  "smap_insert_range kvs m =
     fold (\<lambda>(k, v) m. if smap_get m k = None then smap_put k v m else m) kvs m"
  unfolding smap_insert_range_def
  by (rule fold_cong) (auto simp: smap_insert_def fun_eq_iff)

lemma smap_get_insert_range:
  "smap_get (smap_insert_range kvs m) j =
     (case smap_get m j of Some v \<Rightarrow> Some v | None \<Rightarrow> map_of kvs j)"
  by (simp add: smap_insert_range_eq sm.get_fold_insert)

lemma smap_insert_range_ok: "smap_ok m \<Longrightarrow> smap_ok (smap_insert_range kvs m)"
  by (simp add: smap_insert_range_eq sm.ok_fold_insert)

lemma smap_distinct: "smap_ok m \<Longrightarrow> distinct (map fst m)"
  by (simp add: smap_ok_def strict_sorted_iff)

lemma smap_get_set: "smap_ok m \<Longrightarrow> smap_get m k = Some v \<longleftrightarrow> (k, v) \<in> set m"
  by (simp add: smap_get_def smap_distinct)

text \<open>Maps with the same entries are iterated in the same order: equality is extensional.\<close>

lemma smap_ext:
  assumes "smap_ok m" "smap_ok n" and "\<And>k. smap_get m k = smap_get n k"
  shows "m = n"
proof (rule map_sorted_distinct_set_unique [of fst])
  have "set m = set n"
    using assms by (metis (no_types) smap_get_set subsetI subset_antisym surj_pair)
  then show "set m = set n" .
  show "inj_on fst (set m \<union> set n)"
    using assms \<open>set m = set n\<close> smap_distinct by (auto simp: distinct_map)
  show "sorted (map fst m)" "distinct (map fst m)" "sorted (map fst n)" "distinct (map fst n)"
    using assms by (auto simp: smap_ok_def strict_sorted_iff)
qed

end
