(* ===== verification/Encoders.thy ===== *)
theory Encoders
  imports Uri_Facts Std_Map
begin

section \<open>Encoders (\<open>encoders.h\<close>, \<open>encoders.cpp\<close>)\<close>

text \<open>
  The three encoders of strings and of maps of strings. The JSON and XML ones only call
  cereal's archives, which are parameters: \<open>archive_out\<close> is the text an output archive has
  written after a list of named values, \<open>archive_in\<close> the named values an input archive yields
  for a text, or the exception it throws.
\<close>

type_synonym str_map = "(string, string) smap"

fun url_pairs :: "str_map \<Rightarrow> string" where
  "url_pairs [] = []"
| "url_pairs ((k, v) # m) = k @ ''='' @ v @ (if m \<noteq> [] then ''&'' else []) @ url_pairs m"

definition url_encode_map :: "str_map \<Rightarrow> string" where
  "url_encode_map from = uri_encode (url_pairs from)"

definition url_encode_str :: "string \<Rightarrow> string" where
  "url_encode_str from = uri_encode from"

definition url_decode_str :: "string \<Rightarrow> string" where
  "url_decode_str from = uri_decode from"

lemma str_find_char:
  assumes "str_find s [c] p = Some a"
  shows "p \<le> a" "a < length s" "s ! a = c"
proof -
  from assms obtain k where k: "find_sub [c] (drop p s) = Some k" and a: "a = p + k" and p: "p \<le> length s"
    by (auto simp: str_find_def split: if_splits)
  from find_sub_Some [OF k] obtain x y where xy: "drop p s = x @ [c] @ y" "length x = k" by auto
  have "length (drop p s) = k + 1 + length y" using xy by simp
  then show "p \<le> a" "a < length s" using a p by auto
  have "drop p s ! k = c" using xy by (simp add: nth_append)
  then show "s ! a = c" using a p \<open>length (drop p s) = k + 1 + length y\<close> by simp
qed

lemma next_pair:
  assumes "str_find s ''&'' p = Some a"
  shows "(case str_find s ''='' a of None \<Rightarrow> 0 | Some p' \<Rightarrow> length s - p') < length s - p"
proof -
  have a: "p \<le> a" "a < length s" "s ! a = CHR ''&''" using str_find_char [OF assms] by auto
  show ?thesis
  proof (cases "str_find s ''='' a")
    case (Some p')
    from str_find_char [OF Some] a have "a \<noteq> p'" by auto
    with str_find_char(1,2) [OF Some] a Some show ?thesis by simp
  qed (use a in simp)
qed

text \<open>The loop of \<open>decode\<close>: \<open>pos\<close> and \<open>last_pos\<close> may be \<open>npos\<close>; a search from \<open>npos\<close>
  finds nothing, which ends the loop.\<close>

function url_decode_loop :: "string \<Rightarrow> nat option \<Rightarrow> nat \<Rightarrow> str_map \<Rightarrow> exn + str_map" where
  "url_decode_loop s pos last_pos to =
     (case pos of
        None \<Rightarrow> Inr to
      | Some p \<Rightarrow>
          (case substr s last_pos (Some p) of
             Inl e \<Rightarrow> Inl e
           | Inr key \<Rightarrow>
               (case substr s (p + 1) (str_find s ''&'' p) of
                  Inl e \<Rightarrow> Inl e
                | Inr value \<Rightarrow>
                    (case str_find s ''&'' p of
                       None \<Rightarrow> Inr (smap_put key value to)
                     | Some a \<Rightarrow>
                         url_decode_loop s (str_find s ''='' a) a (smap_put key value to)))))"
  by pat_completeness auto
termination
  by (relation "measure (\<lambda>(s, pos, last_pos, to). case pos of None \<Rightarrow> 0 | Some p \<Rightarrow> length s - p)")
    (auto intro: next_pair)

declare url_decode_loop.simps [simp del]

definition url_decode_map :: "string \<Rightarrow> str_map \<Rightarrow> exn + str_map" where
  "url_decode_map from to = url_decode_loop from (str_find from ''='' 0) 0 to"

text \<open>JSON and XML: a string is taken as it is; \<open>buf.str()\<close> is read while the archive still
  lives.\<close>

definition json_encode_map :: "((string \<times> string) list \<Rightarrow> string) \<Rightarrow> str_map \<Rightarrow> string" where
  "json_encode_map archive_out from = archive_out from"

definition json_encode_str :: "string \<Rightarrow> string" where
  "json_encode_str from = from"

definition json_decode_map ::
  "(string \<Rightarrow> exn + (string \<times> string) list) \<Rightarrow> string \<Rightarrow> str_map \<Rightarrow> exn + str_map" where
  "json_decode_map archive_in from to =
     (case archive_in from of Inl e \<Rightarrow> Inl e | Inr kvs \<Rightarrow> Inr (smap_insert_range kvs to))"

definition json_decode_str :: "string \<Rightarrow> string" where
  "json_decode_str from = from"

definition xml_encode_map :: "((string \<times> string) list \<Rightarrow> string) \<Rightarrow> str_map \<Rightarrow> string" where
  "xml_encode_map archive_out from = archive_out from"

definition xml_encode_str :: "string \<Rightarrow> string" where
  "xml_encode_str from = from"

definition xml_decode_map ::
  "(string \<Rightarrow> exn + (string \<times> string) list) \<Rightarrow> string \<Rightarrow> str_map \<Rightarrow> exn + str_map" where
  "xml_decode_map archive_in from to =
     (case archive_in from of Inl e \<Rightarrow> Inl e | Inr kvs \<Rightarrow> Inr (smap_insert_range kvs to))"

definition xml_decode_str :: "string \<Rightarrow> string" where
  "xml_decode_str from = from"

subsection \<open>The base class\<close>

text \<open>
  The four virtual functions of \<open>encoder\<close>, each with the value its output parameter has before,
  and the tables of the three derived classes.
\<close>

record coder =
  encode_map :: "str_map \<Rightarrow> string \<Rightarrow> string"
  encode_str :: "string \<Rightarrow> string \<Rightarrow> string"
  decode_map :: "string \<Rightarrow> str_map \<Rightarrow> exn + str_map"
  decode_str :: "string \<Rightarrow> string \<Rightarrow> string"

definition url_coder :: coder where
  "url_coder = \<lparr>encode_map = \<lambda>m _. url_encode_map m, encode_str = \<lambda>s _. url_encode_str s,
     decode_map = url_decode_map, decode_str = \<lambda>s _. url_decode_str s\<rparr>"

definition json_coder ::
  "((string \<times> string) list \<Rightarrow> string) \<Rightarrow> (string \<Rightarrow> exn + (string \<times> string) list) \<Rightarrow> coder" where
  "json_coder archive_out archive_in =
     \<lparr>encode_map = \<lambda>m _. json_encode_map archive_out m, encode_str = \<lambda>s _. json_encode_str s,
      decode_map = json_decode_map archive_in, decode_str = \<lambda>s _. json_decode_str s\<rparr>"

definition xml_coder ::
  "((string \<times> string) list \<Rightarrow> string) \<Rightarrow> (string \<Rightarrow> exn + (string \<times> string) list) \<Rightarrow> coder" where
  "xml_coder archive_out archive_in =
     \<lparr>encode_map = \<lambda>m _. xml_encode_map archive_out m, encode_str = \<lambda>s _. xml_encode_str s,
      decode_map = xml_decode_map archive_in, decode_str = \<lambda>s _. xml_decode_str s\<rparr>"

text \<open>
  The two templates. \<open>decode\<close> declares its output with the encoded type, a string, and returns it
  as the decoded one, so it can only be instantiated for strings.
\<close>

definition encoder_encode :: "('i \<Rightarrow> string \<Rightarrow> string) \<Rightarrow> 'i \<Rightarrow> string" where
  "encoder_encode encode value = encode value []"

definition encoder_decode :: "coder \<Rightarrow> string \<Rightarrow> string" where
  "encoder_decode c value = decode_str c value []"

text \<open>
  What a client of the base class relies on: a string survives, an ordered map stays one, and the
  output of an encoding does not depend on what was in it.
\<close>

locale coding =
  fixes c :: coder
  assumes string_back: "decode_str c (encode_str c s t) t' = s"
    and map_ordered: "smap_ok to \<Longrightarrow> decode_map c s to = Inr m \<Longrightarrow> smap_ok m"
    and map_overwrites: "encode_map c m t = encode_map c m t'"
begin

lemma decode_encode: "encoder_decode c (encoder_encode (encode_str c) s) = s"
  by (simp add: encoder_decode_def encoder_encode_def string_back)

lemma encode_reused: "encode_map c m t = encoder_encode (encode_map c) m"
  unfolding encoder_encode_def by (rule map_overwrites)

end

subsection \<open>What the encoders guarantee\<close>

text \<open>
  Decoding a form never throws, and keeps the map ordered, whatever the text.
\<close>

theorem url_decode_map_total:
  assumes "smap_ok to"
  shows "\<exists>m. url_decode_map s to = Inr m \<and> smap_ok m"
proof -
  have "\<exists>m. url_decode_loop s pos last to = Inr m \<and> smap_ok m"
    if "smap_ok to" "last \<le> length s" "\<forall>p. pos = Some p \<longrightarrow> p < length s" for pos last to
    using that
  proof (induction s pos last to rule: url_decode_loop.induct)
    case (1 s pos last to)
    show ?case
    proof (cases pos)
      case None
      with 1 show ?thesis by (simp add: url_decode_loop.simps)
    next
      case (Some p)
      with "1.prems" have p: "p + 1 \<le> length s" by simp
      note k = substr_ok [OF "1.prems"(2), of "Some p"] and v = substr_ok [OF p, of "str_find s ''&'' p"]
      show ?thesis
      proof (cases "str_find s ''&'' p")
        case None
        with Some "1.prems" k v show ?thesis
          by (subst url_decode_loop.simps) (simp add: smap_put_ok)
      next
        case amp: (Some a)
        have "a \<le> length s" using str_find_char(2) [OF amp] by simp
        moreover have "\<forall>p'. str_find s ''='' a = Some p' \<longrightarrow> p' < length s"
          by (auto dest: str_find_char(2))
        ultimately show ?thesis
          using "1.IH" [OF Some k v amp] "1.prems"(1) Some k v amp
          by (subst url_decode_loop.simps) (simp add: smap_put_ok)
      qed
    qed
  qed
  from this [of to 0 "str_find s ''='' 0"] assms show ?thesis
    by (auto simp: url_decode_map_def dest: str_find_char(2))
qed

lemma url_decode_map_total_witness: "\<exists>m. url_decode_map ''a=b&c'' [] = Inr m \<and> smap_ok m"
  by (rule url_decode_map_total) (rule sm.ok_empty)

lemma url_decode_ordered: "smap_ok to \<Longrightarrow> url_decode_map s to = Inr m \<Longrightarrow> smap_ok m"
  using url_decode_map_total [of to s] by auto

interpretation url: coding url_coder
  by unfold_locales
    (auto simp: url_coder_def url_decode_str_def url_encode_str_def uri_decode_encoded
      dest: url_decode_ordered)

interpretation json: coding "json_coder archive_out archive_in" for archive_out archive_in
  by unfold_locales
    (auto simp: json_coder_def json_decode_str_def json_encode_str_def json_decode_map_def smap_insert_range_ok
      json_encode_map_def split: sum.splits)

interpretation xml: coding "xml_coder archive_out archive_in" for archive_out archive_in
  by unfold_locales
    (auto simp: xml_coder_def xml_decode_str_def xml_encode_str_def xml_decode_map_def smap_insert_range_ok
      xml_encode_map_def split: sum.splits)

text \<open>
  Whatever cereal writes and reads, a string that goes through any of the three encoders by the
  templates of the base class comes back as it was.
\<close>

theorem encoder_string_roundtrip:
  assumes "c \<in> {url_coder, json_coder archive_out archive_in, xml_coder archive_out archive_in}"
  shows "encoder_decode c (encoder_encode (encode_str c) s) = s"
  using assms url.decode_encode json.decode_encode xml.decode_encode by blast

text \<open>
  the form encoding of a map is not a form: the separators are percent-encoded with the
  rest, so decoding what was encoded gives the empty map, for every map.
\<close>

theorem url_map_encoding_lost: "url_decode_map (url_encode_map m) [] = Inr []"
proof -
  have "CHR ''='' \<notin> set (uri_encode s)" for s
    using uri_encode_chars [of "CHR ''=''" s]
    by (auto simp: is_unreserved_def is_alnum_def is_digit_def is_upper_def is_lower_def code_def)
  then have "str_find (url_encode_map m) ''='' 0 = None"
    using str_find_none [of "CHR ''=''" "url_encode_map m" "[]" "[]"] by (simp add: url_encode_map_def)
  then show ?thesis by (simp add: url_decode_map_def url_decode_loop.simps)
qed

text \<open>One pair is decoded as it was written.\<close>

lemma url_decode_one:
  assumes "CHR ''='' \<notin> set k" and "CHR ''&'' \<notin> set v"
  shows "url_decode_map (k @ ''='' @ v) to = Inr (smap_put k v to)"
proof -
  have 1: "str_find (k @ ''='' @ v) ''='' 0 = Some (length k)"
    using str_find_first0 [OF assms(1), of "[]" v] by simp
  have 2: "str_find (k @ ''='' @ v) ''&'' (length k) = None"
    using str_find_none [of "CHR ''&''" "''='' @ v" k "[]"] assms(2) by simp
  show ?thesis
    unfolding url_decode_map_def 1 url_decode_loop.simps [of _ "Some _"] option.case 2
    by (simp add: substr_def)
qed

text \<open>
  with a second pair the decoder breaks: both \<open>substr\<close> calls are given an end position
  where they take a length, so the first value swallows the start of what follows and the
  second key starts with an ampersand.
\<close>

theorem url_decode_two_pairs:
  assumes "CHR ''='' \<notin> set k1" and "CHR ''&'' \<notin> set k1" and "CHR ''&'' \<notin> set v1"
    and "CHR ''='' \<notin> set k2" and "CHR ''&'' \<notin> set v2" and "CHR ''&'' \<notin> set k2"
  shows "url_decode_map (k1 @ ''='' @ v1 @ ''&'' @ k2 @ ''='' @ v2) [] =
    Inr (smap_put (''&'' @ k2 @ ''='' @ take (length k1 + length v1) v2) v2
          (smap_put k1 (v1 @ take (Suc (length k1)) (''&'' @ k2 @ ''='' @ v2)) []))"
proof -
  let ?s = "k1 @ ''='' @ v1 @ ''&'' @ k2 @ ''='' @ v2"
  let ?a = "length k1 + 1 + length v1"
  let ?p = "?a + 1 + length k2"
  have 1: "str_find ?s ''='' 0 = Some (length k1)"
    using str_find_first0 [OF assms(1), of "[]" "v1 @ ''&'' @ k2 @ ''='' @ v2"] by simp
  have 2: "str_find ?s ''&'' (length k1) = Some ?a"
    using str_find_first [of "CHR ''&''" "''='' @ v1" k1 "[]" "k2 @ ''='' @ v2"] assms(3) by simp
  have 3: "str_find ?s ''='' ?a = Some ?p"
    using str_find_first [of "CHR ''=''" "''&'' @ k2" "k1 @ ''='' @ v1" "[]" v2] assms(4) by simp
  have 4: "str_find ?s ''&'' ?p = None"
    using str_find_none [of "CHR ''&''" "''='' @ v2" "k1 @ ''='' @ v1 @ ''&'' @ k2" "[]"] assms(5)
    by (simp add: add.assoc)
  have k1: "substr ?s 0 (Some (length k1)) = Inr k1" by (simp add: substr_def)
  have v1: "substr ?s (length k1 + 1) (Some ?a) = Inr (v1 @ take (Suc (length k1)) (''&'' @ k2 @ ''='' @ v2))"
    by (simp add: substr_def)
  have k2: "substr ?s ?a (Some ?p) = Inr (''&'' @ k2 @ ''='' @ take (length k1 + length v1) v2)"
    by (simp add: substr_def)
  have v2: "substr ?s (?p + 1) None = Inr v2" by (simp add: substr_def numeral_3_eq_3)
  show ?thesis
    unfolding url_decode_map_def 1
    apply (subst url_decode_loop.simps)
    unfolding 2 option.case k1 sum.case v1 3
    apply (subst url_decode_loop.simps)
    unfolding 4 option.case k2 sum.case v2
    by (rule refl)
qed

lemma url_decode_two_pairs_witness:
  "url_decode_map ''a=1&b=2'' [] = Inr (smap_put ''&b=2'' ''2'' (smap_put ''a'' ''1&b'' []))"
  using url_decode_two_pairs [of "''a''" "''1''" "''b''" "''2''"] by simp

end
