(* ===== verification/Posix.thy ===== *)
theory Posix
  imports Prelude "HOL-Library.Multiset"
begin

section \<open>The platform: system calls, OpenSSL, and the trace of calls\<close>

text \<open>
  The operating system and OpenSSL are not part of the repository, so their behaviour is a
  parameter of the model: a record \<open>platform\<close> of functions that answer each call. Every
  answer may depend on all the calls made before, the \<^emph>\<open>trace\<close>, so any behaviour
  of a kernel and of peers is an instance. The program only ever sees the answers and
  \<open>errno\<close>; the theorems quantify over the platform.
\<close>

type_synonym socket_fd = int

definition INVALID :: socket_fd where
  "INVALID = -1"

text \<open>Constants of the Linux headers.\<close>

definition AF_INET :: int where "AF_INET = 2"
definition AF_INET6 :: int where "AF_INET6 = 10"
definition EINTR :: int where "EINTR = 4"
definition EAGAIN :: int where "EAGAIN = 11"
definition EWOULDBLOCK :: int where "EWOULDBLOCK = 11"
definition O_NONBLOCK :: int where "O_NONBLOCK = 2048"

lemmas posix_consts = INVALID_def AF_INET_def AF_INET6_def EINTR_def EAGAIN_def
  EWOULDBLOCK_def O_NONBLOCK_def

text \<open>
  A \<open>sockaddr_storage\<close>: the family, the port in network byte order (its two bytes as they
  lie in memory) and the address bytes. \<open>addrinfo\<close> is an entry of \<open>getaddrinfo\<close>'s list.
\<close>

record sockaddr =
  ss_family :: int
  sin_port :: "byte \<times> byte"
  sin_addr :: "byte list"

record addrinfo =
  ai_family :: int
  ai_socktype :: int
  ai_protocol :: int
  ai_addr :: sockaddr

definition zero_addr :: sockaddr where
  "zero_addr = \<lparr>ss_family = 0, sin_port = (0, 0), sin_addr = []\<rparr>"

definition ntohs :: "byte \<times> byte \<Rightarrow> int" where
  "ntohs p = 256 * uint (fst p) + uint (snd p)"

text \<open>
  The calls, each with its arguments and, last, its result. Library objects behind pointers
  (\<open>SSL\<close>, \<open>SSL_CTX\<close>) are numbered.
\<close>

datatype sysev =
    Sys_getaddrinfo "string option" string int
  | Sys_freeaddrinfo
  | Sys_socket int int int socket_fd
  | Sys_connect socket_fd sockaddr int
  | Sys_setsockopt socket_fd int
  | Sys_bind socket_fd sockaddr int
  | Sys_listen socket_fd int int
  | Sys_accept socket_fd socket_fd
  | Sys_send socket_fd "byte list" int int
  | Sys_recv socket_fd nat int int
  | Sys_shutdown socket_fd
  | Sys_close socket_fd
  | Sys_fcntl_get socket_fd int
  | Sys_fcntl_set socket_fd int
  | Sys_select int "socket_fd set" "socket_fd set" "(int \<times> int) option" int
  | Sys_epoll_create socket_fd
  | Sys_epoll_add socket_fd socket_fd int
  | Sys_epoll_wait socket_fd int int
  | Sys_gettimeofday
  | Ssl_library_init
  | Ssl_ctx_new "nat option"
  | Ssl_new nat "nat option"
  | Ssl_set_fd nat socket_fd bool
  | Ssl_connect nat int
  | Ssl_write nat "byte list" int int
  | Ssl_read nat nat int
  | Ssl_shutdown nat
  | Ssl_free nat
  | Ssl_ctx_free nat

type_synonym history = "sysev list"

record platform =
  os_getaddrinfo :: "history \<Rightarrow> string option \<Rightarrow> string \<Rightarrow> int \<times> addrinfo list"
  os_socket :: "history \<Rightarrow> addrinfo \<Rightarrow> socket_fd"
  os_connect :: "history \<Rightarrow> socket_fd \<Rightarrow> sockaddr \<Rightarrow> int"
  os_setsockopt :: "history \<Rightarrow> socket_fd \<Rightarrow> int"
  os_bind :: "history \<Rightarrow> socket_fd \<Rightarrow> sockaddr \<Rightarrow> int"
  os_listen :: "history \<Rightarrow> socket_fd \<Rightarrow> int \<Rightarrow> int"
  os_accept :: "history \<Rightarrow> socket_fd \<Rightarrow> socket_fd \<times> sockaddr"
  os_send :: "history \<Rightarrow> socket_fd \<Rightarrow> byte list \<Rightarrow> int \<Rightarrow> int"
  os_recv :: "history \<Rightarrow> socket_fd \<Rightarrow> nat \<Rightarrow> int \<Rightarrow> int \<times> byte list"
  os_fcntl_get :: "history \<Rightarrow> socket_fd \<Rightarrow> int"
  os_select :: "history \<Rightarrow> socket_fd set \<Rightarrow> socket_fd set \<Rightarrow> (int \<times> int) option \<Rightarrow> int \<times> socket_fd set \<times> socket_fd set"
  os_epoll_create :: "history \<Rightarrow> socket_fd"
  os_epoll_add :: "history \<Rightarrow> socket_fd \<Rightarrow> socket_fd \<Rightarrow> int"
  os_epoll_wait :: "history \<Rightarrow> socket_fd \<Rightarrow> int \<Rightarrow> int \<times> (socket_fd \<times> nat) list"
  os_time :: "history \<Rightarrow> int \<times> int"
  os_errno :: "history \<Rightarrow> sysev \<Rightarrow> int"
  os_strerror :: "int \<Rightarrow> string"
  os_gai_strerror :: "int \<Rightarrow> string"
  os_ntop :: "int \<Rightarrow> byte list \<Rightarrow> string"
  ssl_ctx_new :: "history \<Rightarrow> nat option"
  ssl_new :: "history \<Rightarrow> nat \<Rightarrow> nat option"
  ssl_set_fd :: "history \<Rightarrow> nat \<Rightarrow> socket_fd \<Rightarrow> bool"
  ssl_connect :: "history \<Rightarrow> nat \<Rightarrow> int"
  ssl_write :: "history \<Rightarrow> nat \<Rightarrow> byte list \<Rightarrow> int \<Rightarrow> int"
  ssl_read :: "history \<Rightarrow> nat \<Rightarrow> nat \<Rightarrow> int \<times> byte list"
  ssl_error :: "history \<Rightarrow> string"
  openssl_found :: bool

text \<open>
  The part of the process outside the objects: \<open>errno\<close>, the calls made so far in order, and
  the function-local \<open>static bool initialized\<close> of \<open>openssl_layer::init\<close>. The record is
  extensible: the servers add their own state to it.
\<close>

record world =
  errno :: int
  trace :: history
  ssl_initialized :: bool

text \<open>A program over an object and the world; what it does to each of them.\<close>

definition obj :: "('o \<Rightarrow> 'a) \<Rightarrow> ('o \<times> 'w, 'a) prog" where
  "obj f = pget (\<lambda>(ob, w). f ob)"

definition upd :: "('o \<Rightarrow> 'o) \<Rightarrow> ('o \<times> 'w, unit) prog" where
  "upd f = pmod (\<lambda>(ob, w). (f ob, w))"

definition wget :: "('w \<Rightarrow> 'a) \<Rightarrow> ('o \<times> 'w, 'a) prog" where
  "wget f = pget (\<lambda>(ob, w). f w)"

definition wupd :: "('w \<Rightarrow> 'w) \<Rightarrow> ('o \<times> 'w, unit) prog" where
  "wupd f = pmod (\<lambda>(ob, w). (ob, f w))"

text \<open>Recording a call: it joins the trace and may set \<open>errno\<close>.\<close>

definition record_call :: "platform \<Rightarrow> sysev \<Rightarrow> 'w world_scheme \<Rightarrow> 'w world_scheme" where
  "record_call pf ev w = w\<lparr>errno := os_errno pf (trace w) ev, trace := trace w @ [ev]\<rparr>"

definition call :: "platform \<Rightarrow> sysev \<Rightarrow> ('o \<times> 'w world_scheme, unit) prog" where
  "call pf ev = wupd (record_call pf ev)"

text \<open>A call with an answer: the answer is computed from the history, the call is recorded.\<close>

definition ask ::
  "platform \<Rightarrow> (history \<Rightarrow> 'a) \<Rightarrow> ('a \<Rightarrow> sysev) \<Rightarrow> ('o \<times> 'w world_scheme, 'a) prog" where
  "ask pf answer ev =
     pbind (wget (\<lambda>w. answer (trace w))) (\<lambda>r. pthen (call pf (ev r)) (pret r))"

lemma obj_apply [prog_simps]: "obj f (ob, w) = (Inr (f ob), (ob, w))"
  by (simp add: obj_def pget_def)

lemma upd_apply [prog_simps]: "upd f (ob, w) = (Inr (), (f ob, w))"
  by (simp add: upd_def pmod_def)

lemma wget_apply [prog_simps]: "wget f (ob, w) = (Inr (f w), (ob, w))"
  by (simp add: wget_def pget_def)

lemma wupd_apply [prog_simps]: "wupd f (ob, w) = (Inr (), (ob, f w))"
  by (simp add: wupd_def pmod_def)

lemma call_apply [prog_simps]: "call pf ev (ob, w) = (Inr (), (ob, record_call pf ev w))"
  by (simp add: call_def wupd_apply)

lemma ask_apply [prog_simps]:
  "ask pf answer ev (ob, w) =
     (Inr (answer (trace w)), (ob, record_call pf (ev (answer (trace w))) w))"
  by (simp add: ask_def prog_simps)

lemma record_call_simps [simp]:
  "trace (record_call pf ev w) = trace w @ [ev]"
  "errno (record_call pf ev w) = os_errno pf (trace w) ev"
  "ssl_initialized (record_call pf ev w) = ssl_initialized w"
  by (simp_all add: record_call_def)

lemma keeps_obj [hoare_rules]: "keeps P (obj f)"
  by (simp add: obj_def keeps_pget)

lemma keeps_wget [hoare_rules]: "keeps P (wget f)"
  by (simp add: wget_def keeps_pget)

lemma keeps_upd: "(\<And>ob w. P (ob, w) \<Longrightarrow> P (f ob, w)) \<Longrightarrow> keeps P (upd f)"
  by (auto simp: upd_def intro: keeps_pmod)

lemma keeps_wupd: "(\<And>ob w. P (ob, w) \<Longrightarrow> P (ob, f w)) \<Longrightarrow> keeps P (wupd f)"
  by (auto simp: wupd_def intro: keeps_pmod)

lemma keeps_call: "(\<And>ob w. P (ob, w) \<Longrightarrow> P (ob, record_call pf ev w)) \<Longrightarrow> keeps P (call pf ev)"
  by (auto simp: call_def intro: keeps_wupd)

lemma keeps_ask:
  "(\<And>ob w r. P (ob, w) \<Longrightarrow> P (ob, record_call pf (ev r) w)) \<Longrightarrow> keeps P (ask pf answer ev)"
  by (auto simp: ask_def intro!: hoare_rules keeps_call)

subsection \<open>Descriptors held by the process\<close>

text \<open>
  The descriptors that the calls of a trace have opened and not closed, counted with
  multiplicity.
\<close>

fun fd_effect :: "sysev \<Rightarrow> socket_fd multiset \<Rightarrow> socket_fd multiset" where
  "fd_effect (Sys_socket _ _ _ r) M = (if r = INVALID then M else add_mset r M)"
| "fd_effect (Sys_accept _ r) M = (if r = INVALID then M else add_mset r M)"
| "fd_effect (Sys_epoll_create r) M = (if r = INVALID then M else add_mset r M)"
| "fd_effect (Sys_close fd) M = M - {#fd#}"
| "fd_effect _ M = M"

definition open_fds :: "history \<Rightarrow> socket_fd multiset" where
  "open_fds tr = fold fd_effect tr {#}"

lemma open_fds_Nil [simp]: "open_fds [] = {#}"
  by (simp add: open_fds_def)

lemma open_fds_append [simp]: "open_fds (tr @ evs) = fold fd_effect evs (open_fds tr)"
  by (simp add: open_fds_def)

text \<open>The bytes the kernel accepted on a descriptor, in order: the byte stream of the peer.\<close>

fun sent_by :: "socket_fd \<Rightarrow> sysev \<Rightarrow> byte list" where
  "sent_by fd (Sys_send fd' bs _ r) = (if fd' = fd then take (nat r) bs else [])"
| "sent_by fd _ = []"

definition wire :: "socket_fd \<Rightarrow> history \<Rightarrow> byte list" where
  "wire fd tr = concat (map (sent_by fd) tr)"

lemma wire_Nil [simp]: "wire fd [] = []"
  by (simp add: wire_def)

lemma wire_append [simp]: "wire fd (tr @ evs) = wire fd tr @ wire fd evs"
  by (simp add: wire_def)

lemma wire_Cons [simp]: "wire fd (ev # evs) = sent_by fd ev @ wire fd evs"
  by (simp add: wire_def)

subsection \<open>A platform to compute with\<close>

text \<open>
  A kernel and an OpenSSL that grant every request, used to evaluate the model on concrete
  inputs: one address per host, descriptor 7, sends accepted whole, nothing to read.
\<close>

definition local_addr :: sockaddr where
  "local_addr = \<lparr>ss_family = AF_INET, sin_port = (0, 80), sin_addr = [127, 0, 0, 1]\<rparr>"

definition local_info :: addrinfo where
  "local_info = \<lparr>ai_family = AF_INET, ai_socktype = 1, ai_protocol = 6, ai_addr = local_addr\<rparr>"

definition granting :: platform where
  "granting = \<lparr>
     os_getaddrinfo = (\<lambda>_ _ _. (0, [local_info])),
     os_socket = (\<lambda>_ _. 7),
     os_connect = (\<lambda>_ _ _. 0),
     os_setsockopt = (\<lambda>_ _. 0),
     os_bind = (\<lambda>_ _ _. 0),
     os_listen = (\<lambda>_ _ _. 0),
     os_accept = (\<lambda>_ _. (9, local_addr)),
     os_send = (\<lambda>_ _ bs _. int (length bs)),
     os_recv = (\<lambda>_ _ _ _. (0, [])),
     os_fcntl_get = (\<lambda>_ _. 2),
     os_select = (\<lambda>_ _ _ _. (0, {}, {})),
     os_epoll_create = (\<lambda>_. 3),
     os_epoll_add = (\<lambda>_ _ _. 0),
     os_epoll_wait = (\<lambda>_ _ _. (0, [])),
     os_time = (\<lambda>_. (0, 0)),
     os_errno = (\<lambda>_ _. 0),
     os_strerror = (\<lambda>_. ''error''),
     os_gai_strerror = (\<lambda>_. ''gai error''),
     os_ntop = (\<lambda>_ _. ''127.0.0.1''),
     ssl_ctx_new = (\<lambda>_. Some 1),
     ssl_new = (\<lambda>_ _. Some 2),
     ssl_set_fd = (\<lambda>_ _ _. True),
     ssl_connect = (\<lambda>_ _. 1),
     ssl_write = (\<lambda>_ _ bs _. int (length bs)),
     ssl_read = (\<lambda>_ _ _. (0, [])),
     ssl_error = (\<lambda>_. ''ssl error''),
     openssl_found = True\<rparr>"

definition world0 :: world where
  "world0 = \<lparr>errno = 0, trace = [], ssl_initialized = False\<rparr>"

end
