(* ===== verification/Http.thy ===== *)
theory Http
  imports Encoders Posix
begin

section \<open>HTTP messages and the client (\<open>http/protocol.h\<close>, \<open>http/client.h\<close>, \<open>http/client.cpp\<close>)\<close>

text \<open>
  \<open>transfer\<close> is the common base of requests and responses, \<open>response\<close> parses what came back,
  \<open>client\<close> holds a request and hands it to an implementation, a function of the client, the
  method and the path.
\<close>

definition OK :: int where "OK = 200"
definition MAX_URL_LEN :: nat where "MAX_URL_LEN = 2000"
definition DEFAULT_PORT :: int where "DEFAULT_PORT = 80"
definition DEFAULT_SECURE_PORT :: int where "DEFAULT_SECURE_PORT = 443"
definition DEFAULT_HTTP_TIMEOUT :: int where "DEFAULT_HTTP_TIMEOUT = 20"
definition PROTOCOL :: string where "PROTOCOL = ''http''"
definition SECURE_PROTOCOL :: string where "SECURE_PROTOCOL = ''https''"
definition VERSION_1_1 :: string where "VERSION_1_1 = ''1.1''"
definition HEADER_CONTENT_SIZE :: string where "HEADER_CONTENT_SIZE = ''Content-Size''"
definition HEADER_HOST :: string where "HEADER_HOST = ''Host''"
definition HEADER_USER_AGENT :: string where "HEADER_USER_AGENT = ''User-Agent''"
definition HEADER_CONNECTION :: string where "HEADER_CONNECTION = ''Connection''"
definition HEADER_ACCEPT :: string where "HEADER_ACCEPT = ''Accept''"
definition HEADER_TRANSFER_ENCODING :: string where "HEADER_TRANSFER_ENCODING = ''Transfer-Encoding''"
definition THIS_USER_AGENT :: string where "THIS_USER_AGENT = ''libcoda_net''"

lemmas header_names = HEADER_CONTENT_SIZE_def HEADER_HOST_def HEADER_USER_AGENT_def
  HEADER_CONNECTION_def HEADER_ACCEPT_def HEADER_TRANSFER_ENCODING_def

datatype http_method = OPTIONS | HEAD | GET | POST | PUT | DELETE | CONNECT | TRACE

fun method_name :: "http_method \<Rightarrow> string" where
  "method_name OPTIONS = ''OPTIONS''"
| "method_name HEAD = ''HEAD''"
| "method_name GET = ''GET''"
| "method_name POST = ''POST''"
| "method_name PUT = ''PUT''"
| "method_name DELETE = ''DELETE''"
| "method_name CONNECT = ''CONNECT''"
| "method_name TRACE = ''TRACE''"

subsection \<open>\<open>transfer\<close>\<close>

record transfer =
  content :: string
  headers :: str_map
  version :: string

definition transfer_default :: transfer where
  "transfer_default = \<lparr>content = [], headers = [], version = VERSION_1_1\<rparr>"

definition transfer_assign :: "'a transfer_scheme \<Rightarrow> 'b transfer_scheme \<Rightarrow> 'b transfer_scheme" where
  "transfer_assign other this =
     this\<lparr>content := content other, headers := headers other, version := version other\<rparr>"

text \<open>The copy and the move constructor; of a move only the new object is described.\<close>

definition transfer_copy :: "'a transfer_scheme \<Rightarrow> transfer" where
  "transfer_copy other = \<lparr>content = content other, headers = headers other, version = version other\<rparr>"

definition transfer_move :: "'a transfer_scheme \<Rightarrow> transfer" where
  "transfer_move other = \<lparr>content = content other, headers = headers other, version = version other\<rparr>"

text \<open>\<open>header\<close> reads with \<open>operator[]\<close>, so asking for a missing header inserts an empty one.\<close>

definition transfer_header :: "string \<Rightarrow> 'a transfer_scheme \<Rightarrow> string \<times> 'a transfer_scheme" where
  "transfer_header key t =
     (case smap_index [] (headers t) key of (v, hs) \<Rightarrow> (v, t\<lparr>headers := hs\<rparr>))"

definition has_header :: "string \<Rightarrow> 'a transfer_scheme \<Rightarrow> bool" where
  "has_header key t \<longleftrightarrow> smap_get (headers t) key \<noteq> None"

definition set_version :: "string \<Rightarrow> 'a transfer_scheme \<Rightarrow> 'a transfer_scheme" where
  "set_version value t = t\<lparr>version := value\<rparr>"

subsection \<open>\<open>sscanf\<close> with the format of a status line\<close>

definition is_space :: "char \<Rightarrow> bool" where
  "is_space c \<longleftrightarrow> code c = 32 \<or> 9 \<le> code c \<and> code c \<le> 13"

text \<open>\<open>%s\<close>: the next word.\<close>

definition scan_word :: "string \<Rightarrow> (string \<times> string) option" where
  "scan_word s =
     (let t = dropWhile is_space s; word = takeWhile (\<lambda>c. \<not> is_space c) t in
      if word = [] then None else Some (word, drop (length word) t))"

text \<open>\<open>%d\<close>: an optional sign and digits, read as a \<open>long\<close> and stored in an \<open>int\<close>.\<close>

definition scan_sign :: "string \<Rightarrow> bool \<times> string" where
  "scan_sign s =
     (case s of c # r \<Rightarrow> if c = CHR ''-'' then (True, r) else if c = CHR ''+'' then (False, r) else (False, s)
      | [] \<Rightarrow> (False, s))"

definition clamp :: "int \<Rightarrow> int" where
  "clamp i = max (- (2 ^ 63)) (min (2 ^ 63 - 1) i)"

definition scan_int :: "string \<Rightarrow> (int \<times> string) option" where
  "scan_int s =
     (case scan_sign (dropWhile is_space s) of (neg, t) \<Rightarrow>
        let ds = takeWhile is_digit t in
        if ds = [] then None
        else Some (to_int (clamp (if neg then - int (num_of ds) else int (num_of ds))), drop (length ds) t))"

text \<open>
  \<open>sscanf(line, "HTTP/%s %d %s", version, &code, buf)\<close>: the version and code it has stored, and
  whether all three conversions matched. Both arrays hold \<open>MAX_URL_LEN + 1\<close> characters; a
  longer word overruns them.
\<close>

definition sscanf_status :: "string \<Rightarrow> exn + string option \<times> int option \<times> bool" where
  "sscanf_status line =
     (if \<not> prefix ''HTTP/'' line then Inr (None, None, False)
      else case scan_word (drop 5 line) of
        None \<Rightarrow> Inr (None, None, False)
      | Some (v, r) \<Rightarrow>
          if MAX_URL_LEN < length v then Inl Undefined_behaviour
          else case scan_int r of
            None \<Rightarrow> Inr (Some v, None, False)
          | Some (c, r') \<Rightarrow>
              (case scan_word r' of
                 None \<Rightarrow> Inr (Some v, Some c, False)
               | Some (b, _) \<Rightarrow>
                   if MAX_URL_LEN < length b then Inl Undefined_behaviour
                   else Inr (Some v, Some c, True)))"

subsection \<open>\<open>response\<close>\<close>

record response = transfer +
  r_value :: string
  r_code :: int

definition response_default :: response where
  "response_default = transfer.extend transfer_default \<lparr>r_value = [], r_code = 0\<rparr>"

definition response_copy :: "response \<Rightarrow> response" where
  "response_copy other =
     transfer.extend (transfer_copy other) \<lparr>r_value = r_value other, r_code = r_code other\<rparr>"

definition response_move :: "response \<Rightarrow> response" where
  "response_move other =
     transfer.extend (transfer_move other) \<lparr>r_value = r_value other, r_code = r_code other\<rparr>"

definition response_assign :: "response \<Rightarrow> response \<Rightarrow> response" where
  "response_assign other this =
     (transfer_assign other this)\<lparr>r_value := r_value other, r_code := r_code other\<rparr>"

definition response_clear :: "response \<Rightarrow> response" where
  "response_clear r = r\<lparr>r_value := [], r_code := 0, headers := [], content := []\<rparr>"

definition CRLF :: string where "CRLF = [CHR 0x0D, CHR 0x0A]"

definition at_newline :: "string \<Rightarrow> nat \<Rightarrow> bool" where
  "at_newline s pos \<longleftrightarrow> char_at s pos = CHR 0x0D \<or> char_at s pos = CHR 0x0A"

definition skip_newline :: "string \<Rightarrow> nat \<Rightarrow> nat" where
  "skip_newline s pos =
     (if \<not> at_newline s pos then pos
      else if \<not> at_newline s (Suc pos) then Suc pos else pos + 2)"

lemma skip_newline_less:
  assumes "str_find s CRLF pos = Some next"
  shows "pos < skip_newline s next \<and> next + 2 \<le> length s \<and> skip_newline s next = next + 2"
proof -
  from assms obtain k where k: "find_sub CRLF (drop pos s) = Some k" and n: "next = pos + k"
    and p: "pos \<le> length s"
    by (auto simp: str_find_def split: if_splits)
  from find_sub_Some [OF k] obtain a b where ab: "drop pos s = a @ CRLF @ b" "length a = k" by auto
  have l: "next + 2 \<le> length s"
    using str_find_bounds(2) [OF assms] by (simp add: CRLF_def)
  have "drop next s = CRLF @ b" using ab n by (metis append_eq_conv_conj drop_drop add.commute)
  then have "drop next s ! 0 = CHR 0x0D" "drop next s ! 1 = CHR 0x0A"
    by (simp_all add: CRLF_def)
  then have "s ! next = CHR 0x0D" "s ! Suc next = CHR 0x0A" using l by simp_all
  then show ?thesis using l n by (simp add: skip_newline_def at_newline_def char_at_def)
qed

text \<open>The \<open>while\<close> loop over the header lines: the position after it and the map, also when
  \<open>substr\<close> throws.\<close>

function parse_headers :: "string \<Rightarrow> nat \<Rightarrow> string \<Rightarrow> str_map \<Rightarrow> (exn + nat) \<times> str_map" where
  "parse_headers s pos line hs =
     (if line = [] then (Inr pos, hs)
      else case str_find s CRLF pos of
        None \<Rightarrow> (Inr pos, hs)
      | Some next \<Rightarrow>
          (case substr s pos (Some (next - pos)) of
             Inl e \<Rightarrow> (Inl e, hs)
           | Inr line' \<Rightarrow>
               (case str_find line' '':'' 0 of
                  None \<Rightarrow> parse_headers s (skip_newline s next) line' hs
                | Some sep \<Rightarrow>
                    (case substr line' (sep + 2) None of
                       Inl e \<Rightarrow> (Inl e, hs)
                     | Inr value \<Rightarrow>
                         parse_headers s (skip_newline s next) line'
                           (smap_put (take sep line') value hs)))))"
  by pat_completeness auto
termination
  by (relation "measure (\<lambda>(s, pos, line, hs). Suc (length s) - pos)")
    (auto dest!: skip_newline_less)

declare parse_headers.simps [simp del]

definition response_parse_value :: "(response, unit) prog" where
  "response_parse_value r =
     (let value = r_value r in
      case str_find value CRLF 0 of
        None \<Rightarrow> (Inr (), r\<lparr>content := value\<rparr>)
      | Some pos \<Rightarrow>
          let line = take pos value in
          (case sscanf_status (c_str line) of
             Inl e \<Rightarrow> (Inl e, r)
           | Inr (v, c, complete) \<Rightarrow>
               let r1 = r\<lparr>r_code := (case c of None \<Rightarrow> r_code r | Some n \<Rightarrow> n)\<rparr> in
               if \<not> complete then (Inr (), r1\<lparr>content := value\<rparr>)
               else
                 let r2 = r1\<lparr>version := (case v of None \<Rightarrow> [] | Some t \<Rightarrow> t)\<rparr> in
                 (case parse_headers value (skip_newline value pos) line (headers r2) of
                    (Inl e, hs) \<Rightarrow> (Inl e, r2\<lparr>headers := hs\<rparr>)
                  | (Inr pos', hs) \<Rightarrow>
                      (case substr value pos' None of
                         Inl e \<Rightarrow> (Inl e, r2\<lparr>headers := hs\<rparr>)
                       | Inr body \<Rightarrow> (Inr (), r2\<lparr>headers := hs, content := body\<rparr>)))))"

definition response_parse :: "string \<Rightarrow> (response, unit) prog" where
  "response_parse value = pthen (pmod (\<lambda>r. (response_clear r)\<lparr>r_value := value\<rparr>)) response_parse_value"

text \<open>\<open>response(fullResponse)\<close>.\<close>

definition response_of :: "string \<Rightarrow> exn + response" where
  "response_of value =
     (case response_parse_value (response_default\<lparr>r_value := value\<rparr>) of
        (Inl e, _) \<Rightarrow> Inl e | (Inr _, r) \<Rightarrow> Inr r)"

subsection \<open>\<open>client\<close>\<close>

record client = transfer +
  c_uri :: uri
  c_timeout :: int
  c_response :: response

definition add_header :: "string \<Rightarrow> string \<Rightarrow> 'a transfer_scheme \<Rightarrow> 'a transfer_scheme" where
  "add_header key value c = c\<lparr>headers := smap_put key value (headers c)\<rparr>"

definition client_of_uri :: "uri \<Rightarrow> client" where
  "client_of_uri u =
     add_header HEADER_USER_AGENT THIS_USER_AGENT
       (transfer.extend transfer_default
          \<lparr>c_uri = u, c_timeout = DEFAULT_HTTP_TIMEOUT, c_response = response_default\<rparr>)"

definition client_of_string :: "(string \<Rightarrow> uri_ranges option) option \<Rightarrow> string \<Rightarrow> client" where
  "client_of_string lib s = client_of_uri (uri_of lib s PROTOCOL)"

text \<open>The copy constructor copies the response; copy assignment does not. Moving does.\<close>

definition client_copy :: "client \<Rightarrow> client" where
  "client_copy other = other"

definition client_assign :: "client \<Rightarrow> client \<Rightarrow> client" where
  "client_assign other this =
     (transfer_assign other this)\<lparr>c_uri := c_uri other, headers := headers other,
        c_timeout := c_timeout other\<rparr>"

definition client_move_assign :: "client \<Rightarrow> client \<Rightarrow> client" where
  "client_move_assign other this =
     (transfer_assign other this)\<lparr>c_uri := c_uri other, c_response := c_response other,
        c_timeout := c_timeout other\<rparr>"

definition add_headers :: "str_map \<Rightarrow> 'a transfer_scheme \<Rightarrow> 'a transfer_scheme" where
  "add_headers values c = c\<lparr>headers := smap_insert_range values (headers c)\<rparr>"

definition remove_header :: "string \<Rightarrow> 'a transfer_scheme \<Rightarrow> 'a transfer_scheme" where
  "remove_header key c = c\<lparr>headers := smap_erase key (headers c)\<rparr>"

definition client_is_secure :: "client \<Rightarrow> bool" where
  "client_is_secure c \<longleftrightarrow> u_scheme (c_uri c) = SECURE_PROTOCOL"

definition set_content :: "string \<Rightarrow> 'a transfer_scheme \<Rightarrow> 'a transfer_scheme" where
  "set_content value c = c\<lparr>content := value\<rparr>"

definition set_timeout :: "int \<Rightarrow> client \<Rightarrow> client" where
  "set_timeout value c = c\<lparr>c_timeout := value\<rparr>"

text \<open>
  The implementation is a static member that may be empty (\<open>None\<close>); it sees and may change the
  client. The callback gets the parsed response.
\<close>

type_synonym 'w http_impl =
  "http_method \<Rightarrow> string \<Rightarrow> (client \<times> 'w world_scheme, string) prog"

type_synonym 'w http_callback = "response \<Rightarrow> (client \<times> 'w world_scheme, unit) prog"

text \<open>\<open>set_request_type\<close> replaces the static member.\<close>

definition set_request_type :: "'w http_impl option \<Rightarrow> 'w http_impl option \<Rightarrow> 'w http_impl option" where
  "set_request_type impl installed = impl"

definition parse_into_response :: "string \<Rightarrow> (client \<times> 'w world_scheme, unit) prog" where
  "parse_into_response s =
     (\<lambda>(c, w). case response_parse s (c_response c) of (r, resp) \<Rightarrow> (r, (c\<lparr>c_response := resp\<rparr>, w)))"

definition client_request ::
  "'w http_impl option \<Rightarrow> http_method \<Rightarrow> string \<Rightarrow> 'w http_callback option \<Rightarrow>
     (client \<times> 'w world_scheme, unit) prog" where
  "client_request impl m path callback =
     (case impl of
        None \<Rightarrow> praise (Socket_exception ''invalid implementation'')
      | Some f \<Rightarrow>
          pbind (obj c_uri) (\<lambda>u.
          if \<not> u_valid u then praise (Socket_exception ''invalid uri'')
          else
            pbind (f m path) (\<lambda>s.
            pthen (parse_into_response s)
              (case callback of
                 None \<Rightarrow> pret ()
               | Some g \<Rightarrow> pbind (obj c_response) g))))"

text \<open>\<open>get\<close>, \<open>post\<close>, \<open>put\<close> and \<open>de1ete\<close>, without and with a path under the URI's.\<close>

definition client_verb ::
  "http_method \<Rightarrow> 'w http_impl option \<Rightarrow> 'w http_callback option \<Rightarrow> (client \<times> 'w world_scheme, unit) prog" where
  "client_verb m impl callback =
     pbind (obj c_uri) (\<lambda>u. client_request impl m (u_path u) callback)"

definition client_verb_at ::
  "http_method \<Rightarrow> 'w http_impl option \<Rightarrow> string \<Rightarrow> 'w http_callback option \<Rightarrow> (client \<times> 'w world_scheme, unit) prog" where
  "client_verb_at m impl path callback =
     pbind (obj c_uri) (\<lambda>u. client_request impl m (u_path u @ ''/'' @ path) callback)"

definition client_get :: "'w http_impl option \<Rightarrow> 'w http_callback option \<Rightarrow> (client \<times> 'w world_scheme, unit) prog" where
  "client_get = client_verb GET"
definition client_get_at :: "'w http_impl option \<Rightarrow> string \<Rightarrow> 'w http_callback option \<Rightarrow> (client \<times> 'w world_scheme, unit) prog" where
  "client_get_at = client_verb_at GET"
definition client_post :: "'w http_impl option \<Rightarrow> 'w http_callback option \<Rightarrow> (client \<times> 'w world_scheme, unit) prog" where
  "client_post = client_verb POST"
definition client_post_at :: "'w http_impl option \<Rightarrow> string \<Rightarrow> 'w http_callback option \<Rightarrow> (client \<times> 'w world_scheme, unit) prog" where
  "client_post_at = client_verb_at POST"
definition client_put :: "'w http_impl option \<Rightarrow> 'w http_callback option \<Rightarrow> (client \<times> 'w world_scheme, unit) prog" where
  "client_put = client_verb PUT"
definition client_put_at :: "'w http_impl option \<Rightarrow> string \<Rightarrow> 'w http_callback option \<Rightarrow> (client \<times> 'w world_scheme, unit) prog" where
  "client_put_at = client_verb_at PUT"
definition client_de1ete :: "'w http_impl option \<Rightarrow> 'w http_callback option \<Rightarrow> (client \<times> 'w world_scheme, unit) prog" where
  "client_de1ete = client_verb DELETE"
definition client_de1ete_at :: "'w http_impl option \<Rightarrow> string \<Rightarrow> 'w http_callback option \<Rightarrow> (client \<times> 'w world_scheme, unit) prog" where
  "client_de1ete_at = client_verb_at DELETE"

end
