(* ===== verification/Http_Facts.thy ===== *)
theory Http_Facts
  imports Http
begin

section \<open>HTTP responses: what the parser makes of them\<close>

text \<open>
  A response written as the protocol says is parsed into its parts; the parser returns on every
  text without an empty header value, and throws on those with one.
\<close>

definition header_line :: "string \<times> string \<Rightarrow> string" where
  "header_line kv = fst kv @ '': '' @ snd kv"

definition header_lines :: "(string \<times> string) list \<Rightarrow> string" where
  "header_lines hs = concat (map (\<lambda>kv. header_line kv @ CRLF) hs)"

definition status_line :: "string \<Rightarrow> nat \<Rightarrow> string \<Rightarrow> string" where
  "status_line v c reason = ''HTTP/'' @ v @ '' '' @ dec_nat c @ '' '' @ reason"

definition render_response ::
  "string \<Rightarrow> nat \<Rightarrow> string \<Rightarrow> (string \<times> string) list \<Rightarrow> string \<Rightarrow> string" where
  "render_response v c reason hs body =
     status_line v c reason @ CRLF @ header_lines hs @ CRLF @ body"

abbreviation CR :: char where "CR \<equiv> CHR 0x0D"

definition header_ok :: "string \<times> string \<Rightarrow> bool" where
  "header_ok kv \<longleftrightarrow> CR \<notin> set (fst kv) \<and> CHR '':'' \<notin> set (fst kv) \<and> CR \<notin> set (snd kv)"

definition word_ok :: "string \<Rightarrow> bool" where
  "word_ok v \<longleftrightarrow> v \<noteq> [] \<and> length v \<le> MAX_URL_LEN \<and> (\<forall>c\<in>set v. \<not> is_space c \<and> c \<noteq> NUL)"

definition reason_ok :: "string \<Rightarrow> bool" where
  "reason_ok r \<longleftrightarrow> r \<noteq> [] \<and> length r \<le> MAX_URL_LEN \<and> \<not> is_space (hd r) \<and> CR \<notin> set r \<and> NUL \<notin> set r"

lemma is_space_CR: "is_space CR" "is_space (CHR '' '')"
  by (simp_all add: is_space_def code_def)

lemma digit_not_space: "is_digit c \<Longrightarrow> \<not> is_space c \<and> c \<noteq> CHR ''-'' \<and> c \<noteq> CHR ''+'' \<and> c \<noteq> NUL \<and> c \<noteq> CR"
  by (auto simp: is_digit_def is_space_def code_def NUL_def)

lemma scan_word_run:
  assumes "v \<noteq> []" "\<forall>c\<in>set v. \<not> is_space c" and "rest = [] \<or> is_space (hd rest)"
  shows "scan_word (v @ rest) = Some (v, rest)" "scan_word (CHR '' '' # v @ rest) = Some (v, rest)"
proof -
  have d: "dropWhile is_space (v @ rest) = v @ rest" using assms(1,2) by (cases v) auto
  have t: "takeWhile (\<lambda>c. \<not> is_space c) (v @ rest) = v"
  proof (cases rest)
    case Nil
    then show ?thesis using assms(2) by (simp add: takeWhile_eq_all_conv)
  next
    case (Cons a list)
    then show ?thesis using assms by (simp add: takeWhile_tail)
  qed
  show "scan_word (v @ rest) = Some (v, rest)"
    using assms(1) by (simp add: scan_word_def Let_def d t)
  then show "scan_word (CHR '' '' # v @ rest) = Some (v, rest)"
    by (simp add: scan_word_def is_space_CR)
qed

lemma scan_int_run:
  assumes "c < 2 ^ 31" and "rest = [] \<or> \<not> is_digit (hd rest)"
  shows "scan_int (CHR '' '' # dec_nat c @ rest) = Some (int c, rest)"
proof -
  obtain d ds where d: "dec_nat c = d # ds" using dec_nat_ne by (cases "dec_nat c") auto
  have dd: "is_digit d" using dec_nat_digits [of d c] d by simp
  have "dropWhile is_space (CHR '' '' # dec_nat c @ rest) = dec_nat c @ rest"
    using digit_not_space [OF dd] d by (simp add: is_space_CR)
  moreover have "scan_sign (dec_nat c @ rest) = (False, dec_nat c @ rest)"
    using digit_not_space [OF dd] d by (simp add: scan_sign_def)
  moreover have "takeWhile is_digit (dec_nat c @ rest) = dec_nat c"
  proof (cases rest)
    case Nil
    then show ?thesis using dec_nat_digits by (simp add: takeWhile_eq_all_conv)
  next
    case (Cons a list)
    then show ?thesis using assms(2) dec_nat_digits by (simp add: takeWhile_tail)
  qed
  moreover have "to_int (clamp (int c)) = int c"
    using assms(1) by (simp add: clamp_def to_int_small)
  ultimately show ?thesis by (simp add: scan_int_def Let_def)
qed

lemma sscanf_status_run:
  assumes "word_ok v" and "c < 2 ^ 31" and "reason_ok reason"
  shows "sscanf_status (status_line v c reason) = Inr (Some v, Some (int c), True)"
proof -
  let ?b = "takeWhile (\<lambda>c. \<not> is_space c) reason"
  have v: "scan_word (v @ CHR '' '' # dec_nat c @ CHR '' '' # reason) =
      Some (v, CHR '' '' # dec_nat c @ CHR '' '' # reason)"
    using assms(1) scan_word_run(1) [of v] by (simp add: word_ok_def is_space_CR)
  have i: "scan_int (CHR '' '' # dec_nat c @ CHR '' '' # reason) = Some (int c, CHR '' '' # reason)"
    using scan_int_run [OF assms(2), of "CHR '' '' # reason"] by (simp add: is_digit_def)
  have "dropWhile is_space (CHR '' '' # reason) = reason" "?b \<noteq> []"
    using assms(3) by (cases reason; simp add: reason_ok_def is_space_CR)+
  then have r: "scan_word (CHR '' '' # reason) = Some (?b, drop (length ?b) reason)"
    by (simp add: scan_word_def Let_def)
  have "length ?b \<le> MAX_URL_LEN" using assms(3)
    by (auto simp: reason_ok_def intro: le_trans [OF length_takeWhile_le])
  then show ?thesis
    using assms(1) v i r by (simp add: sscanf_status_def status_line_def word_ok_def)
qed

lemma str_find_CRLF:
  assumes "CR \<notin> set a"
  shows "str_find (pre @ a @ CRLF @ b) CRLF (length pre) = Some (length pre + length a)"
  using str_find_first [OF assms, of pre "[CHR 0x0A]" b] by (simp add: CRLF_def)

lemma skip_CRLF: "skip_newline (a @ CRLF @ b) (length a) = length a + 2"
  by (simp add: skip_newline_def at_newline_def char_at_def CRLF_def nth_append)

lemma parse_headers_line:
  assumes "line \<noteq> []" and "header_ok kv"
  shows "parse_headers (pre @ header_line kv @ CRLF @ rest) (length pre) line hs =
    parse_headers (pre @ header_line kv @ CRLF @ rest) (length (pre @ header_line kv @ CRLF))
      (header_line kv) (smap_put (fst kv) (snd kv) hs)"
proof -
  let ?s = "pre @ header_line kv @ CRLF @ rest"
  have f: "str_find ?s CRLF (length pre) = Some (length pre + length (header_line kv))"
    using assms(2) by (intro str_find_CRLF) (simp add: header_ok_def header_line_def)
  have l: "substr ?s (length pre) (Some (length pre + length (header_line kv) - length pre)) =
      Inr (header_line kv)"
    by (simp add: substr_def)
  have c: "str_find (header_line kv) '':'' 0 = Some (length (fst kv))"
    using assms(2) str_find_first0 [of "CHR '':''" "fst kv" "[]" "'' '' @ snd kv"]
    by (simp add: header_ok_def header_line_def)
  have v: "substr (header_line kv) (length (fst kv) + 2) None = Inr (snd kv)"
    "take (length (fst kv)) (header_line kv) = fst kv"
    by (simp_all add: substr_def header_line_def)
  have s: "skip_newline ?s (length pre + length (header_line kv)) = length (pre @ header_line kv @ CRLF)"
    using skip_CRLF [of "pre @ header_line kv" rest] by (simp add: CRLF_def)
  show ?thesis
    by (subst parse_headers.simps)
      (simp only: assms(1) f l c v s if_False option.case sum.case)
qed

lemma parse_headers_run:
  assumes "line \<noteq> []" and "\<forall>kv\<in>set kvs. header_ok kv"
  shows "parse_headers (pre @ header_lines kvs @ CRLF @ body) (length pre) line hs =
    (Inr (length pre + length (header_lines kvs) + 2), fold (\<lambda>(k, v). smap_put k v) kvs hs)"
  using assms
proof (induction kvs arbitrary: pre line hs)
  case Nil
  let ?s = "pre @ CRLF @ body"
  have f: "str_find ?s CRLF (length pre) = Some (length pre)"
    using str_find_CRLF [of "[]" pre body] by simp
  have e: "substr ?s (length pre) (Some (length pre - length pre)) = Inr []" "str_find [] '':'' 0 = None"
    by (simp_all add: substr_def str_find_def)
  have "parse_headers ?s (length pre) line hs = parse_headers ?s (length pre + 2) [] hs"
    by (subst parse_headers.simps)
      (simp only: Nil.prems(1) f e skip_CRLF if_False option.case sum.case)
  also have "\<dots> = (Inr (length pre + 2), hs)" by (subst parse_headers.simps) simp
  finally show ?case by (simp add: header_lines_def)
next
  case (Cons kv kvs)
  let ?pre = "pre @ header_line kv @ CRLF"
  have "parse_headers (pre @ header_lines (kv # kvs) @ CRLF @ body) (length pre) line hs =
      parse_headers (?pre @ header_lines kvs @ CRLF @ body) (length ?pre) (header_line kv)
        (smap_put (fst kv) (snd kv) hs)"
    using parse_headers_line [OF Cons.prems(1), of kv pre "header_lines kvs @ CRLF @ body" hs] Cons.prems(2)
    by (simp add: header_lines_def)
  also have "\<dots> = (Inr (length ?pre + length (header_lines kvs) + 2),
      fold (\<lambda>(k, v). smap_put k v) kvs (smap_put (fst kv) (snd kv) hs))"
    using Cons.prems(2) by (intro Cons.IH) (simp_all add: header_line_def)
  finally show ?case by (cases kv) (simp add: header_lines_def)
qed

lemma parse_status:
  assumes "word_ok v" and "c < 2 ^ 31" and "reason_ok reason"
    and "r_value r = status_line v c reason @ CRLF @ rest"
  shows "response_parse_value r =
    (case parse_headers (r_value r) (length (status_line v c reason @ CRLF)) (status_line v c reason) (headers r) of
       (Inl e, hs) \<Rightarrow> (Inl e, r\<lparr>r_code := int c, version := v, headers := hs\<rparr>)
     | (Inr pos, hs) \<Rightarrow>
         (case substr (r_value r) pos None of
            Inl e \<Rightarrow> (Inl e, r\<lparr>r_code := int c, version := v, headers := hs\<rparr>)
          | Inr body \<Rightarrow> (Inr (), r\<lparr>r_code := int c, version := v, headers := hs, content := body\<rparr>)))"
proof -
  let ?l = "status_line v c reason"
  have cr: "CR \<notin> set ?l"
    using assms(1,3) is_space_CR dec_nat_digits digit_not_space
    by (auto simp: status_line_def word_ok_def reason_ok_def)
  have nul: "NUL \<notin> set ?l"
    using assms(1,3) dec_nat_digits digit_not_space
    by (auto simp: status_line_def word_ok_def reason_ok_def NUL_def)
  have f: "str_find (r_value r) CRLF 0 = Some (length ?l)"
    using str_find_CRLF [OF cr, of "[]" rest] assms(4) by simp
  have t: "take (length ?l) (r_value r) = ?l" using assms(4) by simp
  have k: "skip_newline (r_value r) (length ?l) = length (?l @ CRLF)"
    using skip_CRLF [of ?l rest] assms(4) by (simp add: CRLF_def)
  have s: "sscanf_status (c_str ?l) = Inr (Some v, Some (int c), True)"
    using sscanf_status_run [OF assms(1-3)] nul by (simp add: c_str_id NUL_def)
  show ?thesis
    unfolding response_parse_value_def Let_def f option.case t s sum.case prod.case k
    by (auto split: prod.splits sum.splits)
qed

lemma response_parse_rendered:
  assumes "word_ok v" and "c < 2 ^ 31" and "reason_ok reason" and "\<forall>kv\<in>set kvs. header_ok kv"
  shows "response_parse (render_response v c reason kvs body) r =
    (Inr (), r\<lparr>r_value := render_response v c reason kvs body, r_code := int c, version := v,
       headers := fold (\<lambda>(k, v). smap_put k v) kvs [], content := body\<rparr>)"
proof -
  let ?t = "render_response v c reason kvs body"
  let ?r = "(response_clear r)\<lparr>r_value := ?t\<rparr>"
  let ?pre = "status_line v c reason @ CRLF"
  have t: "?t = status_line v c reason @ CRLF @ (header_lines kvs @ CRLF @ body)"
    "?t = ?pre @ header_lines kvs @ CRLF @ body"
    by (simp_all add: render_response_def)
  have "status_line v c reason \<noteq> []" by (simp add: status_line_def)
  then have h: "parse_headers ?t (length ?pre) (status_line v c reason) (headers ?r) =
      (Inr (length ?pre + length (header_lines kvs) + 2), fold (\<lambda>(k, v). smap_put k v) kvs (headers ?r))"
    unfolding t(2) using assms(4) by (rule parse_headers_run)
  have b: "substr ?t (length ?pre + length (header_lines kvs) + 2) None = Inr body"
    unfolding t(2) by (simp add: substr_def CRLF_def eval_nat_numeral)
  have "response_parse_value ?r = (Inr (), ?r\<lparr>r_code := int c, version := v,
      headers := fold (\<lambda>(k, v). smap_put k v) kvs (headers ?r), content := body\<rparr>)"
    using parse_status [OF assms(1-3), of ?r "header_lines kvs @ CRLF @ body"] h b t(1) by simp
  then show ?thesis
    by (simp add: response_parse_def prog_simps response_clear_def)
qed

text \<open>
  C17: a response is parsed into what it was written from - version, status code, the headers (of
  several with one name the last), and the body, byte for byte, whatever it holds - if it is written
  in this form: the version a non-empty word without space or NUL, the code below 2^31, the reason not
  empty, not beginning with a space and without CR and NUL, version and reason of at most
  \<open>MAX_URL_LEN\<close> characters, header names without colon and CR, header values without CR. A response
  without a reason, which HTTP allows, is not read like this (\<open>response_without_reason\<close>).
\<close>

theorem response_parse_render:
  assumes "word_ok v" and "c < 2 ^ 31" and "reason_ok reason" and "\<forall>kv\<in>set kvs. header_ok kv"
  shows "response_parse (render_response v c reason kvs body) r =
    (Inr (), r\<lparr>r_value := render_response v c reason kvs body, r_code := int c, version := v,
       headers := fold (\<lambda>(k, v). smap_put k v) kvs [], content := body\<rparr>)"
  using assms by (rule response_parse_rendered)

lemma response_parse_render_witness:
  "response_parse (render_response ''1.1'' 200 ''OK'' [(''A'', ''b''), (''C'', '''')] ''x'') response_default =
    (Inr (), response_default\<lparr>r_value := render_response ''1.1'' 200 ''OK'' [(''A'', ''b''), (''C'', '''')] ''x'',
       r_code := 200, version := ''1.1'', headers := [(''A'', ''b''), (''C'', '''')], content := ''x''\<rparr>)"
proof -
  have w: "word_ok ''1.1''" "reason_ok ''OK''" "\<forall>kv\<in>set [(''A'', ''b''), (''C'', '''')]. header_ok kv"
    by (simp_all add: word_ok_def reason_ok_def header_ok_def is_space_def code_def NUL_def MAX_URL_LEN_def)
  have "fold (\<lambda>(k, v). smap_put k v) [(''A'', ''b''), (''C'', '''')] [] = [(''A'', ''b''), (''C'', '''')]"
    by (simp add: less_char_def)
  with response_parse_render [OF w(1) _ w(2,3), of 200 "''x''" response_default] show ?thesis by simp
qed

text \<open>
  a header whose line ends with its colon, an empty value that the protocol allows, makes
  the parser throw \<open>std::out_of_range\<close>, which is not the exception the library catches; the
  response is left with its status, the headers before that line and no content.
\<close>

theorem response_empty_header_throws:
  assumes "word_ok v" and "c < 2 ^ 31" and "reason_ok reason" and "\<forall>kv\<in>set kvs. header_ok kv"
    and "CR \<notin> set k" and "CHR '':'' \<notin> set k"
  shows "response_parse (status_line v c reason @ CRLF @ header_lines kvs @ k @ '':'' @ CRLF @ rest) r =
    (Inl Out_of_range,
     r\<lparr>r_value := status_line v c reason @ CRLF @ header_lines kvs @ k @ '':'' @ CRLF @ rest,
       r_code := int c, version := v, headers := fold (\<lambda>(k, v). smap_put k v) kvs [], content := []\<rparr>)"
proof -
  let ?bad = "k @ '':''"
  have bad: "parse_headers (pre @ ?bad @ CRLF @ rest) (length pre) line hs = (Inl Out_of_range, hs)"
    if "line \<noteq> []" for pre line hs
  proof -
    have f: "str_find (pre @ ?bad @ CRLF @ rest) CRLF (length pre) = Some (length pre + length ?bad)"
      using assms(5) by (intro str_find_CRLF) simp
    have l: "substr (pre @ ?bad @ CRLF @ rest) (length pre) (Some (length pre + length ?bad - length pre)) = Inr ?bad"
      by (simp add: substr_def)
    have s: "str_find ?bad '':'' 0 = Some (length k)" "substr ?bad (length k + 2) None = Inl Out_of_range"
      using str_find_first0 [OF assms(6), of "[]" "[]"] by (simp_all add: substr_def)
    show ?thesis
      by (subst parse_headers.simps) (simp only: that f l s if_False option.case sum.case)
  qed
  have all: "parse_headers (pre @ header_lines kvs @ ?bad @ CRLF @ rest) (length pre) line hs =
      (Inl Out_of_range, fold (\<lambda>(k, v). smap_put k v) kvs hs)"
    if "line \<noteq> []" "\<forall>kv\<in>set kvs. header_ok kv" for pre line hs
    using that
  proof (induction kvs arbitrary: pre line hs)
    case Nil
    then show ?case using bad [of line pre hs] by (simp add: header_lines_def)
  next
    case (Cons kv kvs)
    have "header_line kv \<noteq> []" by (simp add: header_line_def)
    from Cons.IH [OF this, of "pre @ header_line kv @ CRLF"] Cons.prems
      parse_headers_line [OF Cons.prems(1), of kv pre "header_lines kvs @ ?bad @ CRLF @ rest" hs]
    show ?case by (cases kv) (simp add: header_lines_def)
  qed
  let ?t = "status_line v c reason @ CRLF @ header_lines kvs @ ?bad @ CRLF @ rest"
  let ?r = "(response_clear r)\<lparr>r_value := ?t\<rparr>"
  have "status_line v c reason \<noteq> []" by (simp add: status_line_def)
  from all [OF this assms(4), of "status_line v c reason @ CRLF" "headers ?r"]
  have "response_parse_value ?r = (Inl Out_of_range, ?r\<lparr>r_code := int c, version := v,
      headers := fold (\<lambda>(k, v). smap_put k v) kvs (headers ?r)\<rparr>)"
    using parse_status [OF assms(1-3), of ?r "header_lines kvs @ ?bad @ CRLF @ rest"] by simp
  then show ?thesis
    by (simp add: response_parse_def prog_simps response_clear_def)
qed

lemma response_empty_header_throws_witness:
  "fst (response_parse (status_line ''1.1'' 200 ''OK'' @ CRLF @ ''X:'' @ CRLF @ CRLF) response_default) =
     Inl Out_of_range"
proof -
  have w: "word_ok ''1.1''" "reason_ok ''OK''"
    by (simp_all add: word_ok_def reason_ok_def is_space_def code_def NUL_def MAX_URL_LEN_def)
  from response_empty_header_throws [OF w(1) _ w(2), of 200 "[]" "''X''" CRLF response_default] show ?thesis
    by (simp add: header_lines_def)
qed

text \<open>
  A status line without a reason phrase, which the protocol allows, is not recognised: the
  code is taken from it, but the whole text, status line and headers included, becomes the
  content, and no header is stored.
\<close>

theorem response_without_reason:
  assumes "word_ok v" and "c < 2 ^ 31"
  shows "response_parse (''HTTP/'' @ v @ '' '' @ dec_nat c @ '' '' @ CRLF @ rest) r =
    (Inr (), r\<lparr>r_value := ''HTTP/'' @ v @ '' '' @ dec_nat c @ '' '' @ CRLF @ rest, r_code := int c,
       headers := [], content := ''HTTP/'' @ v @ '' '' @ dec_nat c @ '' '' @ CRLF @ rest\<rparr>)"
proof -
  let ?l = "''HTTP/'' @ v @ '' '' @ dec_nat c @ '' ''"
  let ?t = "?l @ CRLF @ rest"
  let ?r = "(response_clear r)\<lparr>r_value := ?t\<rparr>"
  have cr: "CR \<notin> set ?l" and nul: "NUL \<notin> set ?l"
    using assms(1) is_space_CR dec_nat_digits digit_not_space by (auto simp: word_ok_def NUL_def)
  have f: "str_find ?t CRLF 0 = Some (length ?l)"
    using str_find_CRLF [OF cr, of "[]" rest] by simp
  have t: "take (length ?l) ?t = ?l" by simp
  have w: "scan_word (v @ CHR '' '' # dec_nat c @ '' '') = Some (v, CHR '' '' # dec_nat c @ '' '')"
    using assms(1) scan_word_run(1) [of v] by (simp add: word_ok_def is_space_CR)
  have i: "scan_int (CHR '' '' # dec_nat c @ '' '') = Some (int c, '' '')"
    using scan_int_run [OF assms(2), of "'' ''"] by (simp add: is_digit_def)
  have e: "scan_word '' '' = None" by (simp add: scan_word_def is_space_CR)
  have s: "sscanf_status (c_str ?l) = Inr (Some v, Some (int c), False)"
    using assms(1) w i e nul by (simp add: sscanf_status_def word_ok_def c_str_id NUL_def)
  have "response_parse_value ?r = (Inr (), ?r\<lparr>r_code := int c, content := ?t\<rparr>)"
    using f t s by (simp only: response_parse_value_def Let_def response.select_convs response.surjective
        response.update_convs option.case sum.case prod.case) simp
  then show ?thesis
    by (simp add: response_parse_def prog_simps response_clear_def)
qed

lemma response_without_reason_witness:
  "r_code (snd (response_parse (''HTTP/'' @ ''1.1'' @ '' '' @ dec_nat 204 @ '' '' @ CRLF @ CRLF) response_default)) = 204"
proof -
  have w: "word_ok ''1.1''"
    by (simp add: word_ok_def is_space_def code_def NUL_def MAX_URL_LEN_def)
  from response_without_reason [OF w, of 204 CRLF response_default] show ?thesis by simp
qed

subsection \<open>When the parser returns\<close>

lemma str_find_split:
  assumes "str_find s pat pos = Some next"
  shows "\<exists>b. drop pos s = take (next - pos) (drop pos s) @ pat @ b \<and> pos \<le> next \<and>
    length (take (next - pos) (drop pos s)) = next - pos"
proof -
  from assms obtain k where k: "find_sub pat (drop pos s) = Some k" and n: "next = pos + k"
    by (auto simp: str_find_def split: if_splits)
  from find_sub_Some [OF k] obtain a b where ab: "drop pos s = a @ pat @ b" "length a = k" by auto
  then have "take k (drop pos s) = a" by simp
  with ab n show ?thesis by auto
qed

lemma header_substr_ok:
  assumes "\<not> sublist (CHR '':'' # CRLF) s" and "str_find s CRLF pos = Some next"
    and "line = take (next - pos) (drop pos s)" and "str_find line '':'' 0 = Some sep"
  shows "sep + 2 \<le> length line"
proof (rule ccontr)
  assume "\<not> sep + 2 \<le> length line"
  with str_find_char [OF assms(4)] have l: "length line = Suc sep" "line ! sep = CHR '':''" by auto
  then have "line = take sep line @ '':''" by (metis take_Suc_conv_app_nth lessI take_all le_refl)
  moreover obtain b where "drop pos s = line @ CRLF @ b"
    using str_find_split [OF assms(2)] assms(3) by auto
  ultimately have "drop pos s = take sep line @ (CHR '':'' # CRLF) @ b"
    by (metis append.assoc append_Cons append_Nil)
  then have "sublist (CHR '':'' # CRLF) (drop pos s)" by (auto simp: sublist_def)
  then have "sublist (CHR '':'' # CRLF) s"
    by (meson sublist_order.order.trans suffix_drop suffix_imp_sublist)
  with assms(1) show False by simp
qed

lemma parse_headers_total:
  assumes "\<not> sublist (CHR '':'' # CRLF) s" and "pos \<le> length s"
  shows "\<exists>pos' hs'. parse_headers s pos line hs = (Inr pos', hs') \<and> pos' \<le> length s"
  using assms
proof (induction s pos line hs rule: parse_headers.induct)
  case (1 s pos line hs)
  show ?case
  proof (cases "line = [] \<or> str_find s CRLF pos = None")
    case True
    with "1.prems"(2) show ?thesis by (auto simp: parse_headers.simps [of s pos])
  next
    case False
    then obtain nxt where n: "line \<noteq> []" "str_find s CRLF pos = Some nxt" by auto
    let ?line = "take (nxt - pos) (drop pos s)"
    have l: "substr s pos (Some (nxt - pos)) = Inr ?line" using "1.prems"(2) by (simp add: substr_def)
    have p: "skip_newline s nxt \<le> length s" using skip_newline_less [OF n(2)] by simp
    show ?thesis
    proof (cases "str_find ?line '':'' 0")
      case None
      from "1.IH"(1) [OF n l None "1.prems"(1) p] n l None show ?thesis
        by (subst parse_headers.simps) simp
    next
      case (Some sep)
      have v: "substr ?line (sep + 2) None = Inr (drop (sep + 2) ?line)"
        using header_substr_ok [OF "1.prems"(1) n(2) refl Some] unfolding substr_def
        by (simp only: not_less [symmetric] if_False option.case)
      from "1.IH"(2) [OF n l Some v "1.prems"(1) p] show ?thesis
        by (subst parse_headers.simps) (simp only: n l Some v if_False option.case sum.case)
    qed
  qed
qed

lemma scan_word_length: "scan_word s = Some (w, r) \<Longrightarrow> length w + length r \<le> length s"
proof -
  assume "scan_word s = Some (w, r)"
  then have "length w + length r \<le> length (dropWhile is_space s)"
    using length_takeWhile_le [of "\<lambda>c. \<not> is_space c" "dropWhile is_space s"]
    by (auto simp: scan_word_def Let_def split: if_splits)
  then show ?thesis using length_dropWhile_le [of is_space s] by simp
qed

lemma scan_sign_length: "scan_sign u = (neg, t) \<Longrightarrow> length t \<le> length u"
  by (cases u) (auto simp: scan_sign_def split: if_splits)

lemma scan_int_length: "scan_int s = Some (i, r) \<Longrightarrow> length r \<le> length s"
proof -
  assume a: "scan_int s = Some (i, r)"
  obtain neg t where st: "scan_sign (dropWhile is_space s) = (neg, t)" by (cases "scan_sign (dropWhile is_space s)")
  have "length t \<le> length (dropWhile is_space s)"
    using st by (rule scan_sign_length)
  moreover have "length r \<le> length t" using a st by (auto simp: scan_int_def Let_def split: if_splits)
  ultimately show ?thesis using length_dropWhile_le [of is_space s] by simp
qed

lemma sscanf_status_fits:
  assumes "length line \<le> MAX_URL_LEN"
  shows "\<exists>x. sscanf_status line = Inr x"
proof -
  have "length w \<le> MAX_URL_LEN" if "scan_word (drop 5 line) = Some (w, r)" for w r
    using scan_word_length [OF that] assms by simp
  moreover have "length b \<le> MAX_URL_LEN"
    if "scan_word (drop 5 line) = Some (w, r)" "scan_int r = Some (i, r')" "scan_word r' = Some (b, r'')" for w r i r' b r''
    using scan_word_length [OF that(1)] scan_int_length [OF that(2)] scan_word_length [OF that(3)] assms by simp
  ultimately show ?thesis
    unfolding sscanf_status_def by (auto split: option.splits simp: not_le [symmetric])
qed

text \<open>
  C21: the parser returns on every text whose first line fits its arrays and in which no line
  ends with a colon, whatever else the peer sent: it neither throws nor runs out of bounds.
\<close>

theorem response_parse_returns:
  assumes "\<not> sublist (CHR '':'' # CRLF) s" and "\<forall>pos. find_sub CRLF s = Some pos \<longrightarrow> pos \<le> MAX_URL_LEN"
  shows "\<exists>r'. response_parse s r = (Inr (), r')"
proof -
  let ?r = "(response_clear r)\<lparr>r_value := s\<rparr>"
  have "\<exists>r'. response_parse_value ?r = (Inr (), r')"
  proof (cases "str_find s CRLF 0")
    case None
    then show ?thesis by (simp add: response_parse_value_def)
  next
    case (Some pos)
    then have "pos \<le> MAX_URL_LEN" using assms(2) by (auto simp: str_find_def)
    then have "length (c_str (take pos s)) \<le> MAX_URL_LEN"
      unfolding c_str_def by (intro le_trans [OF length_takeWhile_le]) simp
    then obtain v c ok where sc: "sscanf_status (c_str (take pos s)) = Inr (v, c, ok)"
      using sscanf_status_fits by (metis prod_cases3)
    have "skip_newline s pos \<le> length s" using skip_newline_less [OF Some] by simp
    then obtain pos' hs where h: "parse_headers s (skip_newline s pos) (take pos s) [] = (Inr pos', hs)"
      and p: "pos' \<le> length s"
      using parse_headers_total [OF assms(1)] by meson
    have b: "substr s pos' None = Inr (drop pos' s)" using p by (simp add: substr_def)
    show ?thesis
      using Some sc h b by (simp add: response_parse_value_def Let_def response_clear_def)
  qed
  then show ?thesis by (auto simp: response_parse_def prog_simps)
qed

lemma response_parse_returns_witness: "\<exists>r'. response_parse (''ab'' @ CRLF) response_default = (Inr (), r')"
  by (rule response_parse_returns) (auto simp: CRLF_def sublist_code MAX_URL_LEN_def prefix_def)

subsection \<open>The client's requests\<close>

text \<open>
  A client whose implementation is set and whose URI is valid calls it once, parses what it
  returns into its response and gives that response to the callback; the content the callback
  sees is the body the peer wrote.
\<close>

theorem client_request_delivers:
  assumes "u_valid (c_uri c)" and "f m path (c, w) = (Inr (render_response v n reason kvs body), (c, w'))"
    and "word_ok v" and "n < 2 ^ 31" and "reason_ok reason" and "\<forall>kv\<in>set kvs. header_ok kv"
  shows "\<exists>resp. client_request (Some f) m path (Some g) (c, w) = g resp (c\<lparr>c_response := resp\<rparr>, w') \<and>
    content resp = body \<and> r_code resp = int n \<and>
    (\<forall>k. smap_get (headers resp) k = map_of (rev kvs) k)"
proof -
  let ?t = "render_response v n reason kvs body"
  let ?resp = "(c_response c)\<lparr>r_value := ?t, r_code := int n, version := v,
       headers := fold (\<lambda>(k, v). smap_put k v) kvs [], content := body\<rparr>"
  have p: "response_parse ?t (c_response c) = (Inr (), ?resp)"
    using assms(3-6) by (rule response_parse_rendered)
  have "client_request (Some f) m path (Some g) (c, w) = g ?resp (c\<lparr>c_response := ?resp\<rparr>, w')"
    using assms(1,2) p by (simp add: client_request_def prog_simps parse_into_response_def)
  moreover have "smap_get (headers ?resp) k = map_of (rev kvs) k" for k
    by (simp add: sm.get_fold_put sm.get_empty split: option.split)
  ultimately show ?thesis by auto
qed

definition canned :: "unit http_impl" where
  "canned m path = pret (render_response ''1.1'' 200 ''OK'' [(''A'', ''b'')] ''hello'')"

lemma client_request_delivers_witness:
  "\<exists>resp. client_request (Some canned) GET ''/'' (Some (\<lambda>_. pret ())) (client_of_string None ''http://h/'', world0) =
      (Inr (), ((client_of_string None ''http://h/'')\<lparr>c_response := resp\<rparr>, world0)) \<and> content resp = ''hello''"
proof -
  let ?c = "client_of_string None ''http://h/''"
  have u: "u_valid (c_uri ?c)"
    by (simp add: client_of_string_def client_of_uri_def add_header_def transfer.defs uri_valid_manual PROTOCOL_def)
  have w: "word_ok ''1.1''" "reason_ok ''OK''" "\<forall>kv\<in>set [(''A'', ''b'')]. header_ok kv"
    by (simp_all add: word_ok_def reason_ok_def header_ok_def is_space_def code_def NUL_def MAX_URL_LEN_def)
  have i: "canned GET ''/'' (?c, world0) =
      (Inr (render_response ''1.1'' 200 ''OK'' [(''A'', ''b'')] ''hello''), (?c, world0))"
    by (simp add: canned_def prog_simps)
  from client_request_delivers [where f = canned and path = "''/''", OF u i w(1) _ w(2,3), of "\<lambda>_. pret ()"]
  show ?thesis
    by (auto simp: prog_simps)
qed

text \<open>
  An invalid URI or a missing implementation is reported as the library's exception before
  anything is sent; the client and the world stay as they are.
\<close>

theorem client_request_refuses:
  assumes "impl = None \<or> \<not> u_valid (c_uri c)"
  shows "\<exists>msg. client_request impl m path callback (c, w) = (Inl (Socket_exception msg), (c, w))"
  using assms by (cases impl) (auto simp: client_request_def prog_simps)

lemma client_request_refuses_witness:
  "\<exists>msg. client_request None GET [] None (client_of_uri uri_default, world0) =
     (Inl (Socket_exception msg), (client_of_uri uri_default, world0))"
  by (rule client_request_refuses) simp

text \<open>Copy assignment leaves the response of the assigned-to client in place.\<close>

lemma client_assign_keeps_response:
  "c_response (client_assign other this) = c_response this"
  by (cases this) (simp add: client_assign_def transfer_assign_def)

text \<open>
  \<open>add_headers\<close> does not replace a header that is set, \<open>add_header\<close> does; removing undoes both.
\<close>

lemma client_headers:
  "smap_get (headers (add_header k v c)) j = (if j = k then Some v else smap_get (headers c) j)"
  "smap_get (headers (add_headers kvs c)) j =
     (case smap_get (headers c) j of Some x \<Rightarrow> Some x | None \<Rightarrow> map_of kvs j)"
  "smap_get (headers (remove_header k c)) j = (if j = k then None else smap_get (headers c) j)"
  by (simp_all add: add_header_def add_headers_def remove_header_def sm.get_put sm.get_erase
      smap_get_insert_range)

end
