(* ===== verification/Secure_Layer.thy ===== *)
theory Secure_Layer
  imports Posix
begin

section \<open>The TLS layer (\<open>secure_layer.h\<close>, \<open>secure_layer.cpp\<close>)\<close>

text \<open>
  \<open>openssl_layer\<close> owns an \<open>SSL_CTX\<close> and an \<open>SSL\<close> object, either of which may be null.
  OpenSSL itself answers through the platform.
\<close>

record ssl_layer =
  ssl_handle :: "nat option"
  ssl_context :: "nat option"

definition null_layer :: ssl_layer where
  "null_layer = \<lparr>ssl_handle = None, ssl_context = None\<rparr>"

text \<open>\<open>throw socket_exception(ERR_error_string(ERR_get_error(), NULL))\<close>.\<close>

definition ssl_throw :: "platform \<Rightarrow> ('o \<times> 'w world_scheme, 'a) prog" where
  "ssl_throw pf = pbind (wget (\<lambda>w. ssl_error pf (trace w))) (\<lambda>msg. praise (Socket_exception msg))"

definition layer_init :: "platform \<Rightarrow> (ssl_layer \<times> 'w world_scheme, unit) prog" where
  "layer_init pf =
     pthen
      (pbind (wget ssl_initialized) (\<lambda>init.
        if init then pret ()
        else pthen (call pf Ssl_library_init) (wupd (\<lambda>w. w\<lparr>ssl_initialized := True\<rparr>))))
     (pthen
      (pbind (obj ssl_context) (\<lambda>ctx. case ctx of
          Some _ \<Rightarrow> pret ()
        | None \<Rightarrow>
            pbind (ask pf (ssl_ctx_new pf) Ssl_ctx_new) (\<lambda>c.
            pthen (upd (\<lambda>l. l\<lparr>ssl_context := c\<rparr>))
              (if c = None then ssl_throw pf else pret ()))))
      (pbind (obj ssl_handle) (\<lambda>h. case h of
          Some _ \<Rightarrow> pret ()
        | None \<Rightarrow>
            pbind (obj ssl_context) (\<lambda>ctx. case ctx of
                None \<Rightarrow> praise Undefined_behaviour
              | Some c \<Rightarrow>
                  pbind (ask pf (\<lambda>tr. ssl_new pf tr c) (Ssl_new c)) (\<lambda>h'.
                  pthen (upd (\<lambda>l. l\<lparr>ssl_handle := h'\<rparr>))
                    (if h' = None then ssl_throw pf else pret ()))))))"

definition layer_shutdown :: "platform \<Rightarrow> (ssl_layer \<times> 'w world_scheme, unit) prog" where
  "layer_shutdown pf =
     pthen
      (pbind (obj ssl_handle) (\<lambda>h. case h of
          None \<Rightarrow> pret ()
        | Some p \<Rightarrow>
            pthen (call pf (Ssl_shutdown p))
           (pthen (call pf (Ssl_free p)) (upd (\<lambda>l. l\<lparr>ssl_handle := None\<rparr>)))))
      (pbind (obj ssl_context) (\<lambda>c. case c of
          None \<Rightarrow> pret ()
        | Some p \<Rightarrow> pthen (call pf (Ssl_ctx_free p)) (upd (\<lambda>l. l\<lparr>ssl_context := None\<rparr>))))"

definition layer_attach ::
  "platform \<Rightarrow> socket_fd \<Rightarrow> (ssl_layer \<times> 'w world_scheme, unit) prog" where
  "layer_attach pf sock =
     pbind (obj ssl_handle) (\<lambda>h. case h of
         None \<Rightarrow> pret ()
       | Some p \<Rightarrow>
           if sock = INVALID then pret ()
           else
             pbind (ask pf (\<lambda>tr. ssl_set_fd pf tr p sock) (Ssl_set_fd p sock)) (\<lambda>ok.
             if \<not> ok then ssl_throw pf
             else
               pbind (ask pf (\<lambda>tr. ssl_connect pf tr p) (Ssl_connect p)) (\<lambda>r.
               if r \<noteq> 1 then ssl_throw pf else pret ())))"

text \<open>\<open>SSL_write\<close> takes its length as an \<open>int\<close>.\<close>

definition layer_send ::
  "platform \<Rightarrow> byte list \<Rightarrow> (ssl_layer \<times> 'w world_scheme, int) prog" where
  "layer_send pf data =
     pbind (obj ssl_handle) (\<lambda>h. case h of
         None \<Rightarrow> pret 0
       | Some p \<Rightarrow>
           let num = cast_int (length data)
           in ask pf (\<lambda>tr. ssl_write pf tr p data num) (Ssl_write p data num))"

definition layer_read ::
  "platform \<Rightarrow> nat \<Rightarrow> (ssl_layer \<times> 'w world_scheme, int \<times> byte list) prog" where
  "layer_read pf n =
     pbind (obj ssl_handle) (\<lambda>h. case h of
         None \<Rightarrow> pret (0, [])
       | Some p \<Rightarrow>
           ask pf (\<lambda>tr. ssl_read pf tr p n) (\<lambda>(r, _). Ssl_read p n r))"

text \<open>\<open>std::make_shared<openssl_layer>()\<close>: the constructor runs \<open>init\<close> on null pointers; if it
  throws, no object exists and the destructor does not run.\<close>

definition new_layer :: "platform \<Rightarrow> ('o \<times> 'w world_scheme, ssl_layer) prog" where
  "new_layer pf = (\<lambda>(ob, w).
     case layer_init pf (null_layer, w) of
       (Inl e, (l, w')) \<Rightarrow> (Inl e, (ob, w'))
     | (Inr _, (l, w')) \<Rightarrow> (Inr l, (ob, w')))"

text \<open>Move assignment: the target is shut down, then takes the pointers of \<open>other\<close>, whose
  pointers become null. The result is \<open>other\<close> after the move.\<close>

definition layer_move_assign ::
  "platform \<Rightarrow> ssl_layer \<Rightarrow> (ssl_layer \<times> 'w world_scheme, ssl_layer) prog" where
  "layer_move_assign pf other =
     pthen (layer_shutdown pf)
    (pthen (upd (\<lambda>l. l\<lparr>ssl_handle := ssl_handle other, ssl_context := ssl_context other\<rparr>))
       (pret null_layer))"

text \<open>The move constructor: the new object and \<open>other\<close>, which no longer owns anything.\<close>

definition layer_move :: "ssl_layer \<Rightarrow> ssl_layer \<times> ssl_layer" where
  "layer_move other =
     (\<lparr>ssl_handle = ssl_handle other, ssl_context = ssl_context other\<rparr>,
      other\<lparr>ssl_handle := None, ssl_context := None\<rparr>)"

definition layer_destroy :: "platform \<Rightarrow> (ssl_layer \<times> 'w world_scheme, unit) prog" where
  "layer_destroy pf = layer_shutdown pf"

lemmas layer_defs = layer_init_def layer_shutdown_def layer_attach_def layer_send_def
  layer_read_def new_layer_def layer_move_assign_def ssl_throw_def

subsection \<open>What the layer does\<close>

lemma layer_shutdown_null [simp]: "layer_shutdown pf (null_layer, w) = (Inr (), (null_layer, w))"
  by (simp add: layer_shutdown_def null_layer_def prog_simps)

lemma layer_shutdown_result:
  "\<exists>w'. layer_shutdown pf (l, w) = (Inr (), (null_layer, w')) \<and>
     open_fds (trace w') = open_fds (trace w) \<and> wire fd (trace w') = wire fd (trace w)"
  by (cases "ssl_handle l"; cases "ssl_context l"; cases l)
    (simp_all add: layer_shutdown_def null_layer_def prog_simps)

text \<open>After a move the old object's destructor frees nothing: only the new owner does.\<close>

lemma layer_destroy_moved_from [simp]:
  "layer_destroy pf (snd (layer_move l), w) = (Inr (), (null_layer, w))"
  by (simp add: layer_destroy_def layer_move_def layer_shutdown_def null_layer_def prog_simps)

lemma layer_destroy_moved_to [simp]:
  "layer_destroy pf (fst (layer_move l), w) = layer_destroy pf (l, w)"
  by (cases l) (simp add: layer_move_def)

text \<open>No call of the layer opens or closes a descriptor.\<close>

lemma keeps_fds_ssl [hoare_rules]:
  assumes "\<And>l l' w w'. P (l, w) \<Longrightarrow> trace w' = trace w \<Longrightarrow> P (l', w')"
    and "\<And>l w ev. P (l, w) \<Longrightarrow> (\<And>M. fd_effect ev M = M) \<Longrightarrow> P (l, record_call pf ev w)"
  shows "keeps P (layer_attach pf fd)" "keeps P (layer_shutdown pf)" "keeps P (layer_send pf bs)"
    "keeps P (layer_read pf n)" "keeps P (layer_init pf)"
  unfolding layer_defs Let_def
  by (rule keeps_pbind keeps_pthen keeps_obj keeps_wget keeps_pret keeps_praise keeps_if
        keeps_ask keeps_call keeps_upd keeps_wupd assms(2) | erule assms(1)
      | simp split: option.split prod.split | intro conjI impI allI)+

end
