(* ===== verification/Socket.thy ===== *)
theory Socket
  imports Secure_Layer
begin

section \<open>The socket (\<open>socket.h\<close>, \<open>socket.cpp\<close>)\<close>

text \<open>
  The class \<open>socket\<close>: a descriptor (\<open>sock_\<close>), its address (\<open>addr_\<close>), the blocking mode
  (\<open>non_blocking_\<close>) and an optional TLS layer (\<open>ssl_\<close>). The record is extensible: derived
  classes add their fields, and every operation below works on the derived objects too. What
  is \<open>virtual\<close> in the class and called by its own operations, \<open>on_recv\<close> and \<open>close\<close>, is an
  argument of those operations.
\<close>

record socket =
  raw_sock :: socket_fd
  addr :: sockaddr
  non_blocking :: bool
  ssl :: "ssl_layer option"

type_synonym ('a, 'w, 'b) sprog = "('a socket_scheme \<times> 'w world_scheme, 'b) prog"

definition MAXRECV :: nat where "MAXRECV = 500"
definition BACKLOG_SIZE :: int where "BACKLOG_SIZE = 10"

definition socket_default :: socket where
  "socket_default = \<lparr>raw_sock = INVALID, addr = zero_addr, non_blocking = False, ssl = None\<rparr>"

definition socket_of_raw :: "socket_fd \<Rightarrow> sockaddr \<Rightarrow> socket" where
  "socket_of_raw fd a = \<lparr>raw_sock = fd, addr = a, non_blocking = False, ssl = None\<rparr>"

definition is_valid :: "'a socket_scheme \<Rightarrow> bool" where
  "is_valid s \<longleftrightarrow> raw_sock s \<noteq> INVALID"

definition socket_eq :: "'a socket_scheme \<Rightarrow> 'b socket_scheme \<Rightarrow> bool" where
  "socket_eq a b \<longleftrightarrow> raw_sock a = raw_sock b"

definition is_secure :: "'a socket_scheme \<Rightarrow> bool" where
  "is_secure s \<longleftrightarrow> ssl s \<noteq> None"

text \<open>\<open>ssl_->f(\<dots>)\<close>: an operation of the layer run on the socket's layer.\<close>

definition on_ssl :: "(ssl_layer \<times> 'w world_scheme, 'b) prog \<Rightarrow> ('a, 'w, 'b) sprog" where
  "on_ssl m = (\<lambda>(s, w). case ssl s of
      None \<Rightarrow> (Inl Undefined_behaviour, (s, w))
    | Some l \<Rightarrow> (case m (l, w) of (r, (l', w')) \<Rightarrow> (r, (s\<lparr>ssl := Some l'\<rparr>, w'))))"

text \<open>Dropping the last reference to a layer runs its destructor, which shuts it down.\<close>

definition set_ssl :: "platform \<Rightarrow> ssl_layer option \<Rightarrow> ('a, 'w, unit) sprog" where
  "set_ssl pf l =
     pthen (pbind (obj ssl) (\<lambda>old. if old = None then pret () else on_ssl (layer_shutdown pf)))
       (upd (\<lambda>s. s\<lparr>ssl := l\<rparr>))"

definition set_secure :: "platform \<Rightarrow> bool \<Rightarrow> ('a, 'w, unit) sprog" where
  "set_secure pf value =
     (if value
      then (if openssl_found pf then pbind (new_layer pf) (\<lambda>l. set_ssl pf (Some l)) else pret ())
      else set_ssl pf None)"

definition socket_close :: "platform \<Rightarrow> ('a, 'w, unit) sprog" where
  "socket_close pf =
     pthen (pbind (obj ssl) (\<lambda>l. if l = None then pret () else on_ssl (layer_shutdown pf)))
    (pthen (pbind (obj raw_sock) (\<lambda>fd.
              if fd \<noteq> INVALID
              then pthen (call pf (Sys_shutdown fd))
                  (pthen (call pf (Sys_close fd))
                     (upd (\<lambda>s. s\<lparr>raw_sock := INVALID\<rparr>)))
              else pret ()))
       (upd (\<lambda>s. s\<lparr>non_blocking := False\<rparr>)))"

text \<open>The destructor: \<open>close\<close> of this class, then the members.\<close>

definition socket_destroy :: "platform \<Rightarrow> ('a, 'w, unit) sprog" where
  "socket_destroy pf = pthen (socket_close pf) (set_ssl pf None)"

text \<open>Move construction leaves \<open>other\<close> without descriptor and layer.\<close>

definition socket_move :: "'a socket_scheme \<Rightarrow> socket \<times> 'a socket_scheme" where
  "socket_move other =
     (\<lparr>raw_sock = raw_sock other, addr = addr other, non_blocking = non_blocking other,
       ssl = ssl other\<rparr>,
      other\<lparr>raw_sock := INVALID, ssl := None\<rparr>)"

text \<open>Move assignment to a different object; the result is \<open>other\<close> after it. \<open>close()\<close> is
  virtual, the operator is \<open>noexcept\<close>.\<close>

definition socket_move_assign ::
  "platform \<Rightarrow> ('a, 'w, unit) sprog \<Rightarrow> 'b socket_scheme \<Rightarrow> ('a, 'w, 'b socket_scheme) sprog" where
  "socket_move_assign pf vclose other = pnoexcept
    (pthen vclose
    (pthen (upd (\<lambda>s. s\<lparr>raw_sock := raw_sock other, addr := addr other,
                       non_blocking := non_blocking other\<rparr>))
    (pthen (set_ssl pf (ssl other))
       (pret (other\<lparr>raw_sock := INVALID, non_blocking := False, ssl := None\<rparr>)))))"

subsection \<open>Data transmission\<close>

text \<open>
  \<open>send(const void *s, size_t len, int flags)\<close>: a null pointer is \<open>None\<close>. The result of
  \<open>::send\<close> is an \<open>ssize_t\<close> returned as an \<open>int\<close>.
\<close>

definition socket_send ::
  "platform \<Rightarrow> byte list option \<Rightarrow> int \<Rightarrow> ('a, 'w, int) sprog" where
  "socket_send pf p flags =
     pbind (obj id) (\<lambda>s.
     if \<not> is_valid s then pret INVALID
     else case p of None \<Rightarrow> pret 0 | Some bs \<Rightarrow>
       if bs = [] then pret 0
       else if ssl s \<noteq> None then on_ssl (layer_send pf bs)
       else
         let fd = raw_sock s in
         pbind (ask pf (\<lambda>tr. os_send pf tr fd bs flags) (Sys_send fd bs flags))
           (\<lambda>r. pret (to_int r)))"

definition send_buffer :: "platform \<Rightarrow> byte list \<Rightarrow> int \<Rightarrow> ('a, 'w, int) sprog" where
  "send_buffer pf bs flags = socket_send pf (Some bs) flags"

text \<open>
  \<open>recv(data_buffer &s, int flags)\<close>: the reference parameter is passed and returned. The
  local array has \<open>MAXRECV + 1\<close> bytes; a callee that claims or writes more than that
  overruns it.
\<close>

definition socket_recv ::
  "platform \<Rightarrow> (byte list \<Rightarrow> ('a, 'w, byte list) sprog) \<Rightarrow> byte list \<Rightarrow> int \<Rightarrow>
     ('a, 'w, int \<times> byte list) sprog" where
  "socket_recv pf on_recv s flags =
     pbind (obj id) (\<lambda>this.
     if \<not> is_valid this then pret (INVALID, s)
     else
       pbind
         (if ssl this \<noteq> None then on_ssl (layer_read pf MAXRECV)
          else
            let fd = raw_sock this in
            ask pf (\<lambda>tr. os_recv pf tr fd MAXRECV flags) (\<lambda>(r, _). Sys_recv fd MAXRECV flags r))
         (\<lambda>(r, data).
           let status = to_int r in
           if MAXRECV + 1 < length data \<or> int MAXRECV + 1 < status then praise Undefined_behaviour
           else if status > 0
           then
             let buf = data @ replicate (MAXRECV + 1 - length data) 0 in
             pbind (on_recv (take (nat status) buf)) (\<lambda>s'. pret (status, s'))
           else pret (status, [])))"

text \<open>\<open>socket::on_recv\<close> does nothing.\<close>

definition socket_on_recv :: "byte list \<Rightarrow> ('a, 'w, byte list) sprog" where
  "socket_on_recv s = pret s"

definition socket_write_op :: "platform \<Rightarrow> byte list \<Rightarrow> ('a, 'w, unit) sprog" where
  "socket_write_op pf s =
     pbind (send_buffer pf s 0) (\<lambda>r.
     if r < 0 then praise (Socket_exception ''Could not write to socket.'') else pret ())"

definition socket_read_op ::
  "platform \<Rightarrow> (byte list \<Rightarrow> ('a, 'w, byte list) sprog) \<Rightarrow> byte list \<Rightarrow> ('a, 'w, byte list) sprog"
where
  "socket_read_op pf on_recv s =
     pbind (socket_recv pf on_recv s 0) (\<lambda>(r, s').
     if r < 0 then praise (Socket_exception ''Could not read from socket'') else pret s')"

subsection \<open>Address\<close>

definition socket_ip :: "platform \<Rightarrow> 'a socket_scheme \<Rightarrow> string" where
  "socket_ip pf s =
     (if \<not> is_valid s then ''invalid''
      else if ss_family (addr s) = AF_INET then os_ntop pf AF_INET (sin_addr (addr s))
      else if ss_family (addr s) = AF_INET6 then os_ntop pf AF_INET6 (sin_addr (addr s))
      else ''unknown'')"

definition socket_port :: "'a socket_scheme \<Rightarrow> int" where
  "socket_port s = (if \<not> is_valid s then INVALID else ntohs (sin_port (addr s)))"

subsection \<open>Connecting and listening\<close>

text \<open>The port as \<open>snprintf(servnam, 100, "%d", port)\<close> renders it.\<close>

definition servnam :: "int \<Rightarrow> string" where
  "servnam port = snprintf 100 (dec_int port)"

text \<open>The \<open>for\<close> loop over the addresses: the entry that was connected, or null.\<close>

fun connect_loop :: "platform \<Rightarrow> addrinfo list \<Rightarrow> ('a, 'w, addrinfo option) sprog" where
  "connect_loop pf [] = pret None"
| "connect_loop pf (p # ps) =
     pbind (ask pf (\<lambda>tr. os_socket pf tr p) (Sys_socket (ai_family p) (ai_socktype p) (ai_protocol p)))
       (\<lambda>sock.
       if sock = INVALID then connect_loop pf ps
       else
         pbind (ask pf (\<lambda>tr. os_connect pf tr sock (ai_addr p)) (Sys_connect sock (ai_addr p)))
           (\<lambda>r.
           if r \<noteq> INVALID
           then pthen (upd (\<lambda>s. s\<lparr>raw_sock := sock\<rparr>)) (pret (Some p))
           else pthen (call pf (Sys_close sock)) (connect_loop pf ps)))"

definition attach_ssl :: "platform \<Rightarrow> ('a, 'w, unit) sprog" where
  "attach_ssl pf =
     pbind (obj id) (\<lambda>s. if ssl s = None then pret () else on_ssl (layer_attach pf (raw_sock s)))"

definition finish_connect :: "platform \<Rightarrow> addrinfo option \<Rightarrow> ('a, 'w, bool) sprog" where
  "finish_connect pf found =
     pbind (obj is_valid) (\<lambda>v.
     case found of
       Some p \<Rightarrow>
         if \<not> v then pthen (call pf Sys_freeaddrinfo) (pret False)
         else
           pthen (upd (\<lambda>s. s\<lparr>addr := ai_addr p\<rparr>))
          (pthen (call pf Sys_freeaddrinfo)
          (pthen (attach_ssl pf) (pret True)))
     | None \<Rightarrow> pthen (call pf Sys_freeaddrinfo) (pret False))"

definition socket_connect ::
  "platform \<Rightarrow> ('a, 'w, unit) sprog \<Rightarrow> string \<Rightarrow> int \<Rightarrow> ('a, 'w, bool) sprog" where
  "socket_connect pf vclose host port =
     pbind (ask pf (\<lambda>tr. os_getaddrinfo pf tr (Some (c_str host)) (servnam port))
              (\<lambda>(r, _). Sys_getaddrinfo (Some (c_str host)) (servnam port) r))
       (\<lambda>(r, result).
       if r \<noteq> 0 then pret False
       else
         pthen (pbind (obj is_valid) (\<lambda>v. if v then vclose else pret ()))
           (pbind (connect_loop pf result) (finish_connect pf)))"

text \<open>
  The constructor from a host and port; virtual calls in it reach this class only. When it
  throws there is no object: its members are destroyed, the destructor does not run.
\<close>

definition socket_open ::
  "platform \<Rightarrow> string \<Rightarrow> int \<Rightarrow> bool \<Rightarrow> 'w world_scheme \<Rightarrow> (exn + socket) \<times> 'w world_scheme"
where
  "socket_open pf host port secure w =
     (case pthen (set_secure pf secure) (socket_connect pf (socket_close pf) host port)
             (socket_default, w) of
        (Inr connected, (s, w')) \<Rightarrow> (Inr s, w')
      | (Inl e, (s, w')) \<Rightarrow> (Inl e, snd (snd (set_ssl pf None (s, w')))))"

fun listen_loop :: "platform \<Rightarrow> addrinfo list \<Rightarrow> ('a, 'w, addrinfo option) sprog" where
  "listen_loop pf [] = pret None"
| "listen_loop pf (p # ps) =
     pbind (ask pf (\<lambda>tr. os_socket pf tr p) (Sys_socket (ai_family p) (ai_socktype p) (ai_protocol p)))
       (\<lambda>sock.
       if sock = INVALID then listen_loop pf ps
       else
         pbind (ask pf (\<lambda>tr. os_setsockopt pf tr sock) (Sys_setsockopt sock)) (\<lambda>r.
         if r = -1 then pthen (call pf (Sys_close sock)) (listen_loop pf ps)
         else
           pbind (ask pf (\<lambda>tr. os_bind pf tr sock (ai_addr p)) (Sys_bind sock (ai_addr p))) (\<lambda>b.
           if b = 0
           then pthen (upd (\<lambda>s. s\<lparr>raw_sock := sock\<rparr>)) (pret (Some p))
           else pthen (call pf (Sys_close sock)) (listen_loop pf ps))))"

definition finish_listen :: "platform \<Rightarrow> int \<Rightarrow> addrinfo option \<Rightarrow> ('a, 'w, bool) sprog" where
  "finish_listen pf backlog found =
     pbind (obj is_valid) (\<lambda>v.
     case found of
       Some p \<Rightarrow>
         if \<not> v then pthen (call pf Sys_freeaddrinfo) (pret False)
         else
           pthen (upd (\<lambda>s. s\<lparr>addr := ai_addr p\<rparr>))
          (pthen (call pf Sys_freeaddrinfo)
          (pbind (obj raw_sock) (\<lambda>fd.
           pbind (ask pf (\<lambda>tr. os_listen pf tr fd backlog) (Sys_listen fd backlog)) (\<lambda>r.
           if r = -1 then pret False
           else pthen (attach_ssl pf) (pret True)))))
     | None \<Rightarrow> pthen (call pf Sys_freeaddrinfo) (pret False))"

definition socket_listen :: "platform \<Rightarrow> int \<Rightarrow> int \<Rightarrow> ('a, 'w, bool) sprog" where
  "socket_listen pf port backlog =
     pbind (ask pf (\<lambda>tr. os_getaddrinfo pf tr None (servnam port))
              (\<lambda>(r, _). Sys_getaddrinfo None (servnam port) r))
       (\<lambda>(r, result).
       if r \<noteq> 0 then praise (Socket_exception (os_gai_strerror pf r))
       else if result = [] then praise (Socket_exception ''unable to get address info'')
       else pbind (listen_loop pf result) (finish_listen pf backlog))"

definition socket_accept :: "platform \<Rightarrow> ('a, 'w, socket_fd \<times> sockaddr) sprog" where
  "socket_accept pf =
     pbind (obj raw_sock) (\<lambda>fd.
       ask pf (\<lambda>tr. os_accept pf tr fd) (\<lambda>(r, _). Sys_accept fd r))"

unbundle bit_operations_syntax

definition set_non_blocking :: "platform \<Rightarrow> bool \<Rightarrow> ('a, 'w, unit) sprog" where
  "set_non_blocking pf b =
     pbind (obj raw_sock) (\<lambda>fd.
     pbind (ask pf (\<lambda>tr. os_fcntl_get pf tr fd) (Sys_fcntl_get fd)) (\<lambda>opts.
     if opts < 0 then pret ()
     else
       let opts' = (if b then opts OR O_NONBLOCK else opts AND NOT O_NONBLOCK) in
       pthen (call pf (Sys_fcntl_set fd opts'))
         (upd (\<lambda>s. s\<lparr>non_blocking := b\<rparr>))))"

end
