(* ===== verification/Socket_Facts.thy ===== *)
theory Socket_Facts
  imports Socket
begin

section \<open>Descriptors: what a socket owns\<close>

text \<open>
  Resource safety of the socket class: at any time the process holds exactly the descriptors
  it held outside the socket, and the socket's own one while it is valid. Listening is the
  operation that breaks this when the socket is already open.
\<close>

definition owns :: "socket_fd multiset \<Rightarrow> 'a socket_scheme \<times> 'w world_scheme \<Rightarrow> bool" where
  "owns B = (\<lambda>(s, w). open_fds (trace w) = B + (if is_valid s then {#raw_sock s#} else {#}))"

text \<open>The descriptor that an object holds.\<close>

definition held :: "'a socket_scheme \<Rightarrow> socket_fd multiset" where
  "held s = (if is_valid s then {#raw_sock s#} else {#})"

lemma held_invalid [simp]: "\<not> is_valid s \<Longrightarrow> held s = {#}"
  by (simp add: held_def)

lemma owns_held: "owns B (s, w) \<longleftrightarrow> open_fds (trace w) = B + held s"
  by (simp add: owns_def held_def)

lemma keeps_layer_fds:
  "keeps (\<lambda>(l, w). open_fds (trace w) = M) (layer_attach pf fd)"
  "keeps (\<lambda>(l, w). open_fds (trace w) = M) (layer_shutdown pf)"
  "keeps (\<lambda>(l, w). open_fds (trace w) = M) (layer_send pf bs)"
  "keeps (\<lambda>(l, w). open_fds (trace w) = M) (layer_read pf n)"
  "keeps (\<lambda>(l, w). open_fds (trace w) = M) (layer_init pf)"
  by (rule keeps_fds_ssl; auto)+

text \<open>An operation of the layer leaves the socket's other fields and the descriptors alone.\<close>

lemma on_ssl_same:
  assumes "on_ssl m (s, w) = (r, (s', w'))"
    and "\<And>M. keeps (\<lambda>(l, w). open_fds (trace w) = M) m"
  shows "\<exists>l. s' = s\<lparr>ssl := l\<rparr>" "open_fds (trace w') = open_fds (trace w)"
proof -
  show "\<exists>l. s' = s\<lparr>ssl := l\<rparr>"
    using assms(1) by (auto simp: on_ssl_def split: option.splits prod.splits intro: exI [of _ "ssl s"])
  show "open_fds (trace w') = open_fds (trace w)"
  proof (cases "ssl s")
    case None
    with assms(1) show ?thesis by (simp add: on_ssl_def)
  next
    case (Some l)
    with assms(1) obtain l' where "m (l, w) = (r, (l', w'))"
      by (auto simp: on_ssl_def split: prod.splits)
    with keeps_snd [OF assms(2) [of "open_fds (trace w)"], of "(l, w)"] show ?thesis by simp
  qed
qed

lemma keeps_owns_on_ssl:
  assumes "\<And>M. keeps (\<lambda>(l, w). open_fds (trace w) = M) m"
  shows "keeps (owns B) (on_ssl m)"
proof (rule hoareI)
  fix sw x sw' assume "owns B sw" and "on_ssl m sw = (Inr x, sw')"
  then show "owns B sw'"
    using on_ssl_same [OF _ assms] by (cases sw; cases sw') (fastforce simp: owns_def is_valid_def)
next
  fix sw e sw' assume "owns B sw" and "on_ssl m sw = (Inl e, sw')"
  then show "owns B sw'"
    using on_ssl_same [OF _ assms] by (cases sw; cases sw') (fastforce simp: owns_def is_valid_def)
qed

lemma keeps_owns_upd:
  "(\<And>s. raw_sock (f s) = raw_sock s) \<Longrightarrow> keeps (owns B) (upd f)"
  by (rule keeps_upd) (simp add: owns_def is_valid_def)

lemma keeps_owns_call: "(\<And>M. fd_effect ev M = M) \<Longrightarrow> keeps (owns B) (call pf ev)"
  by (rule keeps_call) (simp add: owns_def)

lemma keeps_owns_ask: "(\<And>r M. fd_effect (ev r) M = M) \<Longrightarrow> keeps (owns B) (ask pf answer ev)"
  by (rule keeps_ask) (simp add: owns_def)

lemma keeps_owns_set_ssl [hoare_rules]: "keeps (owns B) (set_ssl pf l)"
  unfolding set_ssl_def
  by (intro hoare_rules keeps_owns_on_ssl keeps_layer_fds keeps_owns_upd) simp

lemma keeps_owns_attach [hoare_rules]: "keeps (owns B) (attach_ssl pf)"
  unfolding attach_ssl_def
  by (intro hoare_rules keeps_owns_on_ssl keeps_layer_fds)

lemma new_layer_same:
  assumes "new_layer pf (s, w) = (r, (s', w'))"
  shows "s' = s" "open_fds (trace w') = open_fds (trace w)"
proof -
  obtain r1 l1 w1 where i: "layer_init pf (null_layer, w) = (r1, (l1, w1))"
    by (cases "layer_init pf (null_layer, w)") auto
  have fds: "open_fds (trace w1) = open_fds (trace w)"
    using keeps_snd [OF keeps_layer_fds(5) [of "open_fds (trace w)" pf], of "(null_layer, w)"] i
    by simp
  have "s' = s \<and> w' = w1"
    using assms i by (cases r1) (simp_all add: new_layer_def)
  with fds show "s' = s" "open_fds (trace w') = open_fds (trace w)"
    by simp_all
qed

lemma keeps_owns_new_layer [hoare_rules]: "keeps (owns B) (new_layer pf)"
  by (rule hoareI) (auto simp: owns_def new_layer_same(2) dest: new_layer_same(1))

lemma keeps_owns_set_secure [hoare_rules]: "keeps (owns B) (set_secure pf v)"
  unfolding set_secure_def by (intro hoare_rules)

text \<open>Closing returns the descriptor and makes the socket invalid; it never throws.\<close>

lemma socket_close_spec:
  assumes "owns B (s, w)"
  shows "\<exists>s' w'. socket_close pf (s, w) = (Inr (), (s', w')) \<and> owns B (s', w') \<and>
    \<not> is_valid s' \<and> \<not> non_blocking s' \<and> (ssl s' = map_option (\<lambda>_. null_layer) (ssl s))"
proof (cases "ssl s")
  case None
  with assms show ?thesis
    by (cases "raw_sock s = INVALID") (auto simp: socket_close_def prog_simps owns_def is_valid_def)
next
  case (Some l)
  from layer_shutdown_result [of pf l w 0] obtain w1 where
    w1: "layer_shutdown pf (l, w) = (Inr (), (null_layer, w1))"
    "open_fds (trace w1) = open_fds (trace w)" by auto
  with Some assms show ?thesis
    by (cases "raw_sock s = INVALID")
      (auto simp: socket_close_def prog_simps owns_def is_valid_def on_ssl_def)
qed

lemma keeps_owns_close [hoare_rules]: "keeps (owns B) (socket_close pf)"
proof (rule hoareI)
  fix sw x sw' assume "owns B sw" "socket_close pf sw = (Inr x, sw')"
  then show "owns B sw'" using socket_close_spec [of B "fst sw" "snd sw" pf] by auto
next
  fix sw e sw' assume "owns B sw" "socket_close pf sw = (Inl e, sw')"
  then show "owns B sw'" using socket_close_spec [of B "fst sw" "snd sw" pf] by auto
qed

lemma connect_loop_owns:
  assumes "owns B (s, w)" and "\<not> is_valid s" and "connect_loop pf ps (s, w) = (r, sw')"
  shows "owns B sw' \<and> (\<exists>found. r = Inr found)"
  using assms
proof (induction ps arbitrary: s w)
  case Nil
  then show ?case by (auto simp: prog_simps)
next
  case (Cons p ps)
  show ?case
  proof (cases "os_socket pf (trace w) p = INVALID")
    case True
    with Cons.prems(3) have "connect_loop pf ps
        (s, record_call pf (Sys_socket (ai_family p) (ai_socktype p) (ai_protocol p) INVALID) w) = (r, sw')"
      by (simp add: prog_simps)
    with Cons.prems(1,2) show ?thesis by (intro Cons.IH) (auto simp: owns_def)
  next
    case False
    define sock where "sock = os_socket pf (trace w) p"
    define w1 where
      "w1 = record_call pf (Sys_socket (ai_family p) (ai_socktype p) (ai_protocol p) sock) w"
    define c where "c = os_connect pf (trace w1) sock (ai_addr p)"
    define w2 where "w2 = record_call pf (Sys_connect sock (ai_addr p) c) w1"
    have run: "connect_loop pf (p # ps) (s, w) =
        (if c \<noteq> INVALID then (Inr (Some p), (s\<lparr>raw_sock := sock\<rparr>, w2))
         else connect_loop pf ps (s, record_call pf (Sys_close sock) w2))"
      using False by (simp add: prog_simps sock_def w1_def w2_def c_def)
    show ?thesis
    proof (cases "c = INVALID")
      case True
      with run Cons.prems(3) have
        "connect_loop pf ps (s, record_call pf (Sys_close sock) w2) = (r, sw')" by simp
      with Cons.prems(1,2) False show ?thesis
        by (intro Cons.IH) (auto simp: owns_def w1_def w2_def sock_def)
    next
      case False
      with run Cons.prems \<open>os_socket pf (trace w) p \<noteq> INVALID\<close> show ?thesis
        by (auto simp: owns_def is_valid_def w1_def w2_def sock_def)
    qed
  qed
qed

lemma keeps_owns_finish_connect [hoare_rules]: "keeps (owns B) (finish_connect pf found)"
  unfolding finish_connect_def
  by (cases found) (auto intro!: hoare_rules keeps_owns_call keeps_owns_upd)

text \<open>
  Operations that close the socket first call the virtual \<open>close\<close>, which may be the buffered
  socket's, with its listeners. What they rely on is the contract of this interface: it
  releases the descriptor, or throws and keeps the socket's account of it right.
\<close>

locale closing =
  fixes vclose :: "('a, 'w, unit) sprog"
  assumes releases:
    "hoare (owns B) vclose (\<lambda>_ sw. owns B sw \<and> \<not> is_valid (fst sw)) (\<lambda>_. owns B)"
begin

lemma keeps_vclose: "keeps (owns B) vclose"
  by (rule hoareI) (auto dest: hoare_Inr [OF releases] hoare_Inl [OF releases])

lemma keeps_connect: "keeps (owns B) (socket_connect pf vclose host port)"
proof -
  let ?inv = "\<lambda>sw :: 'a socket_scheme \<times> 'b world_scheme. owns B sw \<and> \<not> is_valid (fst sw)"
  have guard: "hoare (owns B) (pbind (obj is_valid) (\<lambda>v. if v then vclose else pret ()))
      (\<lambda>_. ?inv) (\<lambda>_. owns B)"
  proof (rule hoareI)
    fix sw x sw' assume "owns B sw"
      and "pbind (obj is_valid) (\<lambda>v. if v then vclose else pret ()) sw = (Inr x, sw')"
    then show "?inv sw'"
      using hoare_Inr [OF releases] by (cases sw) (auto simp: prog_simps split: if_splits)
  next
    fix sw e sw' assume "owns B sw"
      and "pbind (obj is_valid) (\<lambda>v. if v then vclose else pret ()) sw = (Inl e, sw')"
    then show "owns B sw'"
      using hoare_Inl [OF releases] by (cases sw) (auto simp: prog_simps split: if_splits)
  qed
  have loop: "hoare ?inv (connect_loop pf ps) (\<lambda>_. owns B) (\<lambda>_. owns B)" for ps
    by (rule hoareI) (auto dest: connect_loop_owns)
  have body: "keeps (owns B) (pthen (pbind (obj is_valid) (\<lambda>v. if v then vclose else pret ()))
      (pbind (connect_loop pf ps) (finish_connect pf)))" for ps
    unfolding pthen_def
    by (intro hoare_pbind [OF guard] hoare_pbind [OF loop] keeps_owns_finish_connect)
  show ?thesis
    unfolding socket_connect_def
  proof (rule keeps_pbind)
    show "keeps (owns B) (ask pf (\<lambda>tr. os_getaddrinfo pf tr (Some (c_str host)) (servnam port))
        (\<lambda>(r, _). Sys_getaddrinfo (Some (c_str host)) (servnam port) r))"
      by (rule keeps_owns_ask) (auto split: prod.split)
  next
    fix x :: "int \<times> addrinfo list"
    show "keeps (owns B) (case x of (r, result) \<Rightarrow> if r \<noteq> 0 then pret False
        else pthen (pbind (obj is_valid) (\<lambda>v. if v then vclose else pret ()))
               (pbind (connect_loop pf result) (finish_connect pf)))"
      by (cases x) (simp add: keeps_pret body)
  qed
qed

lemma move_assign_owns:
  assumes "owns (B + (if is_valid other then {#raw_sock other#} else {#})) sw"
    and "socket_move_assign pf vclose other sw = (Inr other', sw')"
  shows "owns B sw' \<and> \<not> is_valid other' \<and> raw_sock (fst sw') = raw_sock other"
proof -
  obtain s1 w1 where c: "vclose sw = (Inr (), (s1, w1))"
    using assms(2) by (auto simp: socket_move_assign_def prog_simps split: prod.splits sum.splits)
  with hoare_Inr [OF releases assms(1) c] have o1:
    "open_fds (trace w1) = B + (if is_valid other then {#raw_sock other#} else {#})"
    by (simp add: owns_def)
  let ?s2 = "s1\<lparr>raw_sock := raw_sock other, addr := addr other, non_blocking := non_blocking other\<rparr>"
  obtain s3 w3 where f: "set_ssl pf (ssl other) (?s2, w1) = (Inr (), (s3, w3))"
    and sw': "sw' = (s3, w3)" and other': "raw_sock other' = INVALID"
    using assms(2) c by (cases sw') (auto simp: socket_move_assign_def prog_simps split: prod.splits sum.splits)
  have "owns B (?s2, w1)" using o1 by (simp add: owns_def is_valid_def)
  with keeps_snd [OF keeps_owns_set_ssl this, of pf "ssl other"] f have "owns B (s3, w3)" by simp
  moreover have "raw_sock s3 = raw_sock other"
    using f by (auto simp: set_ssl_def prog_simps on_ssl_def split: if_splits option.splits prod.splits sum.splits)
  ultimately show ?thesis using sw' other' by (simp add: is_valid_def)
qed

end

lemma socket_close_hoare:
  "hoare (owns B) (socket_close pf) (\<lambda>_ sw. owns B sw \<and> \<not> is_valid (fst sw)) (\<lambda>_. owns B)"
proof (rule hoareI)
  fix sw x sw' assume "owns B sw" "socket_close pf sw = (Inr x, sw')"
  then show "owns B sw' \<and> \<not> is_valid (fst sw')"
    using socket_close_spec [of B "fst sw" "snd sw" pf] by auto
next
  fix sw e sw' assume "owns B sw" "socket_close pf sw = (Inl e, sw')"
  then show "owns B sw'" using socket_close_spec [of B "fst sw" "snd sw" pf] by auto
qed

interpretation plain: closing "socket_close pf" for pf
  by unfold_locales (rule socket_close_hoare)

lemma keeps_owns_send [hoare_rules]: "keeps (owns B) (socket_send pf p flags)"
  unfolding socket_send_def Let_def
  by (cases p) (auto intro!: hoare_rules keeps_owns_on_ssl keeps_layer_fds keeps_owns_ask)

lemma keeps_owns_recv:
  assumes "\<And>chunk. keeps (owns B) (on_recv chunk)"
  shows "keeps (owns B) (socket_recv pf on_recv chunk flags)"
  unfolding socket_recv_def Let_def
  by (auto intro!: hoare_rules keeps_owns_on_ssl keeps_layer_fds keeps_owns_ask assms)

lemma keeps_owns_non_blocking [hoare_rules]: "keeps (owns B) (set_non_blocking pf b)"
  unfolding set_non_blocking_def Let_def
  by (auto intro!: hoare_rules keeps_owns_ask keeps_owns_call keeps_owns_upd)

subsection \<open>A session: any sequence of operations\<close>

datatype sock_op =
    Do_connect string int
  | Do_close
  | Do_send "byte list" int
  | Do_recv int
  | Do_secure bool
  | Do_non_blocking bool

fun exec_op :: "platform \<Rightarrow> sock_op \<Rightarrow> ('a, 'w, unit) sprog" where
  "exec_op pf (Do_connect h p) = pthen (socket_connect pf (socket_close pf) h p) (pret ())"
| "exec_op pf Do_close = socket_close pf"
| "exec_op pf (Do_send bs fl) = pthen (send_buffer pf bs fl) (pret ())"
| "exec_op pf (Do_recv fl) = pthen (socket_recv pf socket_on_recv [] fl) (pret ())"
| "exec_op pf (Do_secure b) = set_secure pf b"
| "exec_op pf (Do_non_blocking b) = set_non_blocking pf b"

text \<open>The caller may handle an exception and go on with the next operation.\<close>

fun run_ops ::
  "platform \<Rightarrow> sock_op list \<Rightarrow> 'a socket_scheme \<times> 'w world_scheme \<Rightarrow> 'a socket_scheme \<times> 'w world_scheme"
where
  "run_ops pf [] sw = sw"
| "run_ops pf (x # xs) sw = run_ops pf xs (snd (exec_op pf x sw))"

lemma keeps_owns_exec: "keeps (owns B) (exec_op pf x)"
  by (cases x)
    (auto simp: send_buffer_def socket_on_recv_def intro!: hoare_rules keeps_owns_recv
      plain.keeps_connect)

lemma run_ops_owns: "owns B sw \<Longrightarrow> owns B (run_ops pf xs sw)"
proof (induction xs arbitrary: sw)
  case Nil
  then show ?case by simp
next
  case (Cons x xs)
  have "owns B (snd (exec_op pf x sw))"
    using keeps_owns_exec Cons.prems by (rule keeps_snd)
  then show ?case by (simp add: Cons.IH)
qed

lemma socket_default_owns: "owns (open_fds (trace w)) (socket_default, w)"
  by (simp add: owns_def is_valid_def socket_default_def)

subsection \<open>Listening\<close>

lemma listen_loop_fds:
  assumes "listen_loop pf ps (s, w) = (r, (s', w'))"
  shows "(r = Inr None \<and> s' = s \<and> open_fds (trace w') = open_fds (trace w)) \<or>
    (\<exists>p fd. r = Inr (Some p) \<and> fd \<noteq> INVALID \<and> s' = s\<lparr>raw_sock := fd\<rparr> \<and>
       open_fds (trace w') = add_mset fd (open_fds (trace w)))"
  using assms
proof (induction ps arbitrary: w)
  case Nil
  then show ?case by (auto simp: prog_simps)
next
  case (Cons p ps)
  define sock where "sock = os_socket pf (trace w) p"
  define w1 where
    "w1 = record_call pf (Sys_socket (ai_family p) (ai_socktype p) (ai_protocol p) sock) w"
  define o1 where "o1 = os_setsockopt pf (trace w1) sock"
  define w2 where "w2 = record_call pf (Sys_setsockopt sock o1) w1"
  define b where "b = os_bind pf (trace w2) sock (ai_addr p)"
  define w3 where "w3 = record_call pf (Sys_bind sock (ai_addr p) b) w2"
  have run: "listen_loop pf (p # ps) (s, w) =
      (if sock = INVALID then listen_loop pf ps (s, w1)
       else if o1 = -1 then listen_loop pf ps (s, record_call pf (Sys_close sock) w2)
       else if b = 0 then (Inr (Some p), (s\<lparr>raw_sock := sock\<rparr>, w3))
       else listen_loop pf ps (s, record_call pf (Sys_close sock) w3))"
    by (simp add: prog_simps sock_def w1_def w2_def w3_def o1_def b_def)
  consider "sock = INVALID" | "sock \<noteq> INVALID" "o1 = -1" | "sock \<noteq> INVALID" "o1 \<noteq> -1" "b = 0"
    | "sock \<noteq> INVALID" "o1 \<noteq> -1" "b \<noteq> 0" by blast
  then show ?case
  proof cases
    case 1
    then show ?thesis using Cons.IH [of w1] Cons.prems run by (simp add: w1_def)
  next
    case 2
    then show ?thesis using Cons.IH [of "record_call pf (Sys_close sock) w2"] Cons.prems run
      by (simp add: w2_def w1_def)
  next
    case 3
    then show ?thesis using Cons.prems run by (auto simp: w3_def w2_def w1_def)
  next
    case 4
    then show ?thesis using Cons.IH [of "record_call pf (Sys_close sock) w3"] Cons.prems run
      by (simp add: w3_def w2_def w1_def)
  qed
qed

lemma listen_owns:
  "hoare (\<lambda>sw. owns B sw \<and> \<not> is_valid (fst sw)) (socket_listen pf port backlog) (\<lambda>_. owns B) (\<lambda>_. owns B)"
proof -
  let ?inv = "\<lambda>sw :: 'a socket_scheme \<times> 'b world_scheme. owns B sw \<and> \<not> is_valid (fst sw)"
  have loop: "hoare ?inv (listen_loop pf ps) (\<lambda>_. owns B) (\<lambda>_. owns B)" for ps
    by (rule hoareI; drule (1) conjI) (fastforce simp: owns_def is_valid_def dest!: listen_loop_fds)+
  have finish: "keeps (owns B) (finish_listen pf backlog found)" for found
    unfolding finish_listen_def
    by (cases found) (auto intro!: hoare_rules keeps_owns_call keeps_owns_upd keeps_owns_ask)
  have "hoare ?inv (ask pf (\<lambda>tr. os_getaddrinfo pf tr None (servnam port)) (\<lambda>(r, _). Sys_getaddrinfo None (servnam port) r))
      (\<lambda>_. ?inv) (\<lambda>_. owns B)"
    by (rule hoareI) (auto simp: ask_def prog_simps owns_def split: prod.splits)
  then show ?thesis
    unfolding socket_listen_def
  proof (rule hoare_pbind)
    fix x :: "int \<times> addrinfo list"
    obtain r res where x: "x = (r, res)" by (cases x)
    show "hoare ?inv (case x of (r, result) \<Rightarrow>
        if r \<noteq> 0 then praise (Socket_exception (os_gai_strerror pf r))
        else if result = [] then praise (Socket_exception ''unable to get address info'')
        else pbind (listen_loop pf result) (finish_listen pf backlog)) (\<lambda>_. owns B) (\<lambda>_. owns B)"
      using hoare_pbind [OF loop finish] unfolding x by (auto simp: hoare_def praise_def)
  qed
qed

subsection \<open>The socket's guarantees\<close>

text \<open>
  whatever the kernel, OpenSSL and the peer answer, and whatever sequence of connects,
  closes, sends, receives and mode changes a client runs on a socket, including calls that
  throw, the process holds exactly the descriptors it held before and the socket's own one
  while it is valid.
\<close>

theorem socket_session_owns:
  "open_fds (trace (snd (run_ops pf ops (socket_default, w)))) =
     open_fds (trace w) +
     (if is_valid (fst (run_ops pf ops (socket_default, w)))
      then {#raw_sock (fst (run_ops pf ops (socket_default, w)))#} else {#})"
  using run_ops_owns [OF socket_default_owns, of w pf ops]
  by (cases "run_ops pf ops (socket_default, w)") (simp add: owns_def)

lemma destroy_releases:
  assumes "owns B sw"
  shows "open_fds (trace (snd (snd (socket_destroy pf sw)))) = B"
proof -
  obtain s w where sw: "sw = (s, w)" by (cases sw)
  then obtain s2 w2 where c: "socket_close pf (s, w) = (Inr (), (s2, w2))"
    and o2: "owns B (s2, w2)" and inv: "\<not> is_valid s2"
    using socket_close_spec assms by blast
  obtain r s3 w3 where f: "set_ssl pf None (s2, w2) = (r, (s3, w3))"
    by (cases "set_ssl pf None (s2, w2)") auto
  have "raw_sock s3 = raw_sock s2"
    using f by (auto simp: set_ssl_def prog_simps on_ssl_def split: if_splits option.splits prod.splits sum.splits)
  moreover have "owns B (s3, w3)"
    using keeps_snd [OF keeps_owns_set_ssl o2, of pf None] f by simp
  ultimately show ?thesis
    using inv by (simp add: socket_destroy_def prog_simps sw c f owns_def is_valid_def)
qed

text \<open>
  A socket that goes out of scope leaks nothing: after any session, the destructor leaves
  the process with the descriptors it had before the socket existed.
\<close>

theorem socket_lifetime_no_leak:
  "open_fds (trace (snd (snd (socket_destroy pf (run_ops pf ops (socket_default, w)))))) =
     open_fds (trace w)"
  by (rule destroy_releases) (rule run_ops_owns [OF socket_default_owns])

text \<open>
  \<open>listen\<close> does not release a descriptor the socket already has: on a valid socket, a
  \<open>listen\<close> that finds an address to bind leaves the old descriptor open with nothing
  referring to it.
\<close>

theorem listen_leaks_open_socket:
  assumes "owns B (s, w)" and "is_valid s"
    and "socket_listen pf port backlog (s, w) = (Inr True, (s', w'))"
  shows "open_fds (trace w') = B + {#raw_sock s#} + {#raw_sock s'#}"
proof -
  define tr where "tr = trace w"
  obtain r0 ais where gai: "os_getaddrinfo pf (trace w) None (servnam port) = (r0, ais)"
    by (cases "os_getaddrinfo pf (trace w) None (servnam port)")
  let ?w1 = "record_call pf (Sys_getaddrinfo None (servnam port) r0) w"
  obtain r1 s1 w2 where lp: "listen_loop pf ais (s, ?w1) = (r1, (s1, w2))"
    by (cases "listen_loop pf ais (s, ?w1)") auto
  from assms(3) gai lp have fin: "r0 = 0" "\<exists>found. r1 = Inr found \<and>
      finish_listen pf backlog found (s1, w2) = (Inr True, (s', w'))"
    by (auto simp: socket_listen_def prog_simps split: if_splits sum.splits)
  then obtain found where found: "r1 = Inr found"
    and f: "finish_listen pf backlog found (s1, w2) = (Inr True, (s', w'))" by auto
  from f obtain p where p: "found = Some p" and v: "is_valid s1"
    by (cases found) (auto simp: finish_listen_def prog_simps split: if_splits)
  from listen_loop_fds [OF lp] found p obtain fd where
    fd: "fd \<noteq> INVALID" "s1 = s\<lparr>raw_sock := fd\<rparr>"
      "open_fds (trace w2) = add_mset fd (open_fds (trace w))" by auto
  have "owns (B + {#raw_sock s#}) (s1, w2)"
    using assms(1,2) fd by (simp add: owns_def is_valid_def)
  moreover have k: "keeps (owns (B + {#raw_sock s#}))
      (finish_listen pf backlog found :: ('a, 'b, bool) sprog)"
    unfolding finish_listen_def
    by (cases found) (auto intro!: hoare_rules keeps_owns_call keeps_owns_upd keeps_owns_ask)
  ultimately have "owns (B + {#raw_sock s#}) (s', w')"
    using f by (auto dest: hoare_Inr)
  moreover have "is_valid s'"
    using f v p by (auto simp: finish_listen_def attach_ssl_def on_ssl_def is_valid_def prog_simps
        split: if_splits option.splits prod.splits sum.splits)
  ultimately show ?thesis by (simp add: owns_def)
qed

definition open_sock :: socket where
  "open_sock = socket_of_raw 5 local_addr"

definition open_world :: world where
  "open_world = world0\<lparr>trace := [Sys_accept 3 5]\<rparr>"

lemma listen_leaks_open_socket_witness:
  "\<exists>s' w'. socket_listen granting 80 10 (open_sock, open_world) = (Inr True, (s', w')) \<and>
     open_fds (trace w') = {#} + {#5#} + {#raw_sock s'#}"
proof -
  have o: "owns {#} (open_sock, open_world)"
    by (simp add: owns_def open_sock_def open_world_def socket_of_raw_def is_valid_def INVALID_def
        world0_def open_fds_def)
  have v: "is_valid open_sock"
    by (simp add: open_sock_def socket_of_raw_def is_valid_def INVALID_def)
  obtain s' w' where l: "socket_listen granting 80 10 (open_sock, open_world) = (Inr True, (s', w'))"
    by (simp add: socket_listen_def granting_def prog_simps INVALID_def open_sock_def
        socket_of_raw_def finish_listen_def attach_ssl_def is_valid_def)
  show ?thesis
    using listen_leaks_open_socket [OF o v l] l by (auto simp: open_sock_def socket_of_raw_def)
qed

subsection \<open>TLS\<close>

lemma socket_close_run:
  "\<exists>w'. socket_close pf (s, w) =
     (Inr (), (s\<lparr>raw_sock := INVALID, non_blocking := False,
                ssl := map_option (\<lambda>_. null_layer) (ssl s)\<rparr>, w'))"
proof (cases "ssl s")
  case None
  then show ?thesis
    by (cases "raw_sock s = INVALID"; cases s) (auto simp: socket_close_def prog_simps)
next
  case (Some l)
  from layer_shutdown_result [of pf l w 0] obtain w1 where
    "layer_shutdown pf (l, w) = (Inr (), (null_layer, w1))" by auto
  with Some show ?thesis
    by (cases "raw_sock s = INVALID"; cases s) (auto simp: socket_close_def prog_simps on_ssl_def)
qed

lemma connect_loop_ssl:
  assumes "connect_loop pf ps (s, w) = (r, (s', w'))"
  shows "ssl s' = ssl s"
  using assms
proof (induction ps arbitrary: w)
  case Nil
  then show ?case by (auto simp: prog_simps)
next
  case (Cons p ps)
  then show ?case
    by (auto simp: prog_simps split: if_splits)
qed

lemma attach_null:
  "ssl s = Some null_layer \<Longrightarrow> attach_ssl pf (s, w) = (Inr (), (s, w))"
  by (auto simp: attach_ssl_def prog_simps on_ssl_def layer_attach_def null_layer_def)

text \<open>A socket whose layer has been shut down reconnects without a handshake.\<close>

lemma reconnect_null_layer:
  assumes "ssl s = Some null_layer" and "\<not> is_valid s"
    and "socket_connect pf vclose host port (s, w) = (Inr True, (s', w'))"
  shows "ssl s' = Some null_layer" "is_valid s'"
proof -
  obtain r0 ais where gai:
    "os_getaddrinfo pf (trace w) (Some (c_str host)) (servnam port) = (r0, ais)"
    by (cases "os_getaddrinfo pf (trace w) (Some (c_str host)) (servnam port)")
  let ?w1 = "record_call pf (Sys_getaddrinfo (Some (c_str host)) (servnam port) r0) w"
  obtain r1 s1 w2 where lp: "connect_loop pf ais (s, ?w1) = (r1, (s1, w2))"
    by (cases "connect_loop pf ais (s, ?w1)") auto
  have n: "ssl s1 = Some null_layer" using connect_loop_ssl [OF lp] assms(1) by simp
  from assms(2,3) gai lp obtain found where
    f: "finish_connect pf found (s1, w2) = (Inr True, (s', w'))"
    by (auto simp: socket_connect_def prog_simps split: if_splits sum.splits)
  with n show "ssl s' = Some null_layer" "is_valid s'"
    by (cases found; auto simp: finish_connect_def prog_simps attach_null is_valid_def split: if_splits)+
qed

text \<open>
  A secure socket that is closed and connected again claims to be secure, but its layer has
  no handle any more: no handshake takes place, and every send of data returns 0 without a
  single call to OpenSSL or to the kernel.
\<close>

theorem secure_reconnect_sends_nothing:
  assumes "ssl s \<noteq> None" and "bs \<noteq> []"
    and "socket_close pf (s, w) = (Inr (), (s1, w1))"
    and "socket_connect pf vclose host port (s1, w1) = (Inr True, (s2, w2))"
  shows "is_secure s2 \<and> socket_send pf (Some bs) flags (s2, w2) = (Inr 0, (s2, w2))"
proof -
  have n: "ssl s1 = Some null_layer" and "\<not> is_valid s1"
    using socket_close_run [of pf s w] assms(1,3) by (auto simp: is_valid_def)
  from reconnect_null_layer [OF n \<open>\<not> is_valid s1\<close> assms(4)] have
    "ssl s2 = Some null_layer" "is_valid s2" by simp_all
  with assms(2) show ?thesis
    by (cases s2) (auto simp: is_secure_def socket_send_def prog_simps on_ssl_def layer_send_def
        null_layer_def)
qed

definition secure_sock :: socket where
  "secure_sock = (socket_of_raw 5 local_addr)\<lparr>ssl := Some \<lparr>ssl_handle = Some 2, ssl_context = Some 1\<rparr>\<rparr>"

lemma secure_reconnect_sends_nothing_witness:
  "\<exists>s1 w1 s2 w2. socket_close granting (secure_sock, open_world) = (Inr (), (s1, w1)) \<and>
     socket_connect granting (socket_close granting) ''h'' 443 (s1, w1) = (Inr True, (s2, w2)) \<and>
     is_secure s2 \<and> socket_send granting (Some [1, 2]) 0 (s2, w2) = (Inr 0, (s2, w2))"
proof -
  have s: "ssl secure_sock \<noteq> None" by (simp add: secure_sock_def)
  obtain s1 w1 where c: "socket_close granting (secure_sock, open_world) = (Inr (), (s1, w1))"
    and s1: "s1 = \<lparr>raw_sock = INVALID, addr = local_addr, non_blocking = False,
      ssl = Some null_layer\<rparr>"
    by (simp add: socket_close_def prog_simps on_ssl_def layer_shutdown_def secure_sock_def
        socket_of_raw_def null_layer_def INVALID_def)
  obtain s2 w2 where
    k: "socket_connect granting (socket_close granting) ''h'' 443 (s1, w1) = (Inr True, (s2, w2))"
    by (simp add: s1 socket_connect_def granting_def prog_simps INVALID_def finish_connect_def
        attach_ssl_def is_valid_def on_ssl_def layer_attach_def null_layer_def)
  show ?thesis
    using c k secure_reconnect_sends_nothing [OF s _ c k, of "[1, 2]" 0] by auto
qed

lemma attach_ssl_raw:
  assumes "attach_ssl pf (s, w) = (r, (s', w'))" shows "raw_sock s' = raw_sock s"
  using assms
  by (auto simp: attach_ssl_def prog_simps on_ssl_def split: option.splits prod.splits if_splits)

lemma set_ssl_raw:
  assumes "set_ssl pf l (s, w) = (r, (s', w'))" shows "raw_sock s' = raw_sock s"
  using assms
  by (auto simp: set_ssl_def prog_simps on_ssl_def
      split: option.splits prod.splits if_splits sum.splits)

lemma set_secure_raw:
  assumes "set_secure pf v (s, w) = (r, (s', w'))" shows "raw_sock s' = raw_sock s"
proof (cases "v \<and> openssl_found pf")
  case True
  obtain r1 s1 w1 where n: "new_layer pf (s, w) = (r1, (s1, w1))"
    by (cases "new_layer pf (s, w)") auto
  then have "s1 = s" by (rule new_layer_same)
  with assms n True show ?thesis
    by (cases r1) (auto simp: set_secure_def prog_simps dest: set_ssl_raw)
next
  case False
  with assms show ?thesis
    by (auto simp: set_secure_def prog_simps dest: set_ssl_raw split: if_splits)
qed

text \<open>On a socket without a descriptor, only the handshake makes \<open>connect\<close> throw.\<close>

lemma connect_throws_valid:
  assumes "socket_connect pf vclose host port (s, w) = (Inl e, (s', w'))" and "\<not> is_valid s"
  shows "is_valid s'"
proof -
  obtain r0 ais where gai:
    "os_getaddrinfo pf (trace w) (Some (c_str host)) (servnam port) = (r0, ais)"
    by (cases "os_getaddrinfo pf (trace w) (Some (c_str host)) (servnam port)")
  let ?w1 = "record_call pf (Sys_getaddrinfo (Some (c_str host)) (servnam port) r0) w"
  obtain r1 s1 w2 where lp: "connect_loop pf ais (s, ?w1) = (r1, (s1, w2))"
    by (cases "connect_loop pf ais (s, ?w1)") auto
  have "\<exists>found. r1 = Inr found"
    using connect_loop_owns [OF _ assms(2) lp, of "open_fds (trace ?w1)"] assms(2)
    by (simp add: owns_def)
  with assms gai lp obtain found where
    f: "finish_connect pf found (s1, w2) = (Inl e, (s', w'))"
    by (auto simp: socket_connect_def prog_simps split: if_splits)
  then show ?thesis
    by (cases found)
      (auto simp: finish_connect_def prog_simps is_valid_def dest: attach_ssl_raw
        split: if_splits sum.splits prod.splits)
qed

text \<open>
  The constructor that opens a secure connection leaks a descriptor when the TLS handshake
  fails: it throws with the connection open, and as the object was never complete its
  destructor does not run, so the process keeps one descriptor it had not before.
\<close>

theorem failed_handshake_leaks:
  assumes "set_secure pf secure (socket_default, w) = (Inr (), (s0, w0))"
    and "socket_open pf host port secure w = (Inl e, w')"
  shows "\<exists>fd. fd \<noteq> INVALID \<and> open_fds (trace w') = add_mset fd (open_fds (trace w))"
proof -
  let ?B = "open_fds (trace w)"
  have o0: "owns ?B (s0, w0)"
    using keeps_snd [OF keeps_owns_set_secure socket_default_owns [of w], of pf secure] assms(1) by simp
  have inv: "\<not> is_valid s0"
    using set_secure_raw [OF assms(1)] by (simp add: is_valid_def socket_default_def)
  obtain s1 w1 where c: "socket_connect pf (socket_close pf) host port (s0, w0) = (Inl e, (s1, w1))"
    and w': "w' = snd (snd (set_ssl pf None (s1, w1)))"
    using assms by (auto simp: socket_open_def prog_simps split: prod.splits sum.splits)
  obtain r2 s2 w2 where f: "set_ssl pf None (s1, w1) = (r2, (s2, w2))"
    by (cases "set_ssl pf None (s1, w1)") auto
  have "owns ?B (s1, w1)"
    using keeps_snd [OF plain.keeps_connect o0] c by (metis snd_conv)
  then have "owns ?B (s2, w2)"
    using keeps_snd [OF keeps_owns_set_ssl, of ?B "(s1, w1)" pf None] f by simp
  moreover have "is_valid s2"
    using connect_throws_valid [OF c inv] set_ssl_raw [OF f] by (simp add: is_valid_def)
  ultimately show ?thesis
    using f w' by (auto simp: owns_def is_valid_def)
qed

definition distrusting :: platform where
  "distrusting = granting\<lparr>ssl_connect := (\<lambda>_ _. -1)\<rparr>"

lemma failed_handshake_leaks_witness:
  "\<exists>w'. socket_open distrusting ''h'' 443 True world0 =
      (Inl (Socket_exception ''ssl error''), w') \<and>
     (\<exists>fd. fd \<noteq> INVALID \<and> open_fds (trace w') = add_mset fd {#})"
proof -
  obtain s0 w0 where s: "set_secure distrusting True (socket_default, world0) = (Inr (), (s0, w0))"
    by (simp add: set_secure_def set_ssl_def new_layer_def layer_init_def null_layer_def prog_simps
        distrusting_def granting_def socket_default_def world0_def)
  obtain w' where o: "socket_open distrusting ''h'' 443 True world0 =
      (Inl (Socket_exception ''ssl error''), w')"
    by (simp add: socket_open_def set_secure_def set_ssl_def new_layer_def layer_init_def
        null_layer_def prog_simps distrusting_def granting_def socket_default_def world0_def
        socket_connect_def finish_connect_def attach_ssl_def on_ssl_def layer_attach_def
        layer_shutdown_def is_valid_def INVALID_def ssl_throw_def)
  show ?thesis
    using failed_handshake_leaks [OF s o] o by (simp add: world0_def)
qed

subsection \<open>Which address a connection uses\<close>

text \<open>A network whose answers for an address do not depend on what was called before.\<close>

definition steady :: "platform \<Rightarrow> (addrinfo \<Rightarrow> socket_fd) \<Rightarrow> (addrinfo \<Rightarrow> int) \<Rightarrow> bool" where
  "steady pf f g \<longleftrightarrow> (\<forall>tr p. os_socket pf tr p = f p \<and> os_connect pf tr (f p) (ai_addr p) = g p)"

definition accepts :: "(addrinfo \<Rightarrow> socket_fd) \<Rightarrow> (addrinfo \<Rightarrow> int) \<Rightarrow> addrinfo \<Rightarrow> bool" where
  "accepts f g p \<longleftrightarrow> f p \<noteq> INVALID \<and> g p \<noteq> INVALID"

text \<open>The calls made for an address.\<close>

definition tried :: "(addrinfo \<Rightarrow> socket_fd) \<Rightarrow> (addrinfo \<Rightarrow> int) \<Rightarrow> addrinfo \<Rightarrow> history" where
  "tried f g p = Sys_socket (ai_family p) (ai_socktype p) (ai_protocol p) (f p) #
     (if f p = INVALID then [] else Sys_connect (f p) (ai_addr p) (g p) #
        (if g p = INVALID then [Sys_close (f p)] else []))"

lemma connect_loop_refused:
  assumes "steady pf f g" and "\<forall>q\<in>set ps. \<not> accepts f g q"
  shows "\<exists>w'. connect_loop pf (ps @ qs) (s, w) = connect_loop pf qs (s, w') \<and>
    trace w' = trace w @ concat (map (tried f g) ps)"
  using assms(2)
proof (induction ps arbitrary: w)
  case (Cons p ps)
  have k: "os_socket pf tr p = f p" "os_connect pf tr (f p) (ai_addr p) = g p" for tr
    using assms(1) by (simp_all add: steady_def)
  have "\<exists>w1. connect_loop pf ((p # ps) @ qs) (s, w) = connect_loop pf (ps @ qs) (s, w1) \<and>
      trace w1 = trace w @ tried f g p"
  proof (cases "f p = INVALID")
    case True
    then show ?thesis
      using k by (intro exI [of _ "record_call pf (Sys_socket (ai_family p) (ai_socktype p) (ai_protocol p) INVALID) w"])
        (simp add: prog_simps tried_def)
  next
    case False
    with Cons.prems have "g p = INVALID" by (simp add: accepts_def)
    let ?w = "record_call pf (Sys_connect (f p) (ai_addr p) INVALID)
      (record_call pf (Sys_socket (ai_family p) (ai_socktype p) (ai_protocol p) (f p)) w)"
    from False k \<open>g p = INVALID\<close> show ?thesis
      by (intro exI [of _ "record_call pf (Sys_close (f p)) ?w"]) (simp add: prog_simps tried_def)
  qed
  then obtain w1 where "connect_loop pf ((p # ps) @ qs) (s, w) = connect_loop pf (ps @ qs) (s, w1)"
    "trace w1 = trace w @ tried f g p" by blast
  with Cons.IH [of w1] Cons.prems show ?case by auto
next
  case Nil
  show ?case by (intro exI [of _ w]) simp
qed

text \<open>
  C13: \<open>connect\<close> takes the first address that accepts. On a socket that is not open and has no TLS,
  when the resolver finds a list with an address that accepts, and whether the kernel gives a
  descriptor for an address and connects it does not depend on the calls made before, it tries the
  addresses in the order in which they were resolved, closes the descriptor of every one that refuses
  before it goes on, stops at the first that accepts, keeps exactly that descriptor and address, and
  makes no other call than these, the resolving and the freeing of its list.
\<close>

theorem connect_first_accepting:
  assumes "steady pf f g" and "\<not> is_valid s" and "ssl s = None"
    and "os_getaddrinfo pf (trace w) (Some (c_str host)) (servnam port) = (0, ps @ p # qs)"
    and "\<forall>q\<in>set ps. \<not> accepts f g q" and "accepts f g p"
  shows "\<exists>w'. socket_connect pf vclose host port (s, w) = (Inr True, (s\<lparr>raw_sock := f p, addr := ai_addr p\<rparr>, w')) \<and>
    trace w' = trace w @ Sys_getaddrinfo (Some (c_str host)) (servnam port) 0 #
      concat (map (tried f g) ps) @ tried f g p @ [Sys_freeaddrinfo]"
proof -
  have k: "os_socket pf tr p = f p" "os_connect pf tr (f p) (ai_addr p) = g p" for tr
    using assms(1) by (simp_all add: steady_def)
  let ?w = "record_call pf (Sys_getaddrinfo (Some (c_str host)) (servnam port) 0) w"
  from connect_loop_refused [OF assms(1,5), of "p # qs" s ?w] obtain w1 where
    l: "connect_loop pf (ps @ p # qs) (s, ?w) = connect_loop pf (p # qs) (s, w1)"
    "trace w1 = trace ?w @ concat (map (tried f g) ps)" by blast
  with k assms(2-4,6) show ?thesis
    by (simp add: socket_connect_def finish_connect_def attach_ssl_def accepts_def tried_def prog_simps is_valid_def)
qed

definition second_only :: platform where
  "second_only = granting\<lparr>
     os_getaddrinfo := (\<lambda>_ _ _. (0, [local_info\<lparr>ai_family := AF_INET6\<rparr>, local_info])),
     os_socket := (\<lambda>_ p. if ai_family p = AF_INET then 7 else 6),
     os_connect := (\<lambda>_ fd _. if fd = 7 then 0 else -1)\<rparr>"

lemma connect_first_accepting_witness:
  "\<exists>w'. socket_connect second_only (pret ()) ''h'' 80 (socket_default, world0) =
      (Inr True, (socket_default\<lparr>raw_sock := 7, addr := local_addr\<rparr>, w')) \<and>
    open_fds (trace w') = {#7#}"
proof -
  define f where "f = (\<lambda>p :: addrinfo. if ai_family p = AF_INET then 7 else 6 :: socket_fd)"
  define g where "g = (\<lambda>p :: addrinfo. if ai_family p = AF_INET then 0 else -1 :: int)"
  have "steady second_only f g" by (simp add: steady_def second_only_def f_def g_def)
  moreover have "\<not> is_valid socket_default" "ssl socket_default = None"
    by (simp_all add: socket_default_def is_valid_def)
  moreover have "os_getaddrinfo second_only (trace world0) (Some (c_str ''h'')) (servnam 80) =
      (0, [local_info\<lparr>ai_family := AF_INET6\<rparr>] @ local_info # [])"
    by (simp add: second_only_def)
  moreover have "\<forall>q\<in>set [local_info\<lparr>ai_family := AF_INET6\<rparr>]. \<not> accepts f g q" "accepts f g local_info"
    by (simp_all add: accepts_def f_def g_def local_info_def INVALID_def AF_INET_def AF_INET6_def)
  ultimately have "\<exists>w'. socket_connect second_only (pret ()) ''h'' 80 (socket_default, world0) =
      (Inr True, (socket_default\<lparr>raw_sock := f local_info, addr := ai_addr local_info\<rparr>, w')) \<and>
    trace w' = trace world0 @ Sys_getaddrinfo (Some (c_str ''h'')) (servnam 80) 0 #
      concat (map (tried f g) [local_info\<lparr>ai_family := AF_INET6\<rparr>]) @ tried f g local_info @ [Sys_freeaddrinfo]"
    by (rule connect_first_accepting)
  then show ?thesis
    by (auto simp: tried_def f_def g_def local_info_def world0_def AF_INET_def AF_INET6_def INVALID_def open_fds_def)
qed

end
