(* ===== verification/Buffered_Socket.thy ===== *)
theory Buffered_Socket
  imports Socket_Facts Cpp_Seq
begin

section \<open>The buffered socket (\<open>buffered_socket.h\<close>, \<open>buffered_socket.cpp\<close>)\<close>

text \<open>
  \<open>buffered_socket\<close> adds an input and an output buffer and a vector of listeners, which are
  shared pointers: \<open>None\<close> is a null pointer, \<open>Some i\<close> the listener object number \<open>i\<close>.
  The listeners and the overridable hooks are code of the user (or of a derived class), so
  they are a parameter, a table of programs over the same state.
\<close>

record buffered = socket +
  inBuffer :: "byte list"
  outBuffer :: "byte list"
  listeners :: "nat option list"

type_synonym ('a, 'w) bstate = "'a buffered_scheme \<times> 'w world_scheme"

type_synonym ('a, 'w, 'b) bprog = "(('a, 'w) bstate, 'b) prog"

datatype event = Will_read | Did_read | Will_write | Did_write | Connected | Closed

record ('a, 'w) vtable =
  v_on_recv :: "byte list \<Rightarrow> ('a, 'w, byte list) bprog"
  v_hook :: "event \<Rightarrow> ('a, 'w, unit) bprog"
  v_listener :: "nat \<Rightarrow> event \<Rightarrow> ('a, 'w, unit) bprog"

definition NEWLINE :: "byte list" where
  "NEWLINE = [13, 10]"

definition buffered_default :: buffered where
  "buffered_default = socket.extend socket_default
     \<lparr>inBuffer = [], outBuffer = [], listeners = []\<rparr>"

definition buffered_of_raw :: "socket_fd \<Rightarrow> sockaddr \<Rightarrow> buffered" where
  "buffered_of_raw fd a = socket.extend (socket_of_raw fd a)
     \<lparr>inBuffer = [], outBuffer = [], listeners = []\<rparr>"

text \<open>\<open>buffered_socket(host, port)\<close>: the base constructor connects, without TLS and without
  telling any listener.\<close>

definition buffered_open ::
  "platform \<Rightarrow> string \<Rightarrow> int \<Rightarrow> 'w world_scheme \<Rightarrow> (exn + buffered) \<times> 'w world_scheme" where
  "buffered_open pf host port w =
     (case socket_open pf host port False w of
        (Inl e, w') \<Rightarrow> (Inl e, w')
      | (Inr s, w') \<Rightarrow>
          (Inr (socket.extend s \<lparr>inBuffer = [], outBuffer = [], listeners = []\<rparr>), w'))"

subsection \<open>Listeners\<close>

definition add_listener :: "nat option \<Rightarrow> ('a, 'w, unit) bprog" where
  "add_listener l =
     pbind (obj listeners) (\<lambda>ls.
     if l \<noteq> None \<and> find_from (\<lambda>x. x = l) ls 0 = length ls
     then upd (\<lambda>s. s\<lparr>listeners := ls @ [l]\<rparr>)
     else pret ())"

text \<open>
  \<open>std::remove\<close> on a vector of shared pointers: elements to keep are moved forward, and a
  moved-from pointer is null. The vector keeps its length.
\<close>

function remove_loop :: "'x option \<Rightarrow> 'x option list \<Rightarrow> nat \<Rightarrow> nat \<Rightarrow> 'x option list" where
  "remove_loop v xs first i =
     (if i < length xs
      then (if xs ! i \<noteq> v
            then remove_loop v ((xs[first := xs ! i])[i := None]) (Suc first) (Suc i)
            else remove_loop v xs first (Suc i))
      else xs)"
  by pat_completeness auto
termination
  by (relation "measure (\<lambda>(v, xs, first, i). length xs - i)") auto

declare remove_loop.simps [simp del]

definition std_remove :: "'x option \<Rightarrow> 'x option list \<Rightarrow> 'x option list" where
  "std_remove v xs =
     (let p = find_from (\<lambda>x. x = v) xs 0
      in if p = length xs then xs else remove_loop v xs p (Suc p))"

definition remove_listener :: "nat option \<Rightarrow> ('a, 'w, unit) bprog" where
  "remove_listener l =
     (if l = None then pret ()
      else upd (\<lambda>s. s\<lparr>listeners := std_remove l (listeners s)\<rparr>))"

text \<open>
  The six \<open>notify_\<close> functions: the hook of the class, then the vector of listeners from its
  first element to the end it had when the loop began. Each turn reads the element the vector
  has now. Calling through a null pointer is undefined, and so is going on with the iterators
  after a listener has added another one to the vector.
\<close>

definition call_listener :: "('a, 'w) vtable \<Rightarrow> event \<Rightarrow> nat \<Rightarrow> ('a, 'w, unit) bprog" where
  "call_listener vt ev = (\<lambda>k.
     pbind (obj listeners) (\<lambda>ls.
     case ls ! k of
       None \<Rightarrow> praise Undefined_behaviour
     | Some i \<Rightarrow>
         pthen (v_listener vt i ev)
           (pbind (obj listeners) (\<lambda>ls'.
            if length ls' = length ls then pret () else praise Undefined_behaviour))))"

definition notify :: "('a, 'w) vtable \<Rightarrow> event \<Rightarrow> ('a, 'w, unit) bprog" where
  "notify vt ev =
     pthen (v_hook vt ev)
       (pbind (obj listeners) (\<lambda>ls. piter (call_listener vt ev) [0..<length ls]))"

subsection \<open>Writing\<close>

definition buf_write :: "string \<Rightarrow> ('a, 'w, unit) bprog" where
  "buf_write value = upd (\<lambda>s. s\<lparr>outBuffer := outBuffer s @ bytes_of value\<rparr>)"

definition buf_newline :: "('a, 'w, unit) bprog" where
  "buf_newline = upd (\<lambda>s. s\<lparr>outBuffer := outBuffer s @ NEWLINE\<rparr>)"

definition buf_writeln :: "string \<Rightarrow> ('a, 'w, unit) bprog" where
  "buf_writeln value =
     pthen (upd (\<lambda>s. s\<lparr>outBuffer := outBuffer s @ bytes_of value\<rparr>))
       (upd (\<lambda>s. s\<lparr>outBuffer := outBuffer s @ NEWLINE\<rparr>))"

definition write_from_buffer :: "platform \<Rightarrow> ('a, 'w) vtable \<Rightarrow> ('a, 'w, bool) bprog" where
  "write_from_buffer pf vt =
     pbind (obj id) (\<lambda>s.
     if \<not> is_valid s then pret False
     else if outBuffer s = [] then pret True
     else
       pthen (notify vt Will_write)
      (pbind (obj outBuffer) (\<lambda>out.
       pbind (send_buffer pf out 0) (\<lambda>r.
       if r \<noteq> cast_int (length out) then pret False
       else
         pthen (upd (\<lambda>s. s\<lparr>outBuffer := []\<rparr>))
        (pthen (notify vt Did_write) (pret True))))))"

definition buf_flush :: "platform \<Rightarrow> ('a, 'w) vtable \<Rightarrow> ('a, 'w, unit) bprog" where
  "buf_flush pf vt = pthen (write_from_buffer pf vt) (pret ())"

definition buf_close :: "platform \<Rightarrow> ('a, 'w) vtable \<Rightarrow> ('a, 'w, unit) bprog" where
  "buf_close pf vt =
     pbind (obj is_valid) (\<lambda>v.
     if v
     then pthen (notify vt Closed) (pthen (buf_flush pf vt) (socket_close pf))
     else pret ())"

definition buf_connect ::
  "platform \<Rightarrow> ('a, 'w) vtable \<Rightarrow> string \<Rightarrow> int \<Rightarrow> ('a, 'w, bool) bprog" where
  "buf_connect pf vt host port =
     pbind (socket_connect pf (buf_close pf vt) host port) (\<lambda>ok.
     if ok then pthen (notify vt Connected) (pret True) else pret False)"

text \<open>Moves: the base class moves its fields, then the buffers and the listeners move. A
  moved-from vector is empty.\<close>

definition buf_move :: "'a buffered_scheme \<Rightarrow> buffered \<times> 'a buffered_scheme" where
  "buf_move other =
     (case socket_move other of (base, other') \<Rightarrow>
        (socket.extend base \<lparr>inBuffer = inBuffer other, outBuffer = outBuffer other,
           listeners = listeners other\<rparr>,
         other'\<lparr>inBuffer := [], outBuffer := [], listeners := []\<rparr>))"

definition buf_move_assign ::
  "platform \<Rightarrow> ('a, 'w) vtable \<Rightarrow> 'b buffered_scheme \<Rightarrow> ('a, 'w, 'b buffered_scheme) bprog" where
  "buf_move_assign pf vt other =
     pbind (socket_move_assign pf (buf_close pf vt) other) (\<lambda>other'.
     pthen (upd (\<lambda>s. s\<lparr>inBuffer := inBuffer other', outBuffer := outBuffer other',
                      listeners := listeners other'\<rparr>))
       (pret (other'\<lparr>inBuffer := [], outBuffer := [], listeners := []\<rparr>)))"

subsection \<open>Reading\<close>

definition read_chunk ::
  "platform \<Rightarrow> ('a, 'w) vtable \<Rightarrow> byte list \<Rightarrow> ('a, 'w, bool \<times> byte list) bprog" where
  "read_chunk pf vt chunk =
     pbind (obj is_valid) (\<lambda>v.
     if \<not> v then pret (False, chunk)
     else
       pbind (socket_recv pf (v_on_recv vt) chunk 0) (\<lambda>(status, chunk').
       pbind (wget errno) (\<lambda>err.
       if status < 0
       then (if err = EINTR then pret (False, chunk')
             else if err = EAGAIN then pret (False, chunk')
             else if err = EWOULDBLOCK then pret (False, chunk')
             else praise (Socket_exception (os_strerror pf err)))
       else pret (status > 0, chunk'))))"

text \<open>The \<open>do \<dots> while\<close> loop, whose body has run for \<open>chunk\<close> once fuel is spent on it.\<close>

fun read_loop ::
  "platform \<Rightarrow> ('a, 'w) vtable \<Rightarrow> nat \<Rightarrow> byte list \<Rightarrow> ('a, 'w, unit) bprog" where
  "read_loop pf vt 0 chunk = praise Out_of_fuel"
| "read_loop pf vt (Suc fuel) chunk =
     pthen (upd (\<lambda>s. s\<lparr>inBuffer := inBuffer s @ chunk\<rparr>))
    (pbind (obj non_blocking) (\<lambda>nb.
     if \<not> nb then pret ()
     else
       pbind (read_chunk pf vt chunk) (\<lambda>(more, chunk').
       if more then read_loop pf vt fuel chunk' else pret ())))"

definition read_to_buffer :: "platform \<Rightarrow> ('a, 'w) vtable \<Rightarrow> nat \<Rightarrow> ('a, 'w, bool) bprog" where
  "read_to_buffer pf vt fuel =
     pthen (notify vt Will_read)
       (pcatch
         (pbind (read_chunk pf vt []) (\<lambda>(more, chunk).
          if \<not> more then pret True
          else
            pthen (read_loop pf vt fuel chunk)
           (pthen (notify vt Did_read) (pret True))))
         (\<lambda>_. pret False))"

definition is_newline :: "byte \<Rightarrow> bool" where
  "is_newline b \<longleftrightarrow> b \<in> set NEWLINE"

function skip_newlines :: "byte list \<Rightarrow> nat \<Rightarrow> nat" where
  "skip_newlines buf pos =
     (if pos < length buf \<and> is_newline (buf ! pos) then skip_newlines buf (Suc pos) else pos)"
  by pat_completeness auto
termination
  by (relation "measure (\<lambda>(buf, pos). length buf - pos)") auto

declare skip_newlines.simps [simp del]

definition readln :: "('a, 'w, string) bprog" where
  "readln =
     pbind (obj inBuffer) (\<lambda>buf.
     if buf = [] then pret []
     else
       let pos = find_from is_newline buf 0 in
       if pos = length buf
       then pthen (upd (\<lambda>s. s\<lparr>inBuffer := []\<rparr>)) (pret (string_of buf))
       else
         pthen (upd (\<lambda>s. s\<lparr>inBuffer := erase_range buf 0 (skip_newlines buf pos)\<rparr>))
           (pret (string_of (sub_range buf 0 pos))))"

text \<open>\<open>operator>>\<close> appends the whole input to a string and leaves it in the buffer.\<close>

definition buf_read_op :: "string \<Rightarrow> ('a, 'w, string) bprog" where
  "buf_read_op s = pbind (obj inBuffer) (\<lambda>buf. pret (s @ string_of buf))"

definition has_input :: "'a buffered_scheme \<Rightarrow> bool" where
  "has_input s \<longleftrightarrow> inBuffer s \<noteq> []"

definition has_output :: "'a buffered_scheme \<Rightarrow> bool" where
  "has_output s \<longleftrightarrow> outBuffer s \<noteq> []"

end
