(* ===== verification/Buffered_Facts.thy ===== *)
theory Buffered_Facts
  imports Buffered_Socket
begin

section \<open>The buffered socket: lines, listeners, writes and reads\<close>

subsection \<open>Lines\<close>

lemma skip_newlines_spec:
  "pos \<le> length buf \<Longrightarrow>
     drop (skip_newlines buf pos) buf = dropWhile is_newline (drop pos buf) \<and>
     pos \<le> skip_newlines buf pos \<and> skip_newlines buf pos \<le> length buf"
proof (induction buf pos rule: skip_newlines.induct)
  case (1 buf pos)
  show ?case
  proof (cases "pos < length buf \<and> is_newline (buf ! pos)")
    case True
    then have d: "drop pos buf = buf ! pos # drop (Suc pos) buf"
      by (simp add: Cons_nth_drop_Suc)
    from True "1.IH" [OF True] show ?thesis
      by (simp add: skip_newlines.simps [of buf pos] d)
  next
    case False
    show ?thesis
    proof (cases "pos < length buf")
      case True
      then have d: "drop pos buf = buf ! pos # drop (Suc pos) buf"
        by (simp add: Cons_nth_drop_Suc)
      from False True "1.prems" show ?thesis
        by (simp add: skip_newlines.simps [of buf pos] d)
    next
      case False
      with "1.prems" have "pos = length buf" by simp
      then show ?thesis by (simp add: skip_newlines.simps [of buf "length buf"])
    qed
  qed
qed

text \<open>What \<open>readln\<close> returns and leaves, as an equation on the buffer.\<close>

lemma readln_run:
  "readln (s, w) =
     (Inr (string_of (takeWhile (\<lambda>b. \<not> is_newline b) (inBuffer s))),
      (s\<lparr>inBuffer := dropWhile is_newline (dropWhile (\<lambda>b. \<not> is_newline b) (inBuffer s))\<rparr>, w))"
proof -
  let ?buf = "inBuffer s"
  let ?line = "takeWhile (\<lambda>b. \<not> is_newline b) ?buf"
  have pos: "find_from is_newline ?buf 0 = length ?line" by (simp add: find_from_def)
  show ?thesis
  proof (cases "length ?line = length ?buf")
    case True
    then have all: "\<forall>b\<in>set ?buf. \<not> is_newline b"
      by (metis takeWhile_eq_take take_all order_refl takeWhile_eq_all_conv)
    then have tw: "?line = ?buf" by (simp add: takeWhile_eq_all_conv)
    have dw: "dropWhile (\<lambda>b. \<not> is_newline b) ?buf = []"
      using all by (simp add: dropWhile_eq_Nil_conv)
    have p: "find_from is_newline ?buf 0 = length ?buf" using pos tw by simp
    have e: "?buf = [] \<Longrightarrow> s\<lparr>inBuffer := []\<rparr> = s" by (cases s) simp
    show ?thesis
      using e by (cases "?buf = []") (simp_all add: readln_def prog_simps Let_def p tw dw)
  next
    case False
    then have "?buf \<noteq> []" by auto
    have le: "length ?line \<le> length ?buf" by (rule length_takeWhile_le)
    have d: "drop (length ?line) ?buf = dropWhile (\<lambda>b. \<not> is_newline b) ?buf"
      by (simp add: dropWhile_eq_drop)
    have t: "take (length ?line) ?buf = ?line" by (metis takeWhile_eq_take)
    show ?thesis
      using False \<open>?buf \<noteq> []\<close> skip_newlines_spec [OF le] d t
      by (simp add: readln_def prog_simps Let_def pos erase_range_def sub_range_def)
  qed
qed

text \<open>Reading a number of lines, and writing a list of them.\<close>

fun readlns :: "nat \<Rightarrow> ('a, 'w, string list) bprog" where
  "readlns 0 = pret []"
| "readlns (Suc n) = pbind readln (\<lambda>l. pbind (readlns n) (\<lambda>ls. pret (l # ls)))"

fun writelns :: "string list \<Rightarrow> ('a, 'w, unit) bprog" where
  "writelns [] = pret ()"
| "writelns (l # ls) = pthen (buf_writeln l) (writelns ls)"

definition line_ok :: "string \<Rightarrow> bool" where
  "line_ok l \<longleftrightarrow> l \<noteq> [] \<and> CHR 0x0D \<notin> set l \<and> CHR 0x0A \<notin> set l"

definition wire_lines :: "string list \<Rightarrow> byte list" where
  "wire_lines ls = concat (map (\<lambda>l. bytes_of l @ NEWLINE) ls)"

lemma writelns_run:
  "writelns ls (s, w) = (Inr (), (s\<lparr>outBuffer := outBuffer s @ wire_lines ls\<rparr>, w))"
  by (induction ls arbitrary: s) (simp_all add: prog_simps buf_writeln_def wire_lines_def)

lemma is_newline_byte_of:
  "is_newline (byte_of c) \<longleftrightarrow> c = CHR 0x0D \<or> c = CHR 0x0A"
proof -
  have "(13 :: byte) = byte_of (CHR 0x0D)" "(10 :: byte) = byte_of (CHR 0x0A)"
    by (simp_all add: byte_of_def)
  then show ?thesis
    by (simp only: is_newline_def NEWLINE_def byte_of_inject list.set insert_iff empty_iff) simp
qed

lemma newline_bytes: "\<forall>b\<in>set NEWLINE. is_newline b"
  by (simp add: is_newline_def)

lemma line_no_newline: "line_ok l \<Longrightarrow> b \<in> set (bytes_of l) \<Longrightarrow> \<not> is_newline b"
  by (auto simp: line_ok_def is_newline_byte_of)

lemma wire_lines_head: "\<forall>l\<in>set ls. line_ok l \<Longrightarrow> dropWhile is_newline (wire_lines ls) = wire_lines ls"
proof (cases ls)
  case (Cons l ls')
  assume "\<forall>l\<in>set ls. line_ok l"
  then have "line_ok l" using Cons by simp
  then obtain c l' where "l = c # l'" "\<not> is_newline (byte_of c)"
    by (cases l) (auto simp: line_ok_def is_newline_byte_of)
  then show ?thesis using Cons by (simp add: wire_lines_def)
qed (simp add: wire_lines_def)

lemma readlns_wire:
  assumes "\<forall>l\<in>set ls. line_ok l" and "inBuffer s = wire_lines ls"
  shows "readlns (length ls) (s, w) = (Inr ls, (s\<lparr>inBuffer := []\<rparr>, w))"
  using assms
proof (induction ls arbitrary: s)
  case Nil
  then show ?case by (cases s) (simp add: prog_simps wire_lines_def)
next
  case (Cons l ls)
  let ?rest = "wire_lines ls"
  have buf: "inBuffer s = bytes_of l @ NEWLINE @ ?rest"
    using Cons.prems by (simp add: wire_lines_def)
  have l: "\<forall>b\<in>set (bytes_of l). \<not> is_newline b"
    using Cons.prems line_no_newline by (metis list.set_intros(1))
  obtain x xs where nl: "NEWLINE = x # xs" "is_newline x"
    by (simp add: NEWLINE_def is_newline_def)
  have tw: "takeWhile (\<lambda>b. \<not> is_newline b) (inBuffer s) = bytes_of l"
    using l nl(2) unfolding buf nl(1) by (subst takeWhile_append2) auto
  have dw: "dropWhile (\<lambda>b. \<not> is_newline b) (inBuffer s) = NEWLINE @ ?rest"
    using l nl(2) unfolding buf nl(1) by (subst dropWhile_append2) auto
  have "dropWhile is_newline (NEWLINE @ ?rest) = ?rest"
    using newline_bytes Cons.prems(1) wire_lines_head [of ls]
    by (subst dropWhile_append2) auto
  then have "readln (s, w) = (Inr l, (s\<lparr>inBuffer := ?rest\<rparr>, w))"
    by (simp add: readln_run tw dw)
  moreover have "readlns (length ls) (s\<lparr>inBuffer := ?rest\<rparr>, w) = (Inr ls, (s\<lparr>inBuffer := []\<rparr>, w))"
    using Cons.IH [of "s\<lparr>inBuffer := ?rest\<rparr>"] Cons.prems(1) by simp
  ultimately show ?case by (simp add: prog_simps)
qed

text \<open>
  \<open>readln\<close> splits the input buffer: what it returns is the part before the first CR or LF,
  and what remains is the buffer without that part and without the whole run of CRs and LFs
  after it; nothing else is lost, and the line holds no newline character.
\<close>

theorem readln_splits:
  "\<exists>line nl rest. readln (s, w) = (Inr (string_of line), (s\<lparr>inBuffer := rest\<rparr>, w)) \<and>
     inBuffer s = line @ nl @ rest \<and> (\<forall>b\<in>set line. \<not> is_newline b) \<and>
     (\<forall>b\<in>set nl. is_newline b) \<and> (rest = [] \<or> \<not> is_newline (hd rest)) \<and>
     (nl = [] \<longrightarrow> rest = [])"
proof -
  let ?buf = "inBuffer s"
  define line where "line = takeWhile (\<lambda>b. \<not> is_newline b) ?buf"
  define tail where "tail = dropWhile (\<lambda>b. \<not> is_newline b) ?buf"
  define nl where "nl = takeWhile is_newline tail"
  define rest where "rest = dropWhile is_newline tail"
  have "?buf = line @ nl @ rest"
    by (simp add: line_def nl_def rest_def tail_def)
  moreover have "\<forall>b\<in>set line. \<not> is_newline b" "\<forall>b\<in>set nl. is_newline b"
    by (auto simp: line_def nl_def dest: set_takeWhileD)
  moreover have "rest = [] \<or> \<not> is_newline (hd rest)"
    using hd_dropWhile [of is_newline tail] by (auto simp: rest_def)
  moreover have "nl = [] \<longrightarrow> rest = []"
  proof
    assume "nl = []"
    then have "tail = [] \<or> \<not> is_newline (hd tail)" by (cases tail) (auto simp: nl_def split: if_splits)
    moreover have "tail = [] \<or> is_newline (hd tail)"
      using hd_dropWhile [of "\<lambda>b. \<not> is_newline b" ?buf] by (auto simp: tail_def)
    ultimately have "tail = []" by auto
    then show "rest = []" by (simp add: rest_def)
  qed
  ultimately show ?thesis
    unfolding readln_run line_def [symmetric] tail_def [symmetric] rest_def [symmetric]
    by blast
qed

text \<open>
  C24: lines survive the connection: whatever non-empty lines without CR and LF one side writes
  with \<open>writeln\<close> into an empty output buffer, the other side, given those bytes as its input,
  reads back as the same lines in the same order, and its buffer is then empty.
\<close>

theorem writeln_readln_roundtrip:
  assumes "\<forall>l\<in>set ls. line_ok l" and "outBuffer out = []"
    and "writelns ls (out, w) = (Inr (), (out', w'))"
  shows "readlns (length ls) (inp\<lparr>inBuffer := outBuffer out'\<rparr>, v) =
    (Inr ls, (inp\<lparr>inBuffer := []\<rparr>, v))"
proof -
  have "outBuffer out' = wire_lines ls"
    using assms(2,3) by (auto simp: writelns_run)
  then show ?thesis
    using readlns_wire [OF assms(1), of "inp\<lparr>inBuffer := outBuffer out'\<rparr>" v] by simp
qed

definition sock0 :: buffered where
  "sock0 = buffered_of_raw 5 local_addr"

lemma sock0_simps [simp]:
  "is_valid sock0" "ssl sock0 = None" "None \<notin> set (listeners sock0)" "\<not> non_blocking sock0"
  "inBuffer sock0 = []" "outBuffer sock0 = []" "listeners sock0 = []" "raw_sock sock0 = 5"
  by (simp_all add: sock0_def buffered_of_raw_def socket.defs socket_of_raw_def is_valid_def INVALID_def)

lemma readln_splits_witness:
  "\<exists>line nl rest. readln (sock0\<lparr>inBuffer := [104, 105, 13, 10, 10, 33]\<rparr>, world0) =
      (Inr (string_of line), (sock0\<lparr>inBuffer := rest\<rparr>, world0)) \<and>
    [104, 105, 13, 10, 10, 33] = line @ nl @ rest \<and> (\<forall>b\<in>set line. \<not> is_newline b)"
  using readln_splits [of "sock0\<lparr>inBuffer := [104, 105, 13, 10, 10, 33]\<rparr>" world0] by auto

lemma is_valid_buffers [simp]:
  "is_valid (s\<lparr>inBuffer := x\<rparr>) = is_valid s" "is_valid (s\<lparr>outBuffer := x\<rparr>) = is_valid s"
  "is_valid (s\<lparr>listeners := ls\<rparr>) = is_valid s" "is_valid (s\<lparr>non_blocking := b\<rparr>) = is_valid s"
  for s :: "'a buffered_scheme"
  by (simp_all add: is_valid_def)

lemma sock0_same [simp]: "sock0\<lparr>outBuffer := []\<rparr> = sock0" "sock0\<lparr>inBuffer := []\<rparr> = sock0"
  by (simp_all add: sock0_def buffered_of_raw_def socket.defs)

lemma writeln_readln_roundtrip_witness:
  "readlns 2 (sock0\<lparr>inBuffer := wire_lines [''GET /'', ''Host: a'']\<rparr>, world0) =
     (Inr [''GET /'', ''Host: a''], (sock0\<lparr>inBuffer := []\<rparr>, world0))"
proof -
  have o: "outBuffer sock0 = []" by (simp add: sock0_def buffered_of_raw_def socket.defs)
  have r: "writelns [''GET /'', ''Host: a''] (sock0, world0) =
      (Inr (), (sock0\<lparr>outBuffer := wire_lines [''GET /'', ''Host: a'']\<rparr>, world0))"
    using o by (simp only: writelns_run append_Nil)
  have ok: "\<forall>l\<in>set [''GET /'', ''Host: a'']. line_ok l" by (simp add: line_ok_def)
  from writeln_readln_roundtrip [OF ok o r, of sock0 world0] show ?thesis by (simp add: numeral_2_eq_2)
qed

subsection \<open>Listeners\<close>

definition listeners_ok :: "nat option list \<Rightarrow> bool" where
  "listeners_ok ls \<longleftrightarrow> distinct ls \<and> None \<notin> set ls"

lemma add_listener_run:
  "add_listener l (s, w) =
     (Inr (), ((if l = None \<or> l \<in> set (listeners s) then s
                else s\<lparr>listeners := listeners s @ [l]\<rparr>), w))"
proof -
  have "find_from (\<lambda>x. x = l) (listeners s) 0 = length (listeners s) \<longleftrightarrow> l \<notin> set (listeners s)"
  proof
    assume "l \<notin> set (listeners s)"
    then show "find_from (\<lambda>x. x = l) (listeners s) 0 = length (listeners s)"
      using find_from_miss [of "listeners s" "\<lambda>x. x = l" "[]"] by auto
  next
    assume e: "find_from (\<lambda>x. x = l) (listeners s) 0 = length (listeners s)"
    show "l \<notin> set (listeners s)"
    proof
      assume "l \<in> set (listeners s)"
      then obtain a b where "listeners s = a @ l # b" "l \<notin> set a"
        by (meson split_list_first)
      with e find_from_hit [of a "\<lambda>x. x = l" l "[]" b] show False by auto
    qed
  qed
  then show ?thesis by (auto simp: add_listener_def prog_simps)
qed

lemma remove_loop_gap:
  assumes "Suc first = i" "i \<le> length xs" "v \<notin> set (drop i xs)"
  shows "remove_loop v xs first i =
    (if i < length xs then take first xs @ drop i xs @ [None] else xs)"
  using assms
proof (induction v xs first i rule: remove_loop.induct)
  case (1 v xs first i)
  show ?case
  proof (cases "i < length xs")
    case True
    then have d: "drop i xs = xs ! i # drop (Suc i) xs" by (simp add: Cons_nth_drop_Suc)
    with "1.prems" have v: "xs ! i \<noteq> v" "v \<notin> set (drop (Suc i) xs)" by auto
    let ?ys = "xs[first := xs ! i, i := None]"
    have IH: "remove_loop v ?ys i (Suc i) =
        (if Suc i < length ?ys then take i ?ys @ drop (Suc i) ?ys @ [None] else ?ys)"
      using "1.IH"(1) [OF True v(1)] "1.prems" v True by (simp add: drop_update_swap)
    have take_i: "take i ?ys = take first xs @ [xs ! i]"
      using "1.prems"(1) True by (simp add: take_update_swap) (simp add: list_eq_iff_nth_eq nth_append nth_list_update less_Suc_eq)
    have drop_i: "drop (Suc i) ?ys = drop (Suc i) xs" using "1.prems"(1) by simp
    have all: "?ys = take i ?ys @ None # drop (Suc i) xs"
      using True drop_i by (metis length_list_update nth_list_update_eq id_take_nth_drop)
    have "remove_loop v xs first i = take first xs @ drop i xs @ [None]"
    proof (cases "Suc i < length xs")
      case True
      then show ?thesis
        using IH take_i drop_i d v(1) \<open>i < length xs\<close> "1.prems"(1)
        by (simp add: remove_loop.simps [of v xs first i])
    next
      case False
      then have "drop (Suc i) xs = []" by simp
      with False IH take_i all d v(1) \<open>i < length xs\<close> "1.prems"(1) show ?thesis
        by (simp add: remove_loop.simps [of v xs first i])
    qed
    with True show ?thesis by simp
  next
    case False
    then show ?thesis by (simp add: remove_loop.simps [of v xs first i])
  qed
qed

lemma std_remove_unique:
  assumes "distinct (a @ v # b)"
  shows "std_remove v (a @ v # b) = (if b = [] then a @ [v] else a @ b @ [None])"
proof -
  have p: "find_from (\<lambda>x. x = v) (a @ v # b) 0 = length a"
    using find_from_hit [of a "\<lambda>x. x = v" v "[]" b] assms by auto
  have "remove_loop v (a @ v # b) (length a) (Suc (length a)) =
      (if b = [] then a @ [v] else a @ b @ [None])"
    using assms by (subst remove_loop_gap) auto
  then show ?thesis by (simp add: std_remove_def Let_def p)
qed

lemma std_remove_absent: "v \<notin> set xs \<Longrightarrow> std_remove v xs = xs"
  using find_from_miss [of xs "\<lambda>x. x = v" "[]"] by (auto simp: std_remove_def Let_def)

text \<open>
  \<open>add_listener\<close> keeps the vector free of duplicates and of null pointers, registers the
  listener it is given, and never reorders or drops the others.
\<close>

theorem add_listener_invariant:
  assumes "listeners_ok (listeners s)"
  shows "\<exists>s'. add_listener (Some i) (s, w) = (Inr (), (s', w)) \<and> listeners_ok (listeners s') \<and>
    Some i \<in> set (listeners s') \<and> prefix (listeners s) (listeners s') \<and>
    add_listener (Some i) (s', w) = (Inr (), (s', w))"
  using assms by (auto simp: add_listener_run listeners_ok_def)

lemma add_listener_invariant_witness:
  "\<exists>s'. add_listener (Some 4) (sock0, world0) = (Inr (), (s', world0)) \<and>
     listeners_ok (listeners s') \<and> Some 4 \<in> set (listeners s')"
proof -
  have "listeners_ok (listeners sock0)"
    by (simp add: listeners_ok_def sock0_def buffered_of_raw_def socket.defs)
  from add_listener_invariant [OF this, of 4 world0] show ?thesis by blast
qed

text \<open>
  \<open>remove_listener\<close> does not undo \<open>add_listener\<close>: removing the listener that was added
  last changes nothing, as \<open>std::remove\<close> is called without \<open>erase\<close>.
\<close>

theorem remove_last_listener_keeps_it:
  assumes "listeners_ok (listeners s)"
    and "add_listener (Some i) (s, w) = (Inr (), (s1, w1))"
    and "listeners s1 = listeners s @ [Some i]"
  shows "remove_listener (Some i) (s1, w1) = (Inr (), (s1, w1))"
proof -
  have "distinct (listeners s @ [Some i])"
    using assms by (auto simp: add_listener_run listeners_ok_def split: if_splits)
  then have "std_remove (Some i) (listeners s1) = listeners s1"
    using assms(3) std_remove_unique [of "listeners s" "Some i" "[]"] by simp
  then show ?thesis by (cases s1) (simp add: remove_listener_def prog_simps)
qed

lemma remove_last_listener_keeps_it_witness:
  "remove_listener (Some 4) (sock0\<lparr>listeners := [Some 3, Some 4]\<rparr>, world0) =
     (Inr (), (sock0\<lparr>listeners := [Some 3, Some 4]\<rparr>, world0))"
proof -
  have ok: "listeners_ok (listeners (sock0\<lparr>listeners := [Some 3]\<rparr>))" by (simp add: listeners_ok_def)
  have a: "add_listener (Some 4) (sock0\<lparr>listeners := [Some 3]\<rparr>, world0) =
      (Inr (), (sock0\<lparr>listeners := [Some 3, Some 4]\<rparr>, world0))"
    by (simp add: add_listener_run)
  show ?thesis using remove_last_listener_keeps_it [OF ok a] by simp
qed

lemma calls_None:
  assumes "\<And>i st. \<exists>st'. v_listener vt i ev st = (Inr (), st') \<and> listeners (fst st') = listeners (fst st)"
    and "k \<le> j" and "j < length (listeners (fst st))" and "listeners (fst st) ! j = None"
  shows "fst (piter (call_listener vt ev) [k..<length (listeners (fst st))] st) = Inl Undefined_behaviour"
  using assms(2-)
proof (induction "j - k" arbitrary: k st)
  case 0
  then have "[k..<length (listeners (fst st))] = j # [Suc j..<length (listeners (fst st))]"
    by (simp add: upt_rec)
  with 0 show ?case by (cases st) (simp add: call_listener_def prog_simps)
next
  case (Suc n)
  let ?ls = "listeners (fst st)"
  have r: "[k..<length ?ls] = k # [Suc k..<length ?ls]" using Suc by (simp add: upt_conv_Cons)
  show ?case
  proof (cases "?ls ! k")
    case None
    with r show ?thesis by (cases st) (simp add: call_listener_def prog_simps)
  next
    case (Some i)
    obtain st' where st': "v_listener vt i ev st = (Inr (), st')" "listeners (fst st') = ?ls"
      using assms(1) by blast
    have "fst (piter (call_listener vt ev) [Suc k..<length ?ls] st') = Inl Undefined_behaviour"
      using Suc.hyps(1) [of "Suc k" st'] Suc.hyps(2) Suc.prems st'(2) by simp
    with r Some st' show ?thesis by (cases st; cases st') (simp add: call_listener_def prog_simps)
  qed
qed

text \<open>
  removing a listener that is not the last one leaves a null pointer in the vector, so the
  next notification, of any kind, runs into undefined behaviour however well the hook and the
  listeners behave.
\<close>

theorem notify_after_remove_is_undefined:
  assumes "listeners_ok (listeners s)" and "listeners s = a @ Some i # b" and "b \<noteq> []"
    and "remove_listener (Some i) (s, w) = (Inr (), (s1, w1))"
    and "\<And>st. \<exists>st'. v_hook vt ev st = (Inr (), st') \<and> listeners (fst st') = listeners (fst st)"
    and "\<And>j st. \<exists>st'. v_listener vt j ev st = (Inr (), st') \<and> listeners (fst st') = listeners (fst st)"
  shows "fst (notify vt ev (s1, w1)) = Inl Undefined_behaviour"
proof -
  have "listeners s1 = a @ b @ [None]"
    using assms(1-4) std_remove_unique [of a "Some i" b]
    by (auto simp: remove_listener_def prog_simps listeners_ok_def)
  moreover obtain s2 w2 where h: "v_hook vt ev (s1, w1) = (Inr (), (s2, w2))"
      "listeners s2 = listeners s1"
    using assms(5) [of "(s1, w1)"] by auto
  ultimately have "length (a @ b) < length (listeners s2)" "listeners s2 ! length (a @ b) = None"
    by (simp_all add: nth_append)
  from calls_None [OF assms(6), of 0 "length (a @ b)" "(s2, w2)"] this h
  show ?thesis by (simp add: notify_def prog_simps)
qed

text \<open>Hooks and listeners that do nothing, as the default hooks of the class.\<close>

definition idle_vtable :: "('a, 'w) vtable" where
  "idle_vtable = \<lparr>v_on_recv = socket_on_recv, v_hook = (\<lambda>_. pret ()), v_listener = (\<lambda>_ _. pret ())\<rparr>"

lemma notify_after_remove_is_undefined_witness:
  "\<exists>s1. remove_listener (Some 3) (sock0\<lparr>listeners := [Some 3, Some 4]\<rparr>, world0) =
       (Inr (), (s1, world0)) \<and>
     fst (notify idle_vtable Did_read (s1, world0)) = Inl Undefined_behaviour"
proof -
  let ?s = "sock0\<lparr>listeners := [Some 3, Some 4]\<rparr>"
  have ok: "listeners_ok (listeners ?s)" by (simp add: listeners_ok_def)
  have l: "listeners ?s = [] @ Some 3 # [Some 4]" by simp
  obtain s1 where r: "remove_listener (Some 3) (?s, world0) = (Inr (), (s1, world0))"
    by (simp add: remove_listener_def prog_simps)
  have "fst (notify idle_vtable Did_read (s1, world0)) = Inl Undefined_behaviour"
    by (rule notify_after_remove_is_undefined [OF ok l _ r])
      (simp_all add: idle_vtable_def prog_simps)
  with r show ?thesis by blast
qed

subsection \<open>Writing\<close>

text \<open>What \<open>send\<close> does on a plain valid socket.\<close>

lemma send_plain:
  assumes "is_valid s" and "ssl s = None" and "bs \<noteq> []"
    and "os_send pf (trace w) (raw_sock s) bs fl = r"
    and "- (2 ^ 31) \<le> r" and "r < 2 ^ 31"
  shows "send_buffer pf bs fl (s, w) =
    (Inr r, (s, record_call pf (Sys_send (raw_sock s) bs fl r) w))"
  using assms by (simp add: send_buffer_def socket_send_def prog_simps Let_def to_int_small)

lemma write_from_buffer_run:
  assumes "is_valid s" and "outBuffer s \<noteq> []"
    and "notify vt Will_write (s, w) = (Inr (), (s1, w1))"
    and "is_valid s1" and "ssl s1 = None"
    and "out = outBuffer s1" and "out \<noteq> []" and "length out < 2 ^ 31"
    and "r = os_send pf (trace w1) (raw_sock s1) out 0" and "-1 \<le> r" and "r \<le> int (length out)"
    and "w2 = record_call pf (Sys_send (raw_sock s1) out 0 r) w1"
  shows "wire (raw_sock s1) (trace w2) = wire (raw_sock s1) (trace w1) @ take (nat r) out \<and>
    write_from_buffer pf vt (s, w) =
      (if r = int (length out)
       then pthen (notify vt Did_write) (pret True) (s1\<lparr>outBuffer := []\<rparr>, w2)
       else (Inr False, (s1, w2)))"
proof -
  have "send_buffer pf out 0 (s1, w1) = (Inr r, (s1, w2))"
    using assms by (subst send_plain [where r = r]) auto
  moreover have "cast_int (length out) = int (length out)"
    using assms(8) by (rule cast_int_small)
  ultimately show ?thesis
    using assms by (simp add: write_from_buffer_def prog_simps)
qed

text \<open>
  \<open>write_from_buffer\<close> on a plain socket, for any hooks and listeners: the output buffer as
  the \<open>on_will_write\<close> notification left it goes to the kernel in one call; the peer's stream
  grows by exactly the bytes the kernel accepted; if that is all of them the buffer is emptied
  and \<open>on_did_write\<close> runs before it reports success, otherwise it reports failure and the
  whole buffer stays.
\<close>

theorem write_from_buffer_outcome:
  assumes "is_valid s" and "outBuffer s \<noteq> []"
    and "notify vt Will_write (s, w) = (Inr (), (s1, w1))"
    and "is_valid s1" and "ssl s1 = None"
    and "out = outBuffer s1" and "out \<noteq> []" and "length out < 2 ^ 31"
    and "r = os_send pf (trace w1) (raw_sock s1) out 0" and "-1 \<le> r" and "r \<le> int (length out)"
    and "w2 = record_call pf (Sys_send (raw_sock s1) out 0 r) w1"
  shows "wire (raw_sock s1) (trace w2) = wire (raw_sock s1) (trace w1) @ take (nat r) out \<and>
    write_from_buffer pf vt (s, w) =
      (if r = int (length out)
       then pthen (notify vt Did_write) (pret True) (s1\<lparr>outBuffer := []\<rparr>, w2)
       else (Inr False, (s1, w2)))"
  using assms by (rule write_from_buffer_run)

lemma call_idle:
  "listeners s ! k \<noteq> None \<Longrightarrow> v_listener vt = (\<lambda>i ev. pret ()) \<Longrightarrow> call_listener vt ev k (s, w) = (Inr (), (s, w))"
  by (auto simp: call_listener_def prog_simps)

lemma notify_idle:
  assumes "None \<notin> set (listeners s)"
  shows "notify idle_vtable ev (s, w) = (Inr (), (s, w))"
proof -
  have "listeners s ! k \<noteq> None" if "k < length (listeners s)" for k
    using assms that by (metis nth_mem)
  then have "piter (call_listener idle_vtable ev) [0..<length (listeners s)] (s, w) = (Inr (), (s, w))"
    by (intro piter_same call_idle) (simp_all add: idle_vtable_def)
  moreover have "v_hook idle_vtable ev = (pret () :: ('a, 'b, unit) bprog)"
    by (simp add: idle_vtable_def)
  ultimately show ?thesis by (simp add: notify_def prog_simps)
qed

lemma write_from_buffer_outcome_witness:
  "wire 5 [Sys_send 5 [1, 2] 0 2] = [1, 2] \<and>
   write_from_buffer granting idle_vtable (sock0\<lparr>outBuffer := [1, 2]\<rparr>, world0) =
     (Inr True, (sock0, record_call granting (Sys_send 5 [1, 2] 0 2) world0))"
proof -
  let ?s = "sock0\<lparr>outBuffer := [1, 2 :: byte]\<rparr>"
  have v: "is_valid ?s" "ssl ?s = None" "raw_sock ?s = 5" "None \<notin> set (listeners ?s)"
    "None \<notin> set (listeners sock0)" "sock0\<lparr>outBuffer := []\<rparr> = sock0"
    by simp_all
  have n: "notify idle_vtable Will_write (?s, world0) = (Inr (), (?s, world0))"
    "notify idle_vtable Did_write (sock0, w) = (Inr (), (sock0, w))" for w :: world
    using v by (simp_all add: notify_idle)
  have g: "(2 :: int) = os_send granting (trace world0) (raw_sock ?s) [1, 2] 0"
    by (simp add: granting_def)
  have o: "outBuffer ?s \<noteq> []" by simp
  show ?thesis
    using write_from_buffer_outcome [OF v(1) o n(1) v(1,2) refl _ _ _ _ _ refl,
        where r = 2 and pf = granting] g v n(2)
    by (simp add: prog_simps world0_def)
qed

text \<open>
  C27: a partial write is repeated from the start: if the kernel takes only the first \<open>k\<close> bytes,
  \<open>write_from_buffer\<close> fails and keeps the whole buffer, so the next attempt that succeeds sends
  those \<open>k\<close> bytes a second time.
\<close>

theorem partial_write_duplicates:
  assumes "is_valid s" and "ssl s = None" and "None \<notin> set (listeners s)"
    and "length (outBuffer s) < 2 ^ 31" and "k < length (outBuffer s)"
    and "os_send pf (trace w) (raw_sock s) (outBuffer s) 0 = int k"
    and "w1 = record_call pf (Sys_send (raw_sock s) (outBuffer s) 0 (int k)) w"
    and "os_send pf (trace w1) (raw_sock s) (outBuffer s) 0 = int (length (outBuffer s))"
  shows "write_from_buffer pf idle_vtable (s, w) = (Inr False, (s, w1)) \<and>
    (\<exists>w2. write_from_buffer pf idle_vtable (s, w1) = (Inr True, (s\<lparr>outBuffer := []\<rparr>, w2)) \<and>
       wire (raw_sock s) (trace w2) =
         wire (raw_sock s) (trace w) @ take k (outBuffer s) @ outBuffer s)"
proof -
  let ?out = "outBuffer s"
  let ?w2 = "record_call pf (Sys_send (raw_sock s) ?out 0 (int (length ?out))) w1"
  have ne: "?out \<noteq> []" using assms(5) by auto
  have n: "notify idle_vtable Will_write (s, v) = (Inr (), (s, v))" for v :: "'b world_scheme"
    using assms(3) by (rule notify_idle)
  have d: "notify idle_vtable Did_write (s\<lparr>outBuffer := []\<rparr>, v) = (Inr (), (s\<lparr>outBuffer := []\<rparr>, v))"
    for v :: "'b world_scheme"
    using assms(3) by (simp add: notify_idle)
  have "write_from_buffer pf idle_vtable (s, w) = (Inr False, (s, w1))"
    using write_from_buffer_run [OF assms(1) ne n assms(1,2) refl ne assms(4) assms(6) [symmetric]
        _ _ assms(7)] assms(5) by simp
  moreover have "write_from_buffer pf idle_vtable (s, w1) = (Inr True, (s\<lparr>outBuffer := []\<rparr>, ?w2))"
    using write_from_buffer_run [OF assms(1) ne n assms(1,2) refl ne assms(4) assms(8) [symmetric]
        _ _ refl] d by (simp add: prog_simps)
  moreover have "wire (raw_sock s) (trace ?w2) =
      wire (raw_sock s) (trace w) @ take k ?out @ ?out"
    by (simp add: assms(7))
  ultimately show ?thesis by blast
qed

text \<open>A kernel that takes at most two bytes in the first call, everything later.\<close>

definition slow_kernel :: platform where
  "slow_kernel = granting\<lparr>os_send := (\<lambda>tr _ bs _. if tr = [] then 2 else int (length bs))\<rparr>"

lemma partial_write_duplicates_witness:
  "\<exists>w1 w2. write_from_buffer slow_kernel idle_vtable (sock0\<lparr>outBuffer := [1, 2, 3]\<rparr>, world0) =
       (Inr False, (sock0\<lparr>outBuffer := [1, 2, 3]\<rparr>, w1)) \<and>
     write_from_buffer slow_kernel idle_vtable (sock0\<lparr>outBuffer := [1, 2, 3]\<rparr>, w1) =
       (Inr True, (sock0\<lparr>outBuffer := []\<rparr>, w2)) \<and>
     wire 5 (trace w2) = [1, 2, 1, 2, 3]"
proof -
  let ?s = "sock0\<lparr>outBuffer := [1, 2, 3 :: byte]\<rparr>"
  let ?w1 = "record_call slow_kernel (Sys_send 5 [1, 2, 3] 0 2) world0"
  have v: "is_valid ?s" "ssl ?s = None" "None \<notin> set (listeners ?s)" "raw_sock ?s = 5"
    by simp_all
  have k: "os_send slow_kernel (trace world0) (raw_sock ?s) (outBuffer ?s) 0 = int 2"
    "os_send slow_kernel (trace ?w1) (raw_sock ?s) (outBuffer ?s) 0 = int (length (outBuffer ?s))"
    by (simp_all add: slow_kernel_def world0_def)
  from partial_write_duplicates [OF v(1-3) _ _ k(1) _ k(2)] v show ?thesis
    by (auto simp: world0_def)
qed

subsection \<open>Reading\<close>

text \<open>
  \<open>serves pf fd tr ds err\<close>: after the history \<open>tr\<close> the kernel answers the next reads of \<open>fd\<close>
  with the non-empty chunks \<open>ds\<close>, then with \<open>-1\<close> and \<open>errno = err\<close>.
\<close>

fun serves :: "platform \<Rightarrow> socket_fd \<Rightarrow> history \<Rightarrow> byte list list \<Rightarrow> int \<Rightarrow> bool" where
  "serves pf fd tr [] err \<longleftrightarrow>
     os_recv pf tr fd MAXRECV 0 = (-1, []) \<and> os_errno pf tr (Sys_recv fd MAXRECV 0 (-1)) = err"
| "serves pf fd tr (d # ds) err \<longleftrightarrow>
     os_recv pf tr fd MAXRECV 0 = (int (length d), d) \<and> d \<noteq> [] \<and> length d \<le> MAXRECV \<and>
     serves pf fd (tr @ [Sys_recv fd MAXRECV 0 (int (length d))]) ds err"

definition would_block :: "int \<Rightarrow> bool" where
  "would_block err \<longleftrightarrow> err = EINTR \<or> err = EAGAIN \<or> err = EWOULDBLOCK"

text \<open>The world after the chunks \<open>ds\<close> have been read.\<close>

fun after_reads ::
  "platform \<Rightarrow> socket_fd \<Rightarrow> byte list list \<Rightarrow> 'w world_scheme \<Rightarrow> 'w world_scheme" where
  "after_reads pf fd [] w = w"
| "after_reads pf fd (d # ds) w =
     after_reads pf fd ds (record_call pf (Sys_recv fd MAXRECV 0 (int (length d))) w)"

lemma read_chunk_data:
  assumes "is_valid s" and "ssl s = None"
    and "os_recv pf (trace w) (raw_sock s) MAXRECV 0 = (int (length d), d)"
    and "d \<noteq> []" and "length d \<le> MAXRECV"
  shows "read_chunk pf idle_vtable c (s, w) =
    (Inr (True, d), (s, record_call pf (Sys_recv (raw_sock s) MAXRECV 0 (int (length d))) w))"
proof -
  have "to_int (int (length d)) = int (length d)"
    using assms(5) by (intro to_int_small) (simp_all add: MAXRECV_def)
  with assms show ?thesis
    by (simp add: read_chunk_def socket_recv_def prog_simps Let_def idle_vtable_def socket_on_recv_def)
qed

lemma read_chunk_error:
  assumes "is_valid s" and "ssl s = None"
    and "os_recv pf (trace w) (raw_sock s) MAXRECV 0 = (-1, [])"
    and "os_errno pf (trace w) (Sys_recv (raw_sock s) MAXRECV 0 (-1)) = err"
    and "w' = record_call pf (Sys_recv (raw_sock s) MAXRECV 0 (-1)) w"
  shows "read_chunk pf vt c (s, w) =
    (if would_block err then (Inr (False, []), (s, w'))
     else (Inl (Socket_exception (os_strerror pf err)), (s, w')))"
  using assms
  by (simp add: read_chunk_def socket_recv_def prog_simps Let_def would_block_def)

lemma read_chunk_eof:
  assumes "is_valid s" and "ssl s = None"
    and "os_recv pf (trace w) (raw_sock s) MAXRECV 0 = (0, [])"
  shows "read_chunk pf vt c (s, w) =
    (Inr (False, []), (s, record_call pf (Sys_recv (raw_sock s) MAXRECV 0 0) w))"
  using assms
  by (simp add: read_chunk_def socket_recv_def prog_simps Let_def MAXRECV_def)

lemma read_loop_drains:
  assumes "is_valid s" and "ssl s = None" and "non_blocking s"
    and "serves pf (raw_sock s) (trace w) ds err" and "length ds < fuel"
    and "w' = record_call pf (Sys_recv (raw_sock s) MAXRECV 0 (-1)) (after_reads pf (raw_sock s) ds w)"
  shows "read_loop pf idle_vtable fuel d (s, w) =
    (if would_block err
     then (Inr (), (s\<lparr>inBuffer := inBuffer s @ d @ concat ds\<rparr>, w'))
     else (Inl (Socket_exception (os_strerror pf err)),
           (s\<lparr>inBuffer := inBuffer s @ d @ concat ds\<rparr>, w')))"
  using assms
proof (induction ds arbitrary: s w d fuel)
  case Nil
  then obtain n where n: "fuel = Suc n" by (cases fuel) auto
  let ?s = "s\<lparr>inBuffer := inBuffer s @ d\<rparr>"
  have "read_chunk pf idle_vtable d (?s, w) =
      (if would_block err then (Inr (False, []), (?s, w'))
       else (Inl (Socket_exception (os_strerror pf err)), (?s, w')))"
    using Nil by (intro read_chunk_error) (simp_all add: is_valid_def)
  with Nil n show ?case by (simp add: prog_simps)
next
  case (Cons e ds)
  then obtain n where n: "fuel = Suc n" by (cases fuel) auto
  let ?s = "s\<lparr>inBuffer := inBuffer s @ d\<rparr>"
  let ?w = "record_call pf (Sys_recv (raw_sock s) MAXRECV 0 (int (length e))) w"
  have c: "read_chunk pf idle_vtable d (?s, w) = (Inr (True, e), (?s, ?w))"
    using Cons.prems by (subst read_chunk_data) (simp_all add: is_valid_def)
  have "read_loop pf idle_vtable n e (?s, ?w) =
    (if would_block err
     then (Inr (), (?s\<lparr>inBuffer := inBuffer ?s @ e @ concat ds\<rparr>, w'))
     else (Inl (Socket_exception (os_strerror pf err)),
           (?s\<lparr>inBuffer := inBuffer ?s @ e @ concat ds\<rparr>, w')))"
    using Cons.prems n by (intro Cons.IH) (simp_all add: is_valid_def)
  with c Cons.prems(3) n show ?case by (simp add: prog_simps)
qed

lemma after_reads_trace:
  "trace (after_reads pf fd ds w) = trace w @ map (\<lambda>d. Sys_recv fd MAXRECV 0 (int (length d))) ds"
  by (induction ds arbitrary: w) simp_all

text \<open>The world after a read that drains the kernel: the chunks, then the refusal.\<close>

lemma read_drains_run:
  assumes "is_valid s" and "ssl s = None" and "non_blocking s" and "None \<notin> set (listeners s)"
    and "serves pf (raw_sock s) (trace w) ds err" and "would_block err" and "length ds \<le> fuel"
  shows "read_to_buffer pf idle_vtable fuel (s, w) =
    (Inr True, (s\<lparr>inBuffer := inBuffer s @ concat ds\<rparr>,
      record_call pf (Sys_recv (raw_sock s) MAXRECV 0 (-1)) (after_reads pf (raw_sock s) ds w)))"
proof (cases ds)
  case Nil
  have "read_chunk pf idle_vtable [] (s, w) =
      (Inr (False, []), (s, record_call pf (Sys_recv (raw_sock s) MAXRECV 0 (-1)) w))"
    using assms Nil by (subst read_chunk_error [where err = err]) simp_all
  with Nil assms(4) show ?thesis
    by (cases s) (simp add: read_to_buffer_def prog_simps notify_idle)
next
  case (Cons d ds')
  let ?w = "record_call pf (Sys_recv (raw_sock s) MAXRECV 0 (int (length d))) w"
  have c: "read_chunk pf idle_vtable [] (s, w) = (Inr (True, d), (s, ?w))"
    using assms Cons by (subst read_chunk_data) simp_all
  have "read_loop pf idle_vtable fuel d (s, ?w) = (Inr (), (s\<lparr>inBuffer := inBuffer s @ d @ concat ds'\<rparr>,
      record_call pf (Sys_recv (raw_sock s) MAXRECV 0 (-1)) (after_reads pf (raw_sock s) ds' ?w)))"
    using assms Cons by (subst read_loop_drains [where ds = ds' and err = err]) simp_all
  with c Cons assms(4) show ?thesis
    by (simp add: read_to_buffer_def prog_simps notify_idle)
qed

text \<open>
  C26: on a valid, non-blocking socket without TLS, whose listeners do nothing, \<open>read_to_buffer\<close>
  drains the kernel: if the kernel has the chunks \<open>ds\<close>, each of 1 to 500 bytes, and then would
  block, the call makes exactly one read for each of them and one more that would block, makes no
  other call, and returns success; the input buffer has grown by their concatenation, in order, and
  the object is otherwise unchanged. One unit of fuel per chunk suffices.
\<close>

theorem read_to_buffer_drains:
  assumes "is_valid s" and "ssl s = None" and "non_blocking s" and "None \<notin> set (listeners s)"
    and "serves pf (raw_sock s) (trace w) ds err" and "would_block err" and "length ds \<le> fuel"
  shows "\<exists>w'. read_to_buffer pf idle_vtable fuel (s, w) =
      (Inr True, (s\<lparr>inBuffer := inBuffer s @ concat ds\<rparr>, w')) \<and>
    trace w' = trace w @ map (\<lambda>d. Sys_recv (raw_sock s) MAXRECV 0 (int (length d))) ds @ [Sys_recv (raw_sock s) MAXRECV 0 (-1)]"
  using read_drains_run [OF assms] by (simp add: after_reads_trace)

text \<open>A kernel with two chunks to deliver.\<close>

definition two_chunks :: platform where
  "two_chunks = granting\<lparr>
     os_recv := (\<lambda>tr _ _ _. if tr = [] then (2, [104, 105]) else if length tr = 1 then (1, [33]) else (-1, [])),
     os_errno := (\<lambda>_ _. EAGAIN)\<rparr>"

lemma read_to_buffer_drains_witness:
  "\<exists>w'. read_to_buffer two_chunks idle_vtable 2 (sock0\<lparr>non_blocking := True\<rparr>, world0) =
     (Inr True, (sock0\<lparr>non_blocking := True, inBuffer := [104, 105, 33]\<rparr>, w')) \<and>
    trace w' = [Sys_recv 5 500 0 2, Sys_recv 5 500 0 1, Sys_recv 5 500 0 (-1)]"
proof -
  let ?s = "sock0\<lparr>non_blocking := True\<rparr>"
  have v: "is_valid ?s" "ssl ?s = None" "non_blocking ?s" "None \<notin> set (listeners ?s)" "inBuffer ?s = []"
    by simp_all
  have sv: "serves two_chunks (raw_sock ?s) (trace world0) [[104, 105], [33]] EAGAIN"
    by (simp add: two_chunks_def world0_def MAXRECV_def)
  have "would_block EAGAIN" by (simp add: would_block_def)
  from read_to_buffer_drains [OF v(1-4) sv this, of 2] v(5) show ?thesis by (simp add: world0_def MAXRECV_def)
qed

lemma read_blocking_run:
  assumes "is_valid s" and "ssl s = None" and "\<not> non_blocking s" and "None \<notin> set (listeners s)"
    and "os_recv pf (trace w) (raw_sock s) MAXRECV 0 = (int (length d), d)"
    and "d \<noteq> []" and "length d \<le> MAXRECV" and "0 < fuel"
  shows "read_to_buffer pf idle_vtable fuel (s, w) =
    (Inr True, (s\<lparr>inBuffer := inBuffer s @ d\<rparr>,
       record_call pf (Sys_recv (raw_sock s) MAXRECV 0 (int (length d))) w))"
proof -
  obtain n where n: "fuel = Suc n" using assms(8) by (cases fuel) auto
  have "read_chunk pf idle_vtable [] (s, w) =
      (Inr (True, d), (s, record_call pf (Sys_recv (raw_sock s) MAXRECV 0 (int (length d))) w))"
    using assms by (subst read_chunk_data) simp_all
  with n assms(3,4) show ?thesis
    by (simp add: read_to_buffer_def prog_simps notify_idle)
qed

text \<open>
  In blocking mode \<open>read_to_buffer\<close> takes one chunk, whatever else the kernel holds: exactly
  one read, at most 500 bytes.
\<close>

theorem read_to_buffer_blocking_one_chunk:
  assumes "is_valid s" and "ssl s = None" and "\<not> non_blocking s" and "None \<notin> set (listeners s)"
    and "os_recv pf (trace w) (raw_sock s) MAXRECV 0 = (int (length d), d)"
    and "d \<noteq> []" and "length d \<le> MAXRECV" and "0 < fuel"
  shows "read_to_buffer pf idle_vtable fuel (s, w) =
    (Inr True, (s\<lparr>inBuffer := inBuffer s @ d\<rparr>,
       record_call pf (Sys_recv (raw_sock s) MAXRECV 0 (int (length d))) w))"
  using assms by (rule read_blocking_run)

lemma read_to_buffer_blocking_one_chunk_witness:
  "read_to_buffer two_chunks idle_vtable 1 (sock0, world0) =
     (Inr True, (sock0\<lparr>inBuffer := [104, 105]\<rparr>,
        record_call two_chunks (Sys_recv 5 500 0 2) world0))"
proof -
  have v: "is_valid sock0" "ssl sock0 = None" "\<not> non_blocking sock0" "None \<notin> set (listeners sock0)"
    "inBuffer sock0 = []" "raw_sock sock0 = 5"
    by simp_all
  have r: "os_recv two_chunks (trace world0) (raw_sock sock0) MAXRECV 0 =
      (int (length [104, 105 :: byte]), [104, 105])"
    by (simp add: two_chunks_def world0_def)
  from read_to_buffer_blocking_one_chunk [OF v(1-4) r, of 1] v show ?thesis
    by (simp add: MAXRECV_def)
qed

text \<open>
  An error while draining is reported as failure, but the chunks read before it stay in the
  input buffer and no listener hears of them.
\<close>

theorem read_to_buffer_error_keeps_data:
  assumes "is_valid s" and "ssl s = None" and "non_blocking s" and "None \<notin> set (listeners s)"
    and "serves pf (raw_sock s) (trace w) ds err" and "\<not> would_block err" and "length ds \<le> fuel"
  shows "\<exists>w'. read_to_buffer pf idle_vtable fuel (s, w) =
    (Inr False, (s\<lparr>inBuffer := inBuffer s @ concat ds\<rparr>, w'))"
proof (cases ds)
  case Nil
  have "read_chunk pf idle_vtable [] (s, w) =
      (Inl (Socket_exception (os_strerror pf err)),
       (s, record_call pf (Sys_recv (raw_sock s) MAXRECV 0 (-1)) w))"
    using assms Nil by (subst read_chunk_error [where err = err]) simp_all
  with Nil assms(4) show ?thesis
    by (cases s) (simp add: read_to_buffer_def prog_simps notify_idle)
next
  case (Cons d ds')
  let ?w = "record_call pf (Sys_recv (raw_sock s) MAXRECV 0 (int (length d))) w"
  have c: "read_chunk pf idle_vtable [] (s, w) = (Inr (True, d), (s, ?w))"
    using assms Cons by (subst read_chunk_data) simp_all
  obtain w' where "read_loop pf idle_vtable fuel d (s, ?w) =
      (Inl (Socket_exception (os_strerror pf err)),
       (s\<lparr>inBuffer := inBuffer s @ d @ concat ds'\<rparr>, w'))"
    using assms Cons read_loop_drains [of s pf ?w ds' err fuel _ d] by fastforce
  with c Cons assms(4) show ?thesis
    by (simp add: read_to_buffer_def prog_simps notify_idle)
qed

lemma read_to_buffer_error_keeps_data_witness:
  "\<exists>w'. read_to_buffer (two_chunks\<lparr>os_errno := (\<lambda>_ _. 104)\<rparr>) idle_vtable 2
       (sock0\<lparr>non_blocking := True\<rparr>, world0) =
     (Inr False, (sock0\<lparr>non_blocking := True, inBuffer := [104, 105, 33]\<rparr>, w'))"
proof -
  let ?s = "sock0\<lparr>non_blocking := True\<rparr>"
  have v: "is_valid ?s" "ssl ?s = None" "non_blocking ?s" "None \<notin> set (listeners ?s)" "inBuffer ?s = []"
    by simp_all
  have sv: "serves (two_chunks\<lparr>os_errno := (\<lambda>_ _. 104)\<rparr>) (raw_sock ?s) (trace world0)
      [[104, 105], [33]] 104"
    by (simp add: two_chunks_def world0_def MAXRECV_def)
  have "\<not> would_block 104" by (simp add: would_block_def posix_consts)
  from read_to_buffer_error_keeps_data [OF v(1-4) sv this, of 2] v(5) show ?thesis by simp
qed

text \<open>
  The end of the stream looks like success: when the peer has closed the connection (the
  read returns 0), \<open>read_to_buffer\<close> returns true and leaves the socket as it was, valid and
  open, so its caller cannot tell the closed connection from one with nothing to read.
\<close>

theorem read_to_buffer_ignores_eof:
  assumes "is_valid s" and "ssl s = None" and "None \<notin> set (listeners s)"
    and "os_recv pf (trace w) (raw_sock s) MAXRECV 0 = (0, [])"
  shows "read_to_buffer pf idle_vtable fuel (s, w) =
    (Inr True, (s, record_call pf (Sys_recv (raw_sock s) MAXRECV 0 0) w))"
  using read_chunk_eof [OF assms(1,2,4)] assms(3)
  by (simp add: read_to_buffer_def prog_simps notify_idle)

lemma read_to_buffer_ignores_eof_witness:
  "read_to_buffer granting idle_vtable 3 (sock0, world0) =
     (Inr True, (sock0, record_call granting (Sys_recv 5 500 0 0) world0))"
proof -
  have v: "is_valid sock0" "ssl sock0 = None" "None \<notin> set (listeners sock0)" "raw_sock sock0 = 5"
    by simp_all
  have "os_recv granting (trace world0) (raw_sock sock0) MAXRECV 0 = (0, [])"
    by (simp add: granting_def)
  from read_to_buffer_ignores_eof [OF v(1-3) this, of 3] v show ?thesis by (simp add: MAXRECV_def)
qed

end
