(* ===== verification/Telnet.thy ===== *)
theory Telnet
  imports Buffered_Facts
begin

section \<open>The Telnet socket (\<open>telnet/protocol.h\<close>, \<open>telnet/socket.h\<close>, \<open>telnet/socket.cpp\<close>)\<close>

text \<open>
  \<open>telnet_socket\<close> overrides \<open>on_recv\<close>: it removes the Telnet commands from a received chunk,
  in place, and reports option negotiations and subnegotiations to two pure virtual functions.
\<close>

definition SE :: byte where "SE = 240"
definition NOP :: byte where "NOP = 241"
definition DATA_MARK :: byte where "DATA_MARK = 242"
definition BREAK :: byte where "BREAK = 243"
definition INTERRUPT_PROCESS :: byte where "INTERRUPT_PROCESS = 244"
definition ABORT_OUTPUT :: byte where "ABORT_OUTPUT = 245"
definition ARE_YOU_THERE :: byte where "ARE_YOU_THERE = 246"
definition ERASE_CHAR :: byte where "ERASE_CHAR = 247"
definition ERASE_LINE :: byte where "ERASE_LINE = 248"
definition GO_AHEAD :: byte where "GO_AHEAD = 249"
definition SB :: byte where "SB = 250"
definition WILL :: byte where "WILL = 251"
definition WONT :: byte where "WONT = 252"
definition DO :: byte where "DO = 253"
definition DONT :: byte where "DONT = 254"
definition IAC :: byte where "IAC = 255"

lemmas telnet_consts = SE_def SB_def WILL_def WONT_def DO_def DONT_def IAC_def

definition is_option_command :: "byte \<Rightarrow> bool" where
  "is_option_command c \<longleftrightarrow> c = WILL \<or> c = WONT \<or> c = DO \<or> c = DONT"

text \<open>A call of a virtual function, and the functions themselves.\<close>

datatype telnet_call =
    On_telopt byte byte
  | On_sub_neg byte "byte list"

record 's telnet_hooks =
  t_telopt :: "byte \<Rightarrow> byte \<Rightarrow> ('s, unit) prog"
  t_sub_neg :: "byte \<Rightarrow> byte list \<Rightarrow> ('s, unit) prog"

fun deliver :: "'s telnet_hooks \<Rightarrow> telnet_call \<Rightarrow> ('s, unit) prog" where
  "deliver th (On_telopt c opt) = t_telopt th c opt"
| "deliver th (On_sub_neg ty params) = t_sub_neg th ty params"

text \<open>
  The two handlers: what they call, the buffer after their \<open>erase\<close>, and the position they
  return. A vector built from an inverted range of iterators is undefined.
\<close>

definition handle_telopt :: "byte list \<Rightarrow> nat \<Rightarrow> telnet_call option \<times> byte list \<times> nat" where
  "handle_telopt s it =
     (if it = length s then (None, s, it)
      else
        let pos = Suc it in
        if pos = length s then (None, s, pos)
        else (Some (On_telopt (s ! it) (s ! pos)), erase_range s it (Suc pos), it))"

definition handle_sub_neg ::
  "byte list \<Rightarrow> nat \<Rightarrow> exn + telnet_call option \<times> byte list \<times> nat" where
  "handle_sub_neg s it =
     (if it = length s \<or> Suc it = length s then Inr (None, s, it)
      else
        let ty = s ! Suc it; pos = find_from (\<lambda>b. b = IAC) s (Suc it) in
        if pos = length s \<or> s ! pos \<noteq> IAC then Inr (None, s, it)
        else if Suc pos = length s \<or> s ! Suc pos \<noteq> SE \<or> it + 2 = length s then Inr (None, s, it)
        else if pos < it + 2 then Inl Undefined_behaviour
        else Inr (Some (On_sub_neg ty (sub_range s (it + 2) pos)), erase_range s it (pos + 2), it))"

text \<open>One turn of the loop, at the position of an IAC that is not the last byte.\<close>

definition telnet_step :: "byte list \<Rightarrow> nat \<Rightarrow> exn + telnet_call option \<times> byte list \<times> nat" where
  "telnet_step s pos =
     (let s1 = erase_at s pos; c = s1 ! pos in
      if c = IAC then Inr (None, erase_at s1 pos, pos)
      else if is_option_command c then Inr (handle_telopt s1 pos)
      else if c = SB then handle_sub_neg s1 pos
      else Inr (None, s1, pos))"

lemma erase_at_less: "pos < length s \<Longrightarrow> length (erase_at s pos) < length s"
  by (simp add: erase_range_def)

lemma erase_range_le: "i \<le> j \<Longrightarrow> length (erase_range s i j) \<le> length s"
  by (simp add: erase_range_def)

lemma telnet_step_less:
  assumes "Suc pos < length s" and "telnet_step s pos = Inr (cb, s', it)"
  shows "length s' < length s"
proof -
  let ?s1 = "erase_at s pos"
  have l: "length ?s1 < length s" using assms(1) by (intro erase_at_less) simp
  have "length s' \<le> length ?s1"
    using assms(2) find_from_ge [of "Suc pos" "\<lambda>b. b = IAC" ?s1]
    by (auto simp: telnet_step_def handle_telopt_def handle_sub_neg_def Let_def
        split: if_splits intro!: erase_range_le)
  with l show ?thesis by simp
qed

function telnet_loop :: "'s telnet_hooks \<Rightarrow> byte list \<Rightarrow> nat \<Rightarrow> ('s, byte list) prog" where
  "telnet_loop th s pos =
     (if Suc pos < length s
      then
        (case telnet_step s pos of
           Inl e \<Rightarrow> praise e
         | Inr (cb, s', it) \<Rightarrow>
             pthen (case cb of None \<Rightarrow> pret () | Some c \<Rightarrow> deliver th c)
               (telnet_loop th s' (find_from (\<lambda>b. b = IAC) s' it)))
      else pret s)"
  by pat_completeness auto
termination
  by (relation "measure (\<lambda>(th, s, pos). length s)") (auto intro: telnet_step_less)

declare telnet_loop.simps [simp del]

definition telnet_on_recv :: "'s telnet_hooks \<Rightarrow> byte list \<Rightarrow> ('s, byte list) prog" where
  "telnet_on_recv th s = telnet_loop th s (find_from (\<lambda>b. b = IAC) s 0)"

definition send_telopt :: "platform \<Rightarrow> byte \<Rightarrow> byte \<Rightarrow> ('a, 'w, unit) sprog" where
  "send_telopt pf action opt =
     (if is_option_command action
      then pthen (socket_send pf (Some [IAC, action, opt]) 0) (pret ())
      else praise Aborted)"

text \<open>The constructors; a telnet socket has no members of its own.\<close>

definition telnet_of_raw :: "socket_fd \<Rightarrow> sockaddr \<Rightarrow> buffered" where
  "telnet_of_raw fd a = buffered_of_raw fd a"

definition telnet_open ::
  "platform \<Rightarrow> string \<Rightarrow> int \<Rightarrow> 'w world_scheme \<Rightarrow> (exn + buffered) \<times> 'w world_scheme" where
  "telnet_open pf host port w = buffered_open pf host port w"

text \<open>The table of a telnet socket: \<open>on_recv\<close> is the filter, the rest is inherited.\<close>

definition telnet_vtable ::
  "('a, 'w) bstate telnet_hooks \<Rightarrow> ('a, 'w) vtable \<Rightarrow> ('a, 'w) vtable" where
  "telnet_vtable th vt = vt\<lparr>v_on_recv := telnet_on_recv th\<rparr>"

subsection \<open>What the loop computes: a scanner\<close>

text \<open>
  The specification reads the chunk once from left to right. \<open>sub_split\<close> looks at what follows
  IAC SB: an incomplete subnegotiation, a complete one (type, parameters, rest), or the
  malformed one without a type.
\<close>

datatype sub_result = Incomplete | Malformed | Complete byte "byte list" "byte list"

definition sub_split :: "byte list \<Rightarrow> sub_result" where
  "sub_split r =
     (case r of
        [] \<Rightarrow> Incomplete
      | ty # r1 \<Rightarrow>
          if ty = IAC then (case r1 of c # _ \<Rightarrow> if c = SE then Malformed else Incomplete | [] \<Rightarrow> Incomplete)
          else
            (case dropWhile (\<lambda>b. b \<noteq> IAC) r1 of
               i # c # rest \<Rightarrow>
                 if c = SE then Complete ty (takeWhile (\<lambda>b. b \<noteq> IAC) r1) rest else Incomplete
             | _ \<Rightarrow> Incomplete))"

definition emit :: "'b list \<Rightarrow> 'c list \<times> (exn + 'b list) \<Rightarrow> 'c list \<times> (exn + 'b list)" where
  "emit bs p = (fst p, map_sum id ((@) bs) (snd p))"

definition calling :: "'c \<Rightarrow> 'c list \<times> (exn + 'b list) \<Rightarrow> 'c list \<times> (exn + 'b list)" where
  "calling c p = (c # fst p, snd p)"

lemma sub_split_less: "sub_split r = Complete ty params rest \<Longrightarrow> length rest < length r"
proof -
  assume c: "sub_split r = Complete ty params rest"
  then obtain r1 where r: "r = ty # r1" and "length (dropWhile (\<lambda>b. b \<noteq> IAC) r1) = length rest + 2"
    by (auto simp: sub_split_def split: list.splits if_splits)
  then show ?thesis
    using length_dropWhile_le [of "\<lambda>b. b \<noteq> IAC" r1] by simp
qed

function scan :: "byte list \<Rightarrow> telnet_call list \<times> (exn + byte list)" where
  "scan [] = ([], Inr [])"
| "scan [b] = ([], Inr [b])"
| "scan (b # c # r) =
     (if b \<noteq> IAC then emit [b] (scan (c # r))
      else if c = IAC then scan r
      else if is_option_command c
      then (case r of [] \<Rightarrow> ([], Inr [c]) | opt # r' \<Rightarrow> calling (On_telopt c opt) (scan r'))
      else if c = SB
      then (case sub_split r of
              Incomplete \<Rightarrow> emit [c] (scan r)
            | Malformed \<Rightarrow> ([], Inl Undefined_behaviour)
            | Complete ty params rest \<Rightarrow> calling (On_sub_neg ty params) (scan rest))
      else emit [c] (scan r))"
  by pat_completeness auto
termination
  by (relation "measure length") (auto dest: sub_split_less)

declare scan.simps(3) [simp del]

definition run_scan :: "'s telnet_hooks \<Rightarrow> byte list \<Rightarrow> ('s, byte list) prog" where
  "run_scan th s =
     (case scan s of (cs, r) \<Rightarrow>
        pthen (piter (deliver th) cs) (case r of Inl e \<Rightarrow> praise e | Inr d \<Rightarrow> pret d))"

end
