(* ===== verification/Telnet_Facts.thy ===== *)
theory Telnet_Facts
  imports Telnet
begin

section \<open>The Telnet filter: refinement, round trip, and where it goes wrong\<close>

subsection \<open>The in-place loop refines the scanner\<close>

definition finish ::
  "'s telnet_hooks \<Rightarrow> byte list \<Rightarrow> telnet_call list \<times> (exn + byte list) \<Rightarrow> ('s, byte list) prog" where
  "finish th pre p =
     pthen (piter (deliver th) (fst p))
       (case snd p of Inl e \<Rightarrow> praise e | Inr d \<Rightarrow> pret (pre @ d))"

lemma finish_emit: "finish th pre (emit bs p) = finish th (pre @ bs) p"
  by (cases p; cases "snd p") (auto simp: finish_def emit_def)

lemma finish_calling: "finish th pre (calling c p) = pthen (deliver th c) (finish th pre p)"
  by (simp add: finish_def calling_def pthen_def pbind_assoc)

lemma finish_done: "finish th pre ([], Inr d) = pret (pre @ d)"
  by (simp add: finish_def pthen_def)

lemma emit_emit: "emit as (emit bs p) = emit (as @ bs) p"
  by (cases "snd p") (auto simp: emit_def)

lemma scan_skip: "\<forall>x\<in>set a. x \<noteq> IAC \<Longrightarrow> scan (a @ bs) = emit a (scan bs)"
proof (induction a)
  case Nil
  show ?case by (cases "scan bs"; cases "snd (scan bs)") (auto simp: emit_def)
next
  case (Cons x a)
  then have IH: "scan (a @ bs) = emit a (scan bs)" and x: "x \<noteq> IAC" by auto
  show ?case
  proof (cases "a @ bs")
    case Nil
    then show ?thesis by (simp add: emit_def)
  next
    case (Cons y ys)
    have "scan (x # y # ys) = emit [x] (scan (y # ys))" using x by (simp add: scan.simps(3))
    with Cons IH show ?thesis by (simp add: emit_emit flip: Cons)
  qed
qed

lemma find_from_at: "find_from P (p @ ys) (length p + n) = length p + find_from P ys n"
  by (simp add: find_from_def)

lemma handle_sub_neg_split:
  "handle_sub_neg (p @ c # r) (length p) =
     (case sub_split r of
        Incomplete \<Rightarrow> Inr (None, p @ c # r, length p)
      | Malformed \<Rightarrow> Inl Undefined_behaviour
      | Complete ty params rest \<Rightarrow> Inr (Some (On_sub_neg ty params), p @ rest, length p))"
proof (cases r)
  case Nil
  then show ?thesis by (simp add: handle_sub_neg_def sub_split_def)
next
  case (Cons ty r1)
  let ?s = "p @ c # ty # r1"
  have ty: "?s ! Suc (length p) = ty" by (simp add: nth_append)
  show ?thesis
  proof (cases "ty = IAC")
    case True
    have "find_from (\<lambda>b. b = IAC) ?s (Suc (length p)) = Suc (length p)"
      using find_from_hit [of "[]" "\<lambda>b. b = IAC" IAC "p @ [c]" r1] True by simp
    moreover have "?s ! Suc (Suc (length p)) = hd r1" if "r1 \<noteq> []"
      using that by (cases r1) (simp_all add: nth_append)
    ultimately show ?thesis using True Cons ty
      by (cases r1) (auto simp: handle_sub_neg_def sub_split_def Let_def)
  next
    case False
    let ?a = "takeWhile (\<lambda>b. b \<noteq> IAC) r1"
    have ne: "\<And>x. x \<in> set (ty # ?a) \<Longrightarrow> x \<noteq> IAC" using False by (auto dest: set_takeWhileD)
    show ?thesis
    proof (cases "dropWhile (\<lambda>b. b \<noteq> IAC) r1")
      case Nil
      then have "\<And>x. x \<in> set (ty # r1) \<Longrightarrow> x \<noteq> IAC"
        using False by (auto simp: dropWhile_eq_Nil_conv)
      then have "find_from (\<lambda>b. b = IAC) ?s (Suc (length p)) = length ?s"
        using find_from_miss [of "ty # r1" "\<lambda>b. b = IAC" "p @ [c]"] by simp
      moreover have "sub_split r = Incomplete"
        using Nil \<open>r = ty # r1\<close> False by (simp only: sub_split_def list.case if_False)
      ultimately show ?thesis using \<open>r = ty # r1\<close>
        by (simp only: sub_result.case) (simp add: handle_sub_neg_def Let_def)
    next
      case (Cons i more)
      then have i: "i = IAC" by (metis (mono_tags) dropWhile_eq_Cons_conv)
      have "r1 = ?a @ IAC # more"
        using Cons i by (metis takeWhile_dropWhile_id)
      then obtain a where a: "r1 = a @ IAC # more" and na: "\<forall>x\<in>set (ty # a). x \<noteq> IAC"
        using ne by blast
      have tw: "takeWhile (\<lambda>b. b \<noteq> IAC) r1 = a" "dropWhile (\<lambda>b. b \<noteq> IAC) r1 = IAC # more"
        using na unfolding a by (simp_all add: takeWhile_tail dropWhile_append3)
      have pos: "find_from (\<lambda>b. b = IAC) ?s (Suc (length p)) = Suc (Suc (length p + length a))"
        using find_from_hit [of "ty # a" "\<lambda>b. b = IAC" IAC "p @ [c]" more] na a by simp
      have at: "?s ! Suc (Suc (length p + length a)) = IAC"
        unfolding a by (simp add: nth_append)
      have after: "?s ! Suc (Suc (Suc (length p + length a))) = hd more" if "more \<noteq> []"
        using that unfolding a by (cases more) (simp_all add: nth_append)
      show ?thesis
        using pos at after ty False tw a \<open>r = ty # r1\<close>
        by (cases more) (auto simp: handle_sub_neg_def sub_split_def Let_def sub_range_def
            erase_range_def numeral_eq_Suc)
    qed
  qed
qed

lemma telnet_loop_finish:
  "telnet_loop th (pre @ bs) (find_from (\<lambda>b. b = IAC) (pre @ bs) (length pre)) =
     finish th pre (scan bs)"
proof (induction "length bs" arbitrary: pre bs rule: less_induct)
  case less
  let ?f = "\<lambda>b :: byte. b = IAC"
  let ?a = "takeWhile (\<lambda>b. b \<noteq> IAC) bs"
  have ne: "\<forall>x\<in>set ?a. x \<noteq> IAC" by (auto dest: set_takeWhileD)
  have pos: "find_from ?f (pre @ bs) (length pre) = length (pre @ ?a)"
    by (simp add: find_from_append)
  have IH: "telnet_loop th (p @ r) (find_from ?f (p @ r) (length p)) = finish th p (scan r)"
    if "length r < length bs" for p r
    using less that by simp
  show ?case
  proof (cases "dropWhile (\<lambda>b. b \<noteq> IAC) bs")
    case Nil
    then have a: "?a = bs" by (metis append_Nil2 takeWhile_dropWhile_id)
    have "scan bs = emit bs ([], Inr [])"
      using scan_skip [OF ne, of "[]"] unfolding a by simp
    moreover have "telnet_loop th (pre @ bs) (length (pre @ bs)) = pret (pre @ bs)"
      by (subst telnet_loop.simps) simp
    ultimately show ?thesis
      using pos unfolding a by (simp add: finish_emit finish_done)
  next
    case (Cons i more)
    then have i: "i = IAC" by (metis (mono_tags) dropWhile_eq_Cons_conv)
    define p where "p = pre @ ?a"
    have bs: "bs = ?a @ IAC # more" using Cons i by (metis takeWhile_dropWhile_id)
    have scan_bs: "scan bs = emit ?a (scan (IAC # more))"
      using scan_skip [OF ne, of "IAC # more"] bs by simp
    have buf: "pre @ bs = p @ IAC # more" using bs by (simp add: p_def)
    show ?thesis
    proof (cases more)
      case Nil
      have "telnet_loop th (p @ [IAC]) (length p) = pret (p @ [IAC])"
        by (subst telnet_loop.simps) simp
      moreover have "finish th pre (scan bs) = pret (p @ [IAC])"
        unfolding scan_bs using Nil by (simp add: finish_emit finish_done p_def)
      moreover have "find_from ?f (p @ [IAC]) (length pre) = length p"
        using pos buf Nil by (simp add: p_def)
      ultimately show ?thesis
        using buf Nil by simp
    next
      case (Cons c r)
      have len: "Suc (length r) < length bs" using bs Cons by (metis add_Suc_right length_Cons
            length_append less_add_Suc2)
      have s1: "erase_at (p @ IAC # c # r) (length p) = p @ c # r"
        by (simp add: erase_range_def)
      have run: "telnet_loop th (p @ IAC # c # r) (length p) =
          (case telnet_step (p @ IAC # c # r) (length p) of
             Inl e \<Rightarrow> praise e
           | Inr (cb, s', it) \<Rightarrow> pthen (case cb of None \<Rightarrow> pret () | Some x \<Rightarrow> deliver th x)
               (telnet_loop th s' (find_from ?f s' it)))"
        by (subst telnet_loop.simps) simp
      have step: "telnet_step (p @ IAC # c # r) (length p) =
          (if c = IAC then Inr (None, p @ r, length p)
           else if is_option_command c then Inr (handle_telopt (p @ c # r) (length p))
           else if c = SB then handle_sub_neg (p @ c # r) (length p)
           else Inr (None, p @ c # r, length p))"
        by (simp add: telnet_step_def s1 Let_def) (simp add: erase_range_def)
      have goal: "telnet_loop th (p @ IAC # c # r) (length p) = finish th p (scan (IAC # c # r))"
      proof -
        have plain: "telnet_loop th (p @ c # r) (find_from ?f (p @ c # r) (length p)) =
            finish th p (emit [c] (scan r))" if "c \<noteq> IAC"
          using IH [of "c # r" p] len scan_skip [of "[c]" r] that by simp
        consider (iac) "c = IAC" | (opt) "c \<noteq> IAC" "is_option_command c"
          | (sb) "c \<noteq> IAC" "\<not> is_option_command c" "c = SB"
          | (other) "c \<noteq> IAC" "\<not> is_option_command c" "c \<noteq> SB" by blast
        then show ?thesis
        proof cases
          case iac
          then show ?thesis
            using run step IH [of r p] len by (simp add: scan.simps(3) pthen_def)
        next
          case opt
          show ?thesis
          proof (cases r)
            case Nil
            then show ?thesis using run step opt
              by (simp add: scan.simps(3) handle_telopt_def pthen_def finish_done find_from_def
                  telnet_loop.simps [of th "p @ [c]"])
          next
            case (Cons o1 r')
            then have "handle_telopt (p @ c # r) (length p) = (Some (On_telopt c o1), p @ r', length p)"
              by (simp add: handle_telopt_def Let_def erase_range_def nth_append)
            then show ?thesis
              using run step opt Cons IH [of r' p] len by (simp add: scan.simps(3) finish_calling)
          qed
        next
          case sb
          show ?thesis
          proof (cases "sub_split r")
            case Incomplete
            then show ?thesis using run step sb plain
              by (simp add: scan.simps(3) handle_sub_neg_split pthen_def)
          next
            case Malformed
            then show ?thesis using run step sb
              by (simp add: scan.simps(3) handle_sub_neg_split finish_def pthen_def)
          next
            case (Complete ty params rest)
            then show ?thesis using run step sb IH [of rest p] len sub_split_less [OF Complete]
              by (simp add: scan.simps(3) handle_sub_neg_split finish_calling)
          qed
        next
          case other
          then show ?thesis using run step plain by (simp add: scan.simps(3) pthen_def)
        qed
      qed
      show ?thesis
        using goal pos buf scan_bs Cons by (simp add: finish_emit p_def)
    qed
  qed
qed

lemma telnet_on_recv_eq: "telnet_on_recv th s = run_scan th s"
  using telnet_loop_finish [of th "[]" s]
  by (cases "scan s"; cases "snd (scan s)") (simp_all add: telnet_on_recv_def run_scan_def finish_def)

text \<open>
  C14: the in-place filter is a one-pass scanner: for every chunk and whatever the virtual
  functions do, the loop of finds and erases makes the calls the scanner lists, in that order,
  and leaves the data it computes; in particular it always stops.
\<close>

theorem telnet_on_recv_refines_scan:
  "telnet_on_recv th s = run_scan th s"
  by (rule telnet_on_recv_eq)

subsection \<open>Telnet streams\<close>

text \<open>A Telnet stream as a peer composes it: data, option negotiations, subnegotiations.\<close>

datatype telnet_item =
    Text "byte list"
  | Negotiate byte byte
  | Subnegotiate byte "byte list"

fun item_ok :: "telnet_item \<Rightarrow> bool" where
  "item_ok (Text d) \<longleftrightarrow> IAC \<notin> set d"
| "item_ok (Negotiate c opt) \<longleftrightarrow> is_option_command c"
| "item_ok (Subnegotiate ty params) \<longleftrightarrow> ty \<noteq> IAC \<and> IAC \<notin> set params"

fun item_bytes :: "telnet_item \<Rightarrow> byte list" where
  "item_bytes (Text d) = d"
| "item_bytes (Negotiate c opt) = [IAC, c, opt]"
| "item_bytes (Subnegotiate ty params) = [IAC, SB, ty] @ params @ [IAC, SE]"

fun item_data :: "telnet_item \<Rightarrow> byte list" where
  "item_data (Text d) = d"
| "item_data _ = []"

fun item_calls :: "telnet_item \<Rightarrow> telnet_call list" where
  "item_calls (Text d) = []"
| "item_calls (Negotiate c opt) = [On_telopt c opt]"
| "item_calls (Subnegotiate ty params) = [On_sub_neg ty params]"

definition stream_bytes :: "telnet_item list \<Rightarrow> byte list" where
  "stream_bytes items = concat (map item_bytes items)"

definition stream_data :: "telnet_item list \<Rightarrow> byte list" where
  "stream_data items = concat (map item_data items)"

definition stream_calls :: "telnet_item list \<Rightarrow> telnet_call list" where
  "stream_calls items = concat (map item_calls items)"

lemmas stream_defs = stream_bytes_def stream_data_def stream_calls_def

lemma option_command_not: "is_option_command c \<Longrightarrow> c \<noteq> IAC" "\<not> is_option_command SB" "SB \<noteq> IAC"
  by (auto simp: is_option_command_def telnet_consts)

lemma scan_item:
  assumes "item_ok x"
  shows "scan (item_bytes x @ rest) =
    (item_calls x @ fst (scan rest), map_sum id ((@) (item_data x)) (snd (scan rest)))"
proof (cases x)
  case (Text d)
  then show ?thesis using assms scan_skip [of d rest] by (auto simp: emit_def)
next
  case (Negotiate c opt)
  then show ?thesis using assms option_command_not
    by (cases "snd (scan rest)") (auto simp: scan.simps(3) calling_def)
next
  case (Subnegotiate ty params)
  have ne: "\<forall>b\<in>set params. b \<noteq> IAC" using assms Subnegotiate by auto
  have "sub_split (ty # params @ IAC # SE # rest) = Complete ty params rest"
    using assms Subnegotiate ne by (simp add: sub_split_def takeWhile_tail dropWhile_append3)
  then show ?thesis using Subnegotiate option_command_not
    by (cases "snd (scan rest)") (auto simp: scan.simps(3) calling_def)
qed

lemma scan_stream:
  "\<forall>x\<in>set items. item_ok x \<Longrightarrow>
     scan (stream_bytes items) = (stream_calls items, Inr (stream_data items))"
  by (induction items) (auto simp: stream_defs scan_item)

text \<open>
  C15: a Telnet stream is decoded as it was composed: if a chunk holds complete items, which are text
  without the byte IAC, negotiations with one of the four commands, and subnegotiations of a type
  other than IAC whose parameters do not contain IAC, then the virtual functions are called for the
  negotiations and subnegotiations in order, with their parameters, and what is left for the input
  buffer is the text, and only the text. (An IAC in text or parameters, which the protocol doubles,
  is not undone by the code.)
\<close>

theorem telnet_stream_roundtrip:
  assumes "\<forall>x\<in>set items. item_ok x"
  shows "telnet_on_recv th (stream_bytes items) =
    pthen (piter (deliver th) (stream_calls items)) (pret (stream_data items))"
  using scan_stream [OF assms] by (simp add: telnet_on_recv_eq run_scan_def)

text \<open>Virtual functions that log their calls in the state.\<close>

definition logging :: "telnet_call list telnet_hooks" where
  "logging = \<lparr>t_telopt = (\<lambda>c opt. pmod (\<lambda>l. l @ [On_telopt c opt])),
              t_sub_neg = (\<lambda>ty ps. pmod (\<lambda>l. l @ [On_sub_neg ty ps]))\<rparr>"

lemma telnet_stream_roundtrip_witness:
  "telnet_on_recv logging ([104] @ [255, 251, 1] @ [105] @ [255, 250, 24, 0, 65, 255, 240]) [] =
     (Inr [104, 105], [On_telopt 251 1, On_sub_neg 24 [0, 65]])"
proof -
  let ?items = "[Text [104], Negotiate 251 1, Text [105], Subnegotiate 24 [0, 65]]"
  have "\<forall>x\<in>set ?items. item_ok x" by (simp add: is_option_command_def telnet_consts)
  from telnet_stream_roundtrip [OF this, of logging] show ?thesis
    by (simp add: stream_defs telnet_consts prog_simps logging_def)
qed

subsection \<open>Where the filter goes wrong\<close>

lemma sub_split_malformed: "sub_split r = Malformed \<longleftrightarrow> (\<exists>rest. r = IAC # SE # rest)"
proof (cases r)
  case (Cons ty r1)
  show ?thesis
  proof (cases "ty = IAC")
    case True
    then show ?thesis using Cons by (cases r1) (auto simp: sub_split_def)
  next
    case False
    show ?thesis
    proof (cases "dropWhile (\<lambda>b. b \<noteq> IAC) r1")
      case (Cons i r2)
      then show ?thesis using False \<open>r = ty # r1\<close> by (cases r2) (simp_all add: sub_split_def)
    next
      case Nil
      show ?thesis unfolding sub_split_def \<open>r = ty # r1\<close> using False by (simp add: Nil del: dropWhile_eq_Nil_conv)
    qed
  qed
qed (simp add: sub_split_def)

lemma sub_split_suffix: "sub_split r = Complete ty params rest \<Longrightarrow> suffix rest r"
proof -
  assume "sub_split r = Complete ty params rest"
  then obtain r1 i where r: "r = ty # r1" and d: "dropWhile (\<lambda>b. b \<noteq> IAC) r1 = i # SE # rest"
    by (auto simp: sub_split_def split: list.splits if_splits)
  have "suffix (i # SE # rest) r1" using d by (metis suffix_dropWhile)
  then show ?thesis using r by (auto simp: suffix_def)
qed

lemma sublist_suffix: "sublist xs r \<Longrightarrow> suffix r s \<Longrightarrow> sublist xs s"
  by (meson sublist_order.order.trans suffix_imp_sublist)

lemma suffix_tails: "suffix r (b # r)" "suffix r (b # c # r)" "suffix r (b # c # d # r)"
  by (auto simp: suffix_def)

lemma scan_error:
  "scan s = (cs, Inl e) \<Longrightarrow> e = Undefined_behaviour \<and> sublist [IAC, SB, IAC, SE] s"
proof (induction s arbitrary: cs rule: scan.induct)
  case (3 b c r)
  note sub = sublist_suffix [OF _ suffix_tails(1)] sublist_suffix [OF _ suffix_tails(2)]
    sublist_suffix [OF _ suffix_tails(3)]
  consider "b \<noteq> IAC" | "b = IAC" "c = IAC" | "b = IAC" "c \<noteq> IAC" "is_option_command c"
    | "b = IAC" "c \<noteq> IAC" "\<not> is_option_command c" "c = SB"
    | "b = IAC" "c \<noteq> IAC" "\<not> is_option_command c" "c \<noteq> SB" by blast
  then show ?case
  proof cases
    case 1
    with "3.prems" obtain cs' where "scan (c # r) = (cs', Inl e)"
      by (cases "scan (c # r)"; cases "snd (scan (c # r))") (auto simp: scan.simps(3) emit_def)
    from "3.IH"(1) [OF 1 this] show ?thesis using sub(1) [of _ "c # r" b] by simp
  next
    case 2
    with "3.prems" have "scan r = (cs, Inl e)" by (simp add: scan.simps(3))
    from "3.IH"(2) [OF _ _ this] 2 show ?thesis using sub(2) [of _ r b c] by simp
  next
    case 3
    with "3.prems" obtain o1 r' where r: "r = o1 # r'" and s: "snd (scan r') = Inl e"
      by (cases r) (auto simp: scan.simps(3) calling_def prod_eq_iff)
    from s have "scan r' = (fst (scan r'), Inl e)" by (simp add: prod_eq_iff)
    from "3.IH"(3) [OF _ _ _ r this] 3 show ?thesis using sub(3) [of _ r' b c o1] r by simp
  next
    case 4
    show ?thesis
    proof (cases "sub_split r")
      case Incomplete
      with 4 "3.prems" obtain cs' where "scan r = (cs', Inl e)"
        by (cases "scan r"; cases "snd (scan r)") (auto simp: scan.simps(3) emit_def)
      from "3.IH"(4) [OF _ _ _ _ Incomplete this] 4 show ?thesis using sub(2) [of _ r b c] by simp
    next
      case Malformed
      with 4 "3.prems" show ?thesis
        by (auto simp: scan.simps(3) sub_split_malformed sublist_def intro: exI [of _ "[]"])
    next
      case (Complete ty params rest)
      with 4 "3.prems" have s: "scan rest = (fst (scan rest), Inl e)"
        by (auto simp: scan.simps(3) calling_def prod_eq_iff)
      have "suffix rest (b # c # r)"
        using sub_split_suffix [OF Complete] by (auto simp: suffix_def)
      with "3.IH"(5) [OF _ _ _ _ Complete s] 4 show ?thesis using sublist_suffix [of _ rest] by simp
    qed
  next
    case 5
    with "3.prems" obtain cs' where "scan r = (cs', Inl e)"
      by (cases "scan r"; cases "snd (scan r)") (auto simp: scan.simps(3) emit_def)
    from "3.IH"(6) [OF _ _ _ _ this] 5 show ?thesis using sub(2) [of _ r b c] by simp
  qed
qed simp_all

lemma piter_ok:
  assumes "\<And>x s. x \<in> set xs \<Longrightarrow> \<exists>s'. f x s = (Inr (), s')"
  shows "\<exists>s'. piter f xs s = (Inr (), s')"
  using assms
proof (induction xs arbitrary: s)
  case (Cons x xs)
  obtain s1 where "f x s = (Inr (), s1)" using Cons.prems [of x s] by auto
  then show ?case using Cons by (simp add: prog_simps)
qed (simp add: prog_simps)

text \<open>
  What holds of every input and the output left of it follows from three steps: short inputs
  are kept, something is dropped from the input, or one byte other than IAC is kept.
\<close>

lemma scan_rule:
  assumes keep: "\<And>s. length s \<le> 1 \<Longrightarrow> P s s"
    and drop: "\<And>r s d. P r d \<Longrightarrow> suffix r s \<Longrightarrow> P s d"
    and one: "\<And>r c d. P r d \<Longrightarrow> c \<noteq> IAC \<Longrightarrow> P (c # r) (c # d)"
  shows "scan s = (cs, Inr d) \<Longrightarrow> P s d"
proof (induction s arbitrary: cs d rule: scan.induct)
  case (3 b c r)
  have emitted: "P s d"
    if "emit [x] (scan r') = (cs, Inr d)" "x \<noteq> IAC" "suffix (x # r') s"
      "\<And>cs d. scan r' = (cs, Inr d) \<Longrightarrow> P r' d" for x r' s
  proof -
    from that(1) obtain cs' d' where "scan r' = (cs', Inr d')" "d = x # d'"
      by (cases "scan r'"; cases "snd (scan r')") (auto simp: emit_def)
    with that show ?thesis by (blast intro: drop one)
  qed
  have through: "P s d"
    if "calling x (scan r') = (cs, Inr d)" "suffix r' s" "\<And>cs d. scan r' = (cs, Inr d) \<Longrightarrow> P r' d"
    for x r' s
  proof -
    from that(1) have "scan r' = (fst (scan r'), Inr d)" by (auto simp: calling_def prod_eq_iff)
    with that show ?thesis by (blast intro: drop)
  qed
  note sufs = suffix_tails
  consider "b \<noteq> IAC" | "b = IAC" "c = IAC" | "b = IAC" "c \<noteq> IAC" "is_option_command c"
    | "b = IAC" "c \<noteq> IAC" "\<not> is_option_command c" by blast
  then show ?case
  proof cases
    case 1
    with "3.prems" have "emit [b] (scan (c # r)) = (cs, Inr d)" by (simp add: scan.simps(3))
    then show ?thesis using "3.IH"(1) 1 by (intro emitted) auto
  next
    case 2
    with "3.prems" have "scan r = (cs, Inr d)" by (simp add: scan.simps(3))
    from "3.IH"(2) [OF _ _ this] 2 show ?thesis by (auto intro: drop sufs)
  next
    case 3
    show ?thesis
    proof (cases r)
      case Nil
      with 3 "3.prems" have "d = [c]" by (auto simp: scan.simps(3))
      with one [OF keep [of "[]"] 3(2)] Nil show ?thesis by (auto intro: drop sufs)
    next
      case (Cons opt r')
      with 3 "3.prems" have "calling (On_telopt c opt) (scan r') = (cs, Inr d)"
        by (simp add: scan.simps(3))
      then show ?thesis using "3.IH"(3) 3 Cons by (intro through) (auto intro: sufs)
    qed
  next
    case 4
    consider "c = SB" "sub_split r = Malformed" | "c \<noteq> SB \<or> sub_split r = Incomplete"
      | ty params rest where "c = SB" "sub_split r = Complete ty params rest"
      by (cases "sub_split r") auto
    then show ?thesis
    proof cases
      case 2
      with 4 "3.prems" have "emit [c] (scan r) = (cs, Inr d)" by (cases "c = SB") (auto simp: scan.simps(3))
      then show ?thesis using "3.IH"(4,6) 4 2 by (intro emitted) (auto intro: sufs)
    next
      case c: 3
      with 4 "3.prems" have "calling (On_sub_neg ty params) (scan rest) = (cs, Inr d)"
        by (simp add: scan.simps(3))
      then show ?thesis using "3.IH"(5) 4 c sub_split_suffix [OF c(2)]
        by (intro through) (auto intro: suffix_order.trans sufs)
    qed (use 4 "3.prems" in \<open>auto simp: scan.simps(3)\<close>)
  qed
qed (auto intro: keep)

lemma scan_subseq: "scan s = (cs, Inr d) \<Longrightarrow> subseq d s"
  by (erule scan_rule [rotated 3]) (auto dest: suffix_imp_subseq intro: subseq_order.trans)

lemma scan_output: "scan s = (cs, Inr d) \<Longrightarrow> IAC \<notin> set (butlast d)"
  by (erule scan_rule [where P = "\<lambda>s d. IAC \<notin> set (butlast d)", rotated 3])
    (auto simp: le_Suc_eq length_Suc_conv split: if_splits)

text \<open>
  C16: the only input that breaks the filter is an empty subnegotiation: if a chunk does not
  contain the bytes IAC SB IAC SE in a row and the virtual functions return, then the filter
  returns; what it leaves is a subsequence of the chunk, it neither invents nor reorders bytes.
\<close>

theorem telnet_on_recv_total:
  assumes "\<not> sublist [IAC, SB, IAC, SE] s"
    and "\<And>c st. \<exists>st'. deliver th c st = (Inr (), st')"
  shows "\<exists>d st'. telnet_on_recv th s st = (Inr d, st') \<and> subseq d s"
proof -
  obtain cs r where sc: "scan s = (cs, r)" by (cases "scan s")
  obtain d where d: "r = Inr d" using scan_error sc assms(1) by (cases r) auto
  obtain st' where "piter (deliver th) cs st = (Inr (), st')"
    using piter_ok [of cs "deliver th" st] assms(2) by auto
  then show ?thesis
    using sc d scan_subseq [of s cs d] by (simp add: telnet_on_recv_eq run_scan_def prog_simps)
qed

lemma deliver_logging: "\<exists>st'. deliver logging c st = (Inr (), st')"
  by (cases c) (simp_all add: logging_def prog_simps)

lemma telnet_on_recv_total_witness:
  "\<exists>d st'. telnet_on_recv logging [104, 255, 251, 1, 255] [] = (Inr d, st') \<and> subseq d [104, 255, 251, 1, 255]"
proof -
  have "\<not> sublist [IAC, SB, IAC, SE] [104, 255, 251, 1, 255]"
    by (auto simp: sublist_def telnet_consts append_eq_Cons_conv Cons_eq_append_conv)
  from telnet_on_recv_total [OF this deliver_logging] show ?thesis .
qed

text \<open>
  an empty subnegotiation from the peer is undefined behaviour: after any text, the bytes
  IAC SB IAC SE make the handler build a vector from the inverted range \<open>[it + 2, pos)\<close>.
\<close>

theorem telnet_empty_subnegotiation_undefined:
  assumes "\<forall>x\<in>set a. x \<noteq> IAC"
  shows "telnet_on_recv th (a @ [IAC, SB, IAC, SE] @ b) st = (Inl Undefined_behaviour, st)"
proof -
  have "sub_split (IAC # SE # b) = Malformed" by (simp add: sub_split_malformed)
  then have "scan ([IAC, SB, IAC, SE] @ b) = ([], Inl Undefined_behaviour)"
    using option_command_not by (simp add: scan.simps(3))
  then show ?thesis
    using scan_skip [OF assms, of "[IAC, SB, IAC, SE] @ b"]
    by (simp add: telnet_on_recv_eq run_scan_def emit_def prog_simps)
qed

lemma telnet_empty_subnegotiation_undefined_witness:
  "telnet_on_recv logging ([104, 105] @ [IAC, SB, IAC, SE] @ [33]) [] = (Inl Undefined_behaviour, [])"
  by (rule telnet_empty_subnegotiation_undefined) (simp add: telnet_consts)

text \<open>
  no command byte reaches the application: whatever the chunk, if the filter returns, the
  bytes it leaves contain no IAC, except possibly a single one at the very end.
\<close>

theorem telnet_output_without_iac:
  assumes "telnet_on_recv th s st = (Inr d, st')"
  shows "IAC \<notin> set (butlast d)"
proof -
  obtain cs r where sc: "scan s = (cs, r)" by (cases "scan s")
  with assms have "r = Inr d"
    by (auto simp: telnet_on_recv_eq run_scan_def prog_simps split: prod.splits sum.splits)
  with sc show ?thesis using scan_output by simp
qed

lemma telnet_output_without_iac_witness:
  "IAC \<notin> set (butlast [104, 255])"
proof (rule telnet_output_without_iac)
  show "telnet_on_recv logging [104, 255] [] = (Inr [104, 255], [])"
    unfolding telnet_on_recv_eq run_scan_def by (simp add: scan.simps(3) telnet_consts emit_def prog_simps)
qed

text \<open>
  An escaped data byte is lost: IAC IAC, which the protocol uses for one data byte 255, is
  removed whole, so the chunk is decoded as if the pair had not been there.
\<close>

theorem telnet_escaped_byte_lost:
  assumes "\<forall>x\<in>set a. x \<noteq> IAC"
  shows "telnet_on_recv th (a @ [IAC, IAC] @ b) = telnet_on_recv th (a @ b)"
proof -
  have "scan ([IAC, IAC] @ b) = scan b" by (simp add: scan.simps(3))
  then show ?thesis
    using scan_skip [OF assms] by (simp add: telnet_on_recv_eq run_scan_def)
qed

lemma telnet_escaped_byte_lost_witness:
  "telnet_on_recv logging ([1] @ [IAC, IAC] @ [2]) = telnet_on_recv logging ([1] @ [2])"
  by (rule telnet_escaped_byte_lost) (simp add: telnet_consts)

text \<open>
  A negotiation that is split over two reads is not recognised: if a read ends with IAC
  and a command, the command is left in the data, no virtual function is called, and the option
  at the start of the next read is taken for data as well.
\<close>

theorem telnet_split_negotiation_is_data:
  assumes "\<forall>x\<in>set (a @ opt # b). x \<noteq> IAC" and "is_option_command c"
  shows "telnet_on_recv th (a @ [IAC, c]) = pret (a @ [c]) \<and>
    telnet_on_recv th (opt # b) = pret (opt # b)"
proof -
  have "scan [IAC, c] = ([], Inr [c])"
    using option_command_not(1) [OF assms(2)] assms(2) by (simp add: scan.simps(3))
  then have 1: "scan (a @ [IAC, c]) = ([], Inr (a @ [c]))"
    using scan_skip [of a "[IAC, c]"] assms(1) by (simp add: emit_def)
  have 2: "scan (opt # b) = ([], Inr (opt # b))"
    using scan_skip [of "opt # b" "[]"] assms(1) by (simp add: emit_def)
  show ?thesis
    unfolding telnet_on_recv_eq run_scan_def 1 2 by (simp add: fun_eq_iff prog_simps)
qed

lemma telnet_split_negotiation_is_data_witness:
  "telnet_on_recv logging ([104] @ [IAC, WILL]) = pret ([104] @ [WILL]) \<and>
   telnet_on_recv logging (1 # [105]) = pret (1 # [105])"
  by (rule telnet_split_negotiation_is_data) (auto simp: telnet_consts is_option_command_def)

text \<open>
  \<open>send_telopt\<close> speaks the protocol that \<open>on_recv\<close> understands: on a plain socket whose
  kernel takes the three bytes, what it puts on the wire is decoded by the receiving filter as
  one call of \<open>on_telopt\<close> with the action and option, and as no data.
\<close>

theorem send_telopt_roundtrip:
  assumes "is_valid s" and "ssl s = None" and "is_option_command action"
    and "os_send pf (trace w) (raw_sock s) [IAC, action, opt] 0 = 3"
  shows "\<exists>w'. send_telopt pf action opt (s, w) = (Inr (), (s, w')) \<and>
    wire (raw_sock s) (trace w') = wire (raw_sock s) (trace w) @ [IAC, action, opt] \<and>
    telnet_on_recv th [IAC, action, opt] = pthen (t_telopt th action opt) (pret [])"
proof -
  let ?bs = "[IAC, action, opt]"
  have "send_telopt pf action opt (s, w) =
      (Inr (), (s, record_call pf (Sys_send (raw_sock s) ?bs 0 3) w))"
    using assms by (simp add: send_telopt_def socket_send_def prog_simps to_int_small Let_def)
  moreover have "scan ?bs = ([On_telopt action opt], Inr [])"
    using option_command_not(1) [OF assms(3)] assms(3) by (simp add: scan.simps(3) calling_def)
  then have "telnet_on_recv th ?bs = pthen (t_telopt th action opt) (pret [])"
    unfolding telnet_on_recv_eq run_scan_def by (simp add: pthen_def pbind_assoc)
  ultimately show ?thesis by auto
qed

lemma send_telopt_roundtrip_witness:
  "\<exists>w'. send_telopt granting WILL 1 (sock0, world0) = (Inr (), (sock0, w')) \<and>
    wire 5 (trace w') = [IAC, WILL, 1] \<and>
    telnet_on_recv logging [IAC, WILL, 1] = pthen (t_telopt logging WILL 1) (pret [])"
proof -
  have v: "is_valid sock0" "ssl sock0 = None" "raw_sock sock0 = 5" "is_option_command WILL"
    by (simp_all add: is_option_command_def)
  have "os_send granting (trace world0) (raw_sock sock0) [IAC, WILL, 1] 0 = 3"
    by (simp add: granting_def)
  from send_telopt_roundtrip [OF v(1,2,4) this, of logging] v(3) show ?thesis
    by (simp add: world0_def)
qed

subsection \<open>A Telnet socket reads\<close>

lemma notify_telnet: "notify (telnet_vtable th vt) = notify vt"
proof -
  have e: "v_hook (telnet_vtable th vt) = v_hook vt" "v_listener (telnet_vtable th vt) = v_listener vt"
    by (simp_all add: telnet_vtable_def)
  show ?thesis by (rule ext) (simp only: notify_def call_listener_def e)
qed

text \<open>
  The layers together: when a blocking Telnet socket reads a chunk of complete items,
  \<open>read_to_buffer\<close> calls the virtual functions for the negotiations and subnegotiations in
  order, and appends to the input buffer exactly the text of the chunk.
\<close>

theorem telnet_read_to_buffer:
  assumes "is_valid s" and "ssl s = None"
    and "None \<notin> set (listeners s)" and "None \<notin> set (listeners s')" and "\<not> non_blocking s'"
    and "\<forall>x\<in>set items. item_ok x" and "bytes = stream_bytes items"
    and "bytes \<noteq> []" and "length bytes \<le> MAXRECV" and "0 < fuel"
    and "os_recv pf (trace w) (raw_sock s) MAXRECV 0 = (int (length bytes), bytes)"
    and "w1 = record_call pf (Sys_recv (raw_sock s) MAXRECV 0 (int (length bytes))) w"
    and "piter (deliver th) (stream_calls items) (s, w1) = (Inr (), (s', w2))"
  shows "read_to_buffer pf (telnet_vtable th idle_vtable) fuel (s, w) =
    (Inr True, (s'\<lparr>inBuffer := inBuffer s' @ stream_data items\<rparr>, w2))"
proof -
  let ?vt = "telnet_vtable th idle_vtable"
  obtain n where n: "fuel = Suc n" using assms(10) by (cases fuel) auto
  have "scan bytes = (stream_calls items, Inr (stream_data items))"
    using assms(6,7) scan_stream by simp
  then have f: "telnet_on_recv th bytes (s, w1) = (Inr (stream_data items), (s', w2))"
    using assms(13) by (simp add: telnet_on_recv_eq run_scan_def prog_simps)
  have "to_int (int (length bytes)) = int (length bytes)"
    using assms(9) by (intro to_int_small) (simp_all add: MAXRECV_def)
  then have "read_chunk pf ?vt [] (s, w) = (Inr (True, stream_data items), (s', w2))"
    using assms f
    by (simp add: read_chunk_def socket_recv_def prog_simps Let_def telnet_vtable_def)
  with n assms(3-5) show ?thesis
    by (simp add: read_to_buffer_def prog_simps notify_idle notify_telnet)
qed

definition quiet_hooks :: "'s telnet_hooks" where
  "quiet_hooks = \<lparr>t_telopt = (\<lambda>_ _. pret ()), t_sub_neg = (\<lambda>_ _. pret ())\<rparr>"

definition telnet_kernel :: platform where
  "telnet_kernel = granting\<lparr>os_recv := (\<lambda>_ _ _ _. (4, [104, 255, 251, 1]))\<rparr>"

lemma telnet_read_to_buffer_witness:
  "read_to_buffer telnet_kernel (telnet_vtable quiet_hooks idle_vtable) 1 (sock0, world0) =
    (Inr True, (sock0\<lparr>inBuffer := [104]\<rparr>,
       record_call telnet_kernel (Sys_recv 5 500 0 4) world0))"
proof -
  let ?items = "[Text [104], Negotiate 251 1]"
  have ok: "\<forall>x\<in>set ?items. item_ok x" by (simp add: is_option_command_def telnet_consts)
  have st: "stream_bytes ?items = [104, 255, 251, 1]" "stream_data ?items = [104]"
    "stream_calls ?items = [On_telopt 251 1]"
    by (simp_all add: stream_defs telnet_consts)
  have r: "os_recv telnet_kernel (trace world0) (raw_sock sock0) MAXRECV 0 =
      (int (length [104, 255, 251, 1 :: byte]), [104, 255, 251, 1])"
    by (simp add: telnet_kernel_def)
  have q: "piter (deliver quiet_hooks) (stream_calls ?items) x = (Inr (), x)" for x :: "buffered \<times> world"
    by (simp add: st quiet_hooks_def prog_simps)
  show ?thesis
    using telnet_read_to_buffer [OF sock0_simps(1,2,3,3,4) ok st(1) [symmetric] _ _ _ r refl q, of 1]
    by (simp add: st(2) MAXRECV_def)
qed

end
