(* ===== verification/Buffered_Session.thy ===== *)
theory Buffered_Session
  imports Telnet_Facts
begin

section \<open>Descriptors of a buffered socket, whatever its listeners do\<close>

text \<open>
  The virtual functions and listeners of a buffered socket are foreign code. The interface
  \<open>respectful_vtable\<close> states what the class relies on: they may do anything to the object and
  the world but unbalance the account of descriptors. Every operation of the class then keeps
  it, and the class's own \<open>close\<close> fulfils the contract of \<open>closing\<close>. The table of a plain
  buffered socket and that of a Telnet socket are instances.
\<close>

lemma keeps_owns_fields [hoare_rules]:
  "keeps (owns B) (upd (\<lambda>s. s\<lparr>inBuffer := f s\<rparr>))"
  "keeps (owns B) (upd (\<lambda>s. s\<lparr>outBuffer := f s\<rparr>))"
  "keeps (owns B) (upd (\<lambda>s. s\<lparr>listeners := g s\<rparr>))"
  by (rule keeps_owns_upd; simp)+

locale respectful_vtable =
  fixes vt :: "('a, 'w) vtable"
  assumes on_recv_keeps: "keeps (owns B) (v_on_recv vt chunk)"
    and hook_keeps: "keeps (owns B) (v_hook vt ev)"
    and listener_keeps: "keeps (owns B) (v_listener vt i ev)"
begin

lemma notify_keeps: "keeps (owns B) (notify vt ev)"
  unfolding notify_def call_listener_def
  by (intro hoare_rules hook_keeps) (auto split: option.split intro: hoare_rules listener_keeps)

lemma write_from_buffer_keeps: "keeps (owns B) (write_from_buffer pf vt)"
  unfolding write_from_buffer_def send_buffer_def by (intro hoare_rules notify_keeps)

lemma flush_keeps: "keeps (owns B) (buf_flush pf vt)"
  unfolding buf_flush_def by (intro hoare_rules write_from_buffer_keeps)

lemma close_releases:
  "hoare (owns B) (buf_close pf vt) (\<lambda>_ sw. owns B sw \<and> \<not> is_valid (fst sw)) (\<lambda>_. owns B)"
proof -
  have "hoare (owns B) (pthen (notify vt Closed) (pthen (buf_flush pf vt) (socket_close pf)))
      (\<lambda>_ sw. owns B sw \<and> \<not> is_valid (fst sw)) (\<lambda>_. owns B)"
    unfolding pthen_def
    by (intro hoare_pbind [OF notify_keeps] hoare_pbind [OF flush_keeps] plain.releases)
  then show ?thesis
    unfolding buf_close_def hoare_def by (auto simp: prog_simps)
qed

end

sublocale respectful_vtable \<subseteq> buf: closing "buf_close pf vt" for pf
  by unfold_locales (rule close_releases)

context respectful_vtable
begin

lemma connect_keeps: "keeps (owns B) (buf_connect pf vt host port)"
  unfolding buf_connect_def by (intro hoare_rules buf.keeps_connect notify_keeps)

lemma read_chunk_keeps: "keeps (owns B) (read_chunk pf vt chunk)"
  unfolding read_chunk_def
  by (auto intro!: hoare_rules keeps_owns_recv on_recv_keeps)

lemma read_loop_keeps: "keeps (owns B) (read_loop pf vt fuel chunk)"
  by (induction fuel arbitrary: chunk)
    (auto intro!: hoare_rules read_chunk_keeps)

lemma read_to_buffer_keeps: "keeps (owns B) (read_to_buffer pf vt fuel)"
  unfolding read_to_buffer_def
  by (auto intro!: hoare_rules notify_keeps read_chunk_keeps read_loop_keeps)

end

subsection \<open>Sessions\<close>

datatype buf_op =
    B_connect string int
  | B_close
  | B_write string
  | B_writeln string
  | B_flush
  | B_read nat
  | B_readln
  | B_add "nat option"
  | B_remove "nat option"
  | B_connect_notified
  | B_send "byte list" int
  | B_recv int
  | B_secure bool
  | B_non_blocking bool
  | B_listen int int
  | B_accept

text \<open>
  The public operations of the class and of its base class, with the class's own \<open>close\<close> and
  \<open>on_recv\<close> where they are virtual. What \<open>accept\<close> returns is a descriptor the caller owns.
\<close>

fun exec_buf :: "platform \<Rightarrow> ('a, 'w) vtable \<Rightarrow> buf_op \<Rightarrow> ('a, 'w, unit) bprog" where
  "exec_buf pf vt (B_connect h p) = pthen (buf_connect pf vt h p) (pret ())"
| "exec_buf pf vt B_close = buf_close pf vt"
| "exec_buf pf vt (B_write s) = buf_write s"
| "exec_buf pf vt (B_writeln s) = buf_writeln s"
| "exec_buf pf vt B_flush = buf_flush pf vt"
| "exec_buf pf vt (B_read fuel) = pthen (read_to_buffer pf vt fuel) (pret ())"
| "exec_buf pf vt B_readln = pthen readln (pret ())"
| "exec_buf pf vt (B_add l) = add_listener l"
| "exec_buf pf vt (B_remove l) = remove_listener l"
| "exec_buf pf vt B_connect_notified = notify vt Connected"
| "exec_buf pf vt (B_send bs fl) = pthen (send_buffer pf bs fl) (pret ())"
| "exec_buf pf vt (B_recv fl) = pthen (socket_recv pf (v_on_recv vt) [] fl) (pret ())"
| "exec_buf pf vt (B_secure b) = set_secure pf b"
| "exec_buf pf vt (B_non_blocking b) = set_non_blocking pf b"
| "exec_buf pf vt (B_listen port backlog) = pthen (socket_listen pf port backlog) (pret ())"
| "exec_buf pf vt B_accept = pthen (socket_accept pf) (pret ())"

text \<open>The session, with the descriptors \<open>accept\<close> has handed to the caller so far.\<close>

fun accepted_by :: "platform \<Rightarrow> buf_op \<Rightarrow> ('a, 'w) bstate \<Rightarrow> socket_fd multiset" where
  "accepted_by pf B_accept (s, w) =
     (case fst (socket_accept pf (s, w)) of
        Inl e \<Rightarrow> {#} | Inr (fd, a) \<Rightarrow> if fd = INVALID then {#} else {#fd#})"
| "accepted_by pf _ sw = {#}"

fun run_buf ::
  "platform \<Rightarrow> ('a, 'w) vtable \<Rightarrow> buf_op list \<Rightarrow> ('a, 'w) bstate \<times> socket_fd multiset \<Rightarrow>
     ('a, 'w) bstate \<times> socket_fd multiset"
where
  "run_buf pf vt [] p = p"
| "run_buf pf vt (x # xs) (sw, A) = run_buf pf vt xs (snd (exec_buf pf vt x sw), A + accepted_by pf x sw)"

text \<open>\<open>listen\<close> on a socket that is open loses its descriptor (\<open>listen_leaks_open_socket\<close>).\<close>

fun listens_closed :: "platform \<Rightarrow> ('a, 'w) vtable \<Rightarrow> buf_op list \<Rightarrow> ('a, 'w) bstate \<Rightarrow> bool" where
  "listens_closed pf vt [] sw = True"
| "listens_closed pf vt (x # xs) sw =
     ((case x of B_listen port backlog \<Rightarrow> \<not> is_valid (fst sw) | _ \<Rightarrow> True) \<and>
      listens_closed pf vt xs (snd (exec_buf pf vt x sw)))"

context respectful_vtable
begin

lemma exec_buf_keeps:
  assumes "\<And>port backlog. x \<noteq> B_listen port backlog" and "x \<noteq> B_accept"
  shows "keeps (owns B) (exec_buf pf vt x)"
  using assms
  by (cases x)
    (auto simp: buf_write_def buf_writeln_def readln_def add_listener_def remove_listener_def Let_def send_buffer_def
      intro!: hoare_rules connect_keeps buf.keeps_vclose flush_keeps read_to_buffer_keeps notify_keeps
        keeps_owns_recv on_recv_keeps)

lemma exec_buf_owns:
  assumes "owns B sw" and "case x of B_listen port backlog \<Rightarrow> \<not> is_valid (fst sw) | _ \<Rightarrow> True"
  shows "owns (B + accepted_by pf x sw) (snd (exec_buf pf vt x sw))"
proof -
  obtain s w where sw: "sw = (s, w)" by (cases sw)
  consider (listen) port backlog where "x = B_listen port backlog" | (accept) "x = B_accept"
    | (other) "\<forall>port backlog. x \<noteq> B_listen port backlog" "x \<noteq> B_accept" by blast
  then show ?thesis
  proof cases
    case listen
    obtain r s' w' where m: "exec_buf pf vt x sw = (r, (s', w'))" by (metis surj_pair)
    have "hoare (\<lambda>sw. owns B sw \<and> \<not> is_valid (fst sw))
        (pthen (socket_listen pf port backlog) (pret ())) (\<lambda>_. owns B) (\<lambda>_. owns B)"
      unfolding pthen_def by (rule hoare_pbind [OF listen_owns]) (rule keeps_pret)
    with assms m listen show ?thesis unfolding hoare_def by (cases r) fastforce+
  next
    case accept
    with assms(1) sw show ?thesis
      by (cases "os_accept pf (trace w) (raw_sock s)")
        (auto simp: socket_accept_def prog_simps owns_held)
  next
    case other
    then have "accepted_by pf x sw = {#}" by (cases x) (auto simp: sw)
    with keeps_snd [OF exec_buf_keeps assms(1), of x] other show ?thesis by simp
  qed
qed

lemma run_buf_owns:
  "owns (B + A) sw \<Longrightarrow> listens_closed pf vt xs sw \<Longrightarrow> case run_buf pf vt xs (sw, A) of (sw', A') \<Rightarrow> owns (B + A') sw'"
proof (induction xs arbitrary: sw A)
  case (Cons x xs)
  from exec_buf_owns [OF Cons.prems(1), of x pf] Cons.prems(2)
  show ?case by (simp add: Cons.IH add.assoc)
qed simp

end

lemma idle_respectful: "respectful_vtable idle_vtable"
  by unfold_locales (auto simp: idle_vtable_def socket_on_recv_def intro: hoare_rules)

interpretation idle: respectful_vtable idle_vtable
  by (rule idle_respectful)

lemma keeps_telnet:
  assumes "\<And>c. keeps P (deliver th c)"
  shows "keeps P (telnet_on_recv th s)"
  unfolding telnet_on_recv_eq run_scan_def
  by (auto split: prod.split sum.split intro!: hoare_rules assms)

text \<open>The vtable of a Telnet socket over the plain one, if its two callbacks respect the account.\<close>

lemma telnet_respectful:
  assumes "\<And>B c. keeps (owns B) (deliver th c)"
  shows "respectful_vtable (telnet_vtable th idle_vtable)"
  by unfold_locales
    (auto simp: telnet_vtable_def idle_vtable_def intro: hoare_rules keeps_telnet assms)

lemma quiet_keeps: "keeps P (deliver quiet_hooks c)"
  by (cases c) (auto simp: quiet_hooks_def intro: hoare_rules)

interpretation quiet_telnet: respectful_vtable "telnet_vtable quiet_hooks idle_vtable"
  by (rule telnet_respectful) (rule quiet_keeps)

text \<open>
  C2: whatever the kernel and the peers do and whatever the listeners and overridden functions
  throw or change, as long as they keep the account of descriptors, any sequence of connect,
  close, write, flush, read, send, receive, accept, listen, adding and removing listeners,
  announcing the connection, switching TLS on or off and changing the blocking mode on a buffered socket, exceptions
  included, leaves the process with the descriptors it had before, those that \<open>accept\<close> handed
  to the caller, and the socket's own one while it is valid. One call is excluded, because it
  loses a descriptor: \<open>listen\<close> while the socket is open. Construction from a host and moving are
  not in the sequence.
\<close>

theorem buffered_session_owns:
  assumes "respectful_vtable vt" and "listens_closed pf vt ops (buffered_default, w)"
  shows "case run_buf pf vt ops ((buffered_default, w), {#}) of ((s, w'), A) \<Rightarrow>
     open_fds (trace w') = open_fds (trace w) + A + (if is_valid s then {#raw_sock s#} else {#})"
proof -
  have "owns (open_fds (trace w) + {#}) (buffered_default, w)"
    by (simp add: owns_def is_valid_def buffered_default_def socket_default_def socket.defs)
  from respectful_vtable.run_buf_owns [OF assms(1) this assms(2)] show ?thesis
    by (cases "run_buf pf vt ops ((buffered_default, w), {#})") (auto simp: owns_def)
qed

text \<open>A Telnet socket that connects, writes, closes, and then listens and accepts.\<close>

definition session_demo :: "buf_op list" where
  "session_demo = [B_connect ''h'' 80, B_writeln ''x'', B_close, B_listen 80 10, B_accept]"

lemma buffered_session_owns_witness:
  "listens_closed granting (telnet_vtable quiet_hooks idle_vtable) session_demo (buffered_default, world0) \<and>
   (case run_buf granting (telnet_vtable quiet_hooks idle_vtable) session_demo ((buffered_default, world0), {#}) of
     ((s, w'), A) \<Rightarrow> open_fds (trace w') = {#} + A + (if is_valid s then {#raw_sock s#} else {#}))"
proof -
  have "listens_closed granting (telnet_vtable quiet_hooks idle_vtable) session_demo (buffered_default, world0)"
    by code_simp
  with buffered_session_owns [OF quiet_telnet.respectful_vtable_axioms this] show ?thesis
    by (simp add: world0_def)
qed

text \<open>
  \<open>close\<close> of a buffered socket announces, flushes and releases: when its listeners are
  silent, the bytes still in the output buffer are handed to the kernel before the descriptor
  is closed, and the object is left invalid.
\<close>

theorem buf_close_flushes:
  assumes "is_valid s" and "ssl s = None" and "None \<notin> set (listeners s)"
    and "outBuffer s \<noteq> []" and "length (outBuffer s) < 2 ^ 31"
    and "os_send pf (trace w) (raw_sock s) (outBuffer s) 0 = int (length (outBuffer s))"
  shows "\<exists>w'. buf_close pf idle_vtable (s, w) =
      (Inr (), (s\<lparr>raw_sock := INVALID, non_blocking := False, outBuffer := []\<rparr>, w')) \<and>
    trace w' = trace w @ [Sys_send (raw_sock s) (outBuffer s) 0 (int (length (outBuffer s))),
      Sys_shutdown (raw_sock s), Sys_close (raw_sock s)]"
proof -
  let ?w1 = "record_call pf (Sys_send (raw_sock s) (outBuffer s) 0 (int (length (outBuffer s)))) w"
  have n: "notify idle_vtable ev (s, w) = (Inr (), (s, w))"
    "notify idle_vtable ev (s\<lparr>outBuffer := []\<rparr>, ?w1) = (Inr (), (s\<lparr>outBuffer := []\<rparr>, ?w1))" for ev
    using assms(3) by (simp_all add: notify_idle)
  have "write_from_buffer pf idle_vtable (s, w) = (Inr True, (s\<lparr>outBuffer := []\<rparr>, ?w1))"
    using write_from_buffer_run [OF assms(1,4) n(1) assms(1,2) refl assms(4,5) assms(6) [symmetric]
        _ _ refl] n(2) by (simp add: prog_simps)
  with assms(1,2) n(1) show ?thesis
    by (simp add: buf_close_def buf_flush_def socket_close_def prog_simps is_valid_def)
qed

lemma buf_close_flushes_witness:
  "\<exists>w'. buf_close granting idle_vtable (sock0\<lparr>outBuffer := [1, 2]\<rparr>, world0) =
      (Inr (), (sock0\<lparr>raw_sock := INVALID, non_blocking := False, outBuffer := []\<rparr>, w')) \<and>
    trace w' = [Sys_send 5 [1, 2] 0 2, Sys_shutdown 5, Sys_close 5]"
  using buf_close_flushes [of "sock0\<lparr>outBuffer := [1, 2]\<rparr>" granting world0]
  by (simp add: granting_def world0_def)

end
