(* ===== verification/Http_Socket.thy ===== *)
theory Http_Socket
  imports Http_Facts Buffered_Session
begin

section \<open>The HTTP transport on a socket (\<open>http/socket_impl.cpp\<close>)\<close>

text \<open>
  \<open>http::socket::request\<close>: a local \<open>buffered_socket\<close> connects, sends the request from its
  output buffer and reads once. The class \<open>buffered_socket\<close> itself has no listeners and empty
  hooks, which is the table \<open>idle_vtable\<close>.
\<close>

text \<open>\<open>std::stoi\<close>.\<close>

definition stoi :: "string \<Rightarrow> exn + int" where
  "stoi s =
     (case scan_sign (dropWhile is_space (c_str s)) of (neg, t) \<Rightarrow>
        let ds = takeWhile is_digit t; v = (if neg then - int (num_of ds) else int (num_of ds)) in
        if ds = [] then Inl Invalid_argument
        else if v < - (2 ^ 31) \<or> 2 ^ 31 \<le> v then Inl Out_of_range
        else Inr v)"

definition request_port :: "client \<Rightarrow> exn + int" where
  "request_port c =
     (if u_port (c_uri c) \<noteq> [] then stoi (u_port (c_uri c))
      else Inr (if client_is_secure c then DEFAULT_SECURE_PORT else DEFAULT_PORT))"

text \<open>One line, as \<open>snprintf(buf, MAX_URL_LEN, \<dots>)\<close> leaves it in the array.\<close>

definition buf_line :: "string \<Rightarrow> string" where
  "buf_line s = snprintf MAX_URL_LEN s"

definition request_line :: "client \<Rightarrow> http_method \<Rightarrow> string \<Rightarrow> string" where
  "request_line c m userPath =
     (let path = (if userPath = [] then full_path (c_uri c) else userPath);
          shown = (if path = [] then ''/''
                   else if char_at path 0 = CHR ''/'' then c_str path
                   else c_str (CHR ''/'' # path))
      in buf_line (method_name m @ '' '' @ shown @ '' HTTP/'' @ c_str (version c)))"

definition is_chunked :: "client \<Rightarrow> bool" where
  "is_chunked c \<longleftrightarrow>
     has_header HEADER_TRANSFER_ENCODING c \<and>
     map to_lower (c_str (fst (transfer_header HEADER_TRANSFER_ENCODING c))) = ''chunked''"

text \<open>The lines after the first, in the order of the calls.\<close>

definition default_lines :: "client \<Rightarrow> string list" where
  "default_lines c =
     (if \<not> has_header HEADER_HOST c
      then [buf_line (HEADER_HOST @ '': '' @ c_str (u_host (c_uri c)))] else []) @
     (if \<not> has_header HEADER_ACCEPT c then [buf_line (HEADER_ACCEPT @ '': */*'')] else []) @
     (if \<not> has_header HEADER_CONNECTION c then [buf_line (HEADER_CONNECTION @ '': close'')] else [])"

definition own_lines :: "client \<Rightarrow> string list" where
  "own_lines c = map (\<lambda>(k, v). buf_line (c_str k @ '': '' @ c_str v)) (headers c)"

definition size_lines :: "client \<Rightarrow> string list" where
  "size_lines c =
     (if \<not> is_chunked c \<and> content c \<noteq> []
      then [buf_line (HEADER_CONTENT_SIZE @ '': '' @ dec_nat (length (content c)))] else [])"

text \<open>The body of the function, on the local socket.\<close>

definition http_connect :: "platform \<Rightarrow> client \<Rightarrow> ('a, 'w, unit) bprog" where
  "http_connect pf c =
     pthen (if client_is_secure c then set_secure pf True else pret ())
       (case request_port c of
          Inl e \<Rightarrow> praise e
        | Inr port \<Rightarrow>
            pbind (buf_connect pf idle_vtable (u_host (c_uri c)) port) (\<lambda>ok.
            if ok then pret ()
            else praise (Socket_exception (''unable to connect to '' @ u_text (c_uri c)))))"

definition http_compose :: "client \<Rightarrow> http_method \<Rightarrow> string \<Rightarrow> ('a, 'w, unit) bprog" where
  "http_compose c m userPath =
     pthen (buf_writeln (request_line c m userPath))
    (pthen (piter buf_writeln (default_lines c))
    (pthen (piter buf_writeln (own_lines c))
    (pthen (piter buf_writeln (size_lines c))
    (pthen buf_newline
       (if content c \<noteq> [] then buf_write (content c) else pret ())))))"

definition http_exchange :: "platform \<Rightarrow> nat \<Rightarrow> ('a, 'w, string) bprog" where
  "http_exchange pf fuel =
     pbind (write_from_buffer pf idle_vtable) (\<lambda>ok.
     if \<not> ok then praise (Socket_exception ''unable to write to socket'')
     else
       pbind (read_to_buffer pf idle_vtable fuel) (\<lambda>ok.
       if \<not> ok then praise (Socket_exception ''unable to read from socket'')
       else pbind (obj inBuffer) (\<lambda>input. pret (string_of input))))"

definition http_body :: "platform \<Rightarrow> nat \<Rightarrow> client \<Rightarrow> http_method \<Rightarrow> string \<Rightarrow> ('a, 'w, string) bprog" where
  "http_body pf fuel c m userPath =
     pthen (http_connect pf c) (pthen (http_compose c m userPath) (http_exchange pf fuel))"

text \<open>The whole function: the local socket is destroyed on every path.\<close>

definition http_socket_request :: "platform \<Rightarrow> nat \<Rightarrow> 'w http_impl" where
  "http_socket_request pf fuel m userPath =
     (\<lambda>(c, w). case http_body pf fuel c m userPath (buffered_default, w) of
        (r, sw) \<Rightarrow> (r, (c, snd (snd (socket_destroy pf sw)))))"

subsection \<open>What is sent\<close>

definition request_text :: "client \<Rightarrow> http_method \<Rightarrow> string \<Rightarrow> string" where
  "request_text c m userPath =
     concat (map (\<lambda>l. l @ CRLF)
       (request_line c m userPath # default_lines c @ own_lines c @ size_lines c)) @ CRLF @ content c"

lemma bytes_CRLF: "bytes_of CRLF = NEWLINE"
  by (simp add: CRLF_def NEWLINE_def byte_of_def)

lemma writeln_lines:
  "piter buf_writeln ls (s, w) =
     (Inr (), (s\<lparr>outBuffer := outBuffer s @ bytes_of (concat (map (\<lambda>l. l @ CRLF) ls))\<rparr>, w))"
proof (induction ls arbitrary: s)
  case (Cons l ls)
  then show ?case by (simp add: prog_simps buf_writeln_def bytes_CRLF [symmetric])
qed (simp add: prog_simps)

lemma http_compose_run:
  "http_compose c m p (s, w) =
     (Inr (), (s\<lparr>outBuffer := outBuffer s @ bytes_of (request_text c m p)\<rparr>, w))"
  using writeln_lines [of "[request_line c m p]"]
  by (simp add: http_compose_def prog_simps writeln_lines buf_newline_def buf_write_def request_text_def
      bytes_CRLF [symmetric] buf_writeln_def)

text \<open>
  \<open>serves_http pf w host p fd a req d\<close>: in the world \<open>w\<close> the host resolves to \<open>a\<close>, the connection
  is accepted on \<open>fd\<close>, the kernel takes the request \<open>req\<close> whole, and the first read yields \<open>d\<close>.
\<close>

definition http_trace ::
  "string \<Rightarrow> int \<Rightarrow> socket_fd \<Rightarrow> addrinfo \<Rightarrow> int \<Rightarrow> byte list \<Rightarrow> byte list \<Rightarrow> history" where
  "http_trace host p fd a cr req d =
     [Sys_getaddrinfo (Some (c_str host)) (servnam p) 0,
      Sys_socket (ai_family a) (ai_socktype a) (ai_protocol a) fd,
      Sys_connect fd (ai_addr a) cr,
      Sys_freeaddrinfo,
      Sys_send fd req 0 (int (length req)),
      Sys_recv fd MAXRECV 0 (int (length d)),
      Sys_shutdown fd, Sys_close fd]"

definition serves_http ::
  "platform \<Rightarrow> history \<Rightarrow> string \<Rightarrow> int \<Rightarrow> socket_fd \<Rightarrow> addrinfo \<Rightarrow> int \<Rightarrow> byte list \<Rightarrow> byte list \<Rightarrow> bool" where
  "serves_http pf tr host p fd a cr req d \<longleftrightarrow>
     (let t = (\<lambda>n. tr @ take n (http_trace host p fd a cr req d)) in
      (\<exists>more. os_getaddrinfo pf tr (Some (c_str host)) (servnam p) = (0, a # more)) \<and>
      os_socket pf (t 1) a = fd \<and> fd \<noteq> INVALID \<and>
      os_connect pf (t 2) fd (ai_addr a) = cr \<and> cr \<noteq> INVALID \<and>
      os_send pf (t 4) fd req 0 = int (length req) \<and>
      os_recv pf (t 5) fd MAXRECV 0 = (int (length d), d) \<and> d \<noteq> [] \<and> length d \<le> MAXRECV)"

lemma serves_http_run:
  fixes w :: "'w world_scheme"
  assumes "serves_http pf (trace w) host p fd a cr req d" and "req \<noteq> []" and "length req < 2 ^ 31"
    and "s = buffered_default"
  shows "\<exists>w1. buf_connect pf idle_vtable host p (s, w) =
      (Inr True, (s\<lparr>raw_sock := fd, addr := ai_addr a\<rparr>, w1)) \<and>
    trace w1 = trace w @ take 4 (http_trace host p fd a cr req d)"
proof -
  have v: "\<not> is_valid s" "ssl s = None" "listeners s = []"
    using assms(4) by (simp_all add: buffered_default_def socket_default_def socket.defs is_valid_def)
  obtain more where g: "os_getaddrinfo pf (trace w) (Some (c_str host)) (servnam p) = (0, a # more)"
    using assms(1) by (auto simp: serves_http_def Let_def)
  have "fd \<noteq> INVALID" "cr \<noteq> INVALID"
    "os_socket pf (trace w @ [Sys_getaddrinfo (Some (c_str host)) (servnam p) 0]) a = fd"
    "os_connect pf (trace w @ [Sys_getaddrinfo (Some (c_str host)) (servnam p) 0,
       Sys_socket (ai_family a) (ai_socktype a) (ai_protocol a) fd]) fd (ai_addr a) = cr"
    using assms(1) by (simp_all add: serves_http_def Let_def http_trace_def numeral_2_eq_2)
  with v g show ?thesis
    by (simp add: buf_connect_def socket_connect_def prog_simps finish_connect_def attach_ssl_def
        is_valid_def notify_idle http_trace_def eval_nat_numeral)
qed

text \<open>
  A request on a socket, from end to end: if the host resolves and accepts, the process opens
  one connection, sends exactly the request text - request line, missing default headers, the
  client's headers in order, the size of the content, a blank line and the content - in one
  call, reads once, and closes the connection; the result is the bytes of that one read, so a
  response that arrives in more than one piece, or is longer than 500 bytes, is cut off.
\<close>

theorem http_socket_request_run:
  fixes w :: "'w world_scheme"
  assumes "\<not> client_is_secure c" and "request_port c = Inr p"
    and "length (request_text c m path) < 2 ^ 31" and "0 < fuel"
    and "serves_http pf (trace w) (u_host (c_uri c)) p fd a cr (bytes_of (request_text c m path)) d"
  shows "\<exists>w'. http_socket_request pf fuel m path (c, w) = (Inr (string_of d), (c, w')) \<and>
    trace w' = trace w @ http_trace (u_host (c_uri c)) p fd a cr (bytes_of (request_text c m path)) d"
proof -
  let ?req = "bytes_of (request_text c m path)" and ?host = "u_host (c_uri c)"
  let ?t = "\<lambda>n. trace w @ take n (http_trace ?host p fd a cr ?req d)"
  let ?s1 = "buffered_default\<lparr>raw_sock := fd, addr := ai_addr a\<rparr>"
  have ne: "?req \<noteq> []" by (simp add: request_text_def CRLF_def)
  obtain w1 where c1: "buf_connect pf idle_vtable ?host p (buffered_default, w) = (Inr True, (?s1, w1))"
    and t1: "trace w1 = ?t 4"
    using serves_http_run [OF assms(5) ne] assms(3) by auto
  have k: "fd \<noteq> INVALID" "os_send pf (?t 4) fd ?req 0 = int (length ?req)"
    "os_recv pf (?t 5) fd MAXRECV 0 = (int (length d), d)" "d \<noteq> []" "length d \<le> MAXRECV"
    using assms(5) by (simp_all add: serves_http_def Let_def)
  let ?s2 = "?s1\<lparr>outBuffer := ?req\<rparr>"
  have f2: "is_valid ?s2" "outBuffer ?s2 \<noteq> []" "ssl ?s2 = None" "None \<notin> set (listeners ?s2)"
    "raw_sock ?s2 = fd" "\<not> non_blocking ?s2" "inBuffer ?s2 = []" "is_valid ?s1" "ssl ?s1 = None"
    "None \<notin> set (listeners ?s1)" "\<not> non_blocking ?s1" "inBuffer ?s1 = []" "raw_sock ?s1 = fd"
    "?s2\<lparr>outBuffer := []\<rparr> = ?s1"
    using k(1) ne by (simp_all add: is_valid_def buffered_default_def socket_default_def socket.defs)
  let ?w2 = "record_call pf (Sys_send fd ?req 0 (int (length ?req))) w1"
  have n: "notify idle_vtable Will_write (?s2, w1) = (Inr (), (?s2, w1))"
    "notify idle_vtable Did_write (?s1, ?w2) = (Inr (), (?s1, ?w2))"
    by (rule notify_idle, rule f2)+
  have sent: "write_from_buffer pf idle_vtable (?s2, w1) = (Inr True, (?s1, ?w2))"
    using write_from_buffer_run [OF f2(1,2) n(1) f2(1,3) refl, where r = "int (length ?req)" and pf = pf and ?w2.0 = ?w2]
      ne assms(3) k(2) t1 f2(5,14) n(2) by (simp add: prog_simps)
  let ?w3 = "record_call pf (Sys_recv fd MAXRECV 0 (int (length d))) ?w2"
  have t2: "trace ?w2 = ?t 5" using t1 by (simp add: http_trace_def eval_nat_numeral)
  have got: "read_to_buffer pf idle_vtable fuel (?s1, ?w2) = (Inr True, (?s1\<lparr>inBuffer := d\<rparr>, ?w3))"
    using read_blocking_run [OF f2(8,9,11,10), of pf ?w2 d fuel] k(3-5) t2 assms(4) f2(12,13) by simp
  have "http_body pf fuel c m path (buffered_default, w) = (Inr (string_of d), (?s1\<lparr>inBuffer := d\<rparr>, ?w3))"
    using assms(1,2) c1 sent got
    by (simp add: http_body_def http_connect_def prog_simps http_compose_run http_exchange_def
        buffered_default_def socket.defs)
  then show ?thesis
    using k(1) t2 f2(9) by (simp add: http_socket_request_def socket_destroy_def socket_close_def prog_simps
        set_ssl_def is_valid_def http_trace_def eval_nat_numeral)
qed

definition plain_client :: client where
  "plain_client = client_of_uri
     (uri_default\<lparr>u_valid := True, u_scheme := ''http'', u_host := ''h'', u_path := ''x''\<rparr>)"

definition http_kernel :: platform where
  "http_kernel = granting\<lparr>os_recv := (\<lambda>_ _ _ _. (2, [72, 73]))\<rparr>"

lemmas request_text_defs = request_text_def request_line_def plain_client_def client_of_uri_def
  add_header_def transfer.defs transfer_default_def default_lines_def own_lines_def size_lines_def
  uri_default_def buf_line_def snprintf_def Let_def CRLF_def header_names THIS_USER_AGENT_def c_str_def
  set_content_def has_header_def smap_get_def VERSION_1_1_def is_chunked_def MAX_URL_LEN_def char_at_def

lemma http_socket_request_run_witness:
  "\<exists>w'. http_socket_request http_kernel 1 GET ''x'' (plain_client, world0) =
      (Inr (string_of [72, 73]), (plain_client, w')) \<and>
    trace w' = http_trace ''h'' 80 7 local_info 0 (bytes_of (request_text plain_client GET ''x'')) [72, 73]"
proof -
  have c: "\<not> client_is_secure plain_client" "request_port plain_client = Inr 80" "u_host (c_uri plain_client) = ''h''"
    by (simp_all add: plain_client_def client_of_uri_def add_header_def transfer.defs client_is_secure_def
        request_port_def uri_default_def DEFAULT_PORT_def SECURE_PROTOCOL_def)
  have len: "length (request_text plain_client GET ''x'') < 2 ^ 31"
    by (simp add: request_text_defs)
  have s: "serves_http http_kernel (trace world0) (u_host (c_uri plain_client)) 80 7 local_info 0
      (bytes_of (request_text plain_client GET ''x'')) [72, 73]"
    by (simp add: serves_http_def http_kernel_def granting_def INVALID_def MAXRECV_def)
  from http_socket_request_run [OF c(1,2) len _ s, of 1] show ?thesis by (simp add: c(3) world0_def)
qed

text \<open>
  The text of that request. The size of a content is announced as \<open>Content-Size\<close>, which is no
  header of the protocol.
\<close>

lemma plain_request_text:
  "request_text (set_content ''ab'' plain_client) POST ''x'' =
     ''POST /x HTTP/1.1'' @ CRLF @ ''Host: h'' @ CRLF @ ''Accept: */*'' @ CRLF @ ''Connection: close'' @ CRLF @
     ''User-Agent: libcoda_net'' @ CRLF @ ''Content-Size: 2'' @ CRLF @ CRLF @ ''ab''"
  by (simp add: request_text_defs dec_nat.simps digit_char_def char_of_def bit_0)

end
