(* ===== verification/Http_Curl.thy ===== *)
theory Http_Curl
  imports Http_Socket
begin

section \<open>The HTTP transport on libcurl (\<open>http/curl_impl.cpp\<close>)\<close>

text \<open>
  Libcurl is not part of the repository: the model's parameter is a record of what its calls
  answer after a history of calls. \<open>curl_perform\<close> gives the chunks it hands to the write
  callback and its result.
\<close>

datatype curl_opt =
    Opt_url string
  | Opt_writefunction
  | Opt_header
  | Opt_httpget
  | Opt_post
  | Opt_put
  | Opt_postfields string
  | Opt_postfieldsize nat
  | Opt_customrequest string
  | Opt_httpheader "string list"
  | Opt_timeout int
  | Opt_writedata

datatype curl_ev =
    Easy_init
  | Easy_setopt curl_opt
  | Easy_perform
  | Slist_append string
  | Slist_free_all
  | Easy_cleanup

datatype curl_code = Curl_ok | Curl_partial_file | Curl_failed string

record curl_lib =
  curl_init :: "curl_ev list \<Rightarrow> bool"
  curl_setopt :: "curl_ev list \<Rightarrow> curl_opt \<Rightarrow> string option"
  curl_perform :: "curl_ev list \<Rightarrow> string list \<times> curl_code"

type_synonym 'b curl_prog = "(curl_ev list, 'b) prog"

definition curl_log :: "curl_ev \<Rightarrow> unit curl_prog" where
  "curl_log ev = pmod (\<lambda>tr. tr @ [ev])"

text \<open>\<open>curl_append_response_callback\<close>: the chunk is copied into a C string and appended as one.\<close>

definition append_callback :: "string \<Rightarrow> string \<Rightarrow> string" where
  "append_callback chunk s = s @ c_str chunk"

text \<open>\<open>curl_set_opt\<close>, \<open>curl_set_opt_num\<close> and \<open>curl_set_opt_fun\<close>: an error code becomes an exception.\<close>

definition set_opt :: "curl_lib \<Rightarrow> curl_opt \<Rightarrow> unit curl_prog" where
  "set_opt lib opt =
     pbind (pget (\<lambda>tr. curl_setopt lib tr opt)) (\<lambda>r.
     pthen (curl_log (Easy_setopt opt))
       (case r of None \<Rightarrow> pret () | Some msg \<Rightarrow> praise (Socket_exception msg)))"

definition curl_url :: "client \<Rightarrow> string \<Rightarrow> string" where
  "curl_url c userPath =
     (let u = c_uri c; path = (if userPath = [] then full_path u else userPath);
          base = c_str (u_scheme u) @ ''://'' @ c_str (host_with_port u)
      in if path = [] then buf_line base
         else if char_at path 0 = CHR ''/'' then buf_line (base @ c_str path)
         else buf_line (base @ ''/'' @ c_str path))"

definition method_opts :: "client \<Rightarrow> http_method \<Rightarrow> curl_opt list" where
  "method_opts c m =
     (let fields = (if content c \<noteq> []
                    then [Opt_postfields (content c), Opt_postfieldsize (length (content c))] else [])
      in case m of
           GET \<Rightarrow> [Opt_httpget]
         | POST \<Rightarrow> Opt_post # fields
         | PUT \<Rightarrow> Opt_put # fields
         | _ \<Rightarrow> [Opt_customrequest (method_name m)])"

definition curl_header_lines :: "client \<Rightarrow> string list" where
  "curl_header_lines c = map (\<lambda>(k, v). buf_line (c_str k @ '': '' @ c_str v)) (headers c)"

definition curl_setup :: "curl_lib \<Rightarrow> client \<Rightarrow> http_method \<Rightarrow> string \<Rightarrow> unit curl_prog" where
  "curl_setup lib c m userPath =
     pthen (set_opt lib (Opt_url (curl_url c userPath)))
    (pthen (set_opt lib Opt_writefunction)
    (pthen (set_opt lib Opt_header)
    (pthen (piter (set_opt lib) (method_opts c m))
    (pthen (piter (\<lambda>l. curl_log (Slist_append l)) (curl_header_lines c))
    (pthen (set_opt lib (Opt_httpheader (curl_header_lines c)))
    (pthen (set_opt lib (Opt_timeout (c_timeout c)))
       (set_opt lib Opt_writedata)))))))"

definition curl_run :: "curl_lib \<Rightarrow> string curl_prog" where
  "curl_run lib =
     pbind (pget (curl_perform lib)) (\<lambda>(chunks, code).
     pthen (curl_log Easy_perform)
    (pthen (curl_log Slist_free_all)
    (pthen (curl_log Easy_cleanup)
       (case code of
          Curl_failed msg \<Rightarrow> praise (Socket_exception msg)
        | _ \<Rightarrow> pret (fold append_callback chunks [])))))"

text \<open>The build without libcurl is the parameter \<open>None\<close>.\<close>

definition curl_request ::
  "curl_lib option \<Rightarrow> client \<Rightarrow> http_method \<Rightarrow> string \<Rightarrow> string curl_prog" where
  "curl_request found c m userPath =
     (case found of
        None \<Rightarrow> praise (Socket_exception ''curl implementation not enabled'')
      | Some lib \<Rightarrow>
          pbind (pget (curl_init lib)) (\<lambda>ok.
          pthen (curl_log Easy_init)
            (if \<not> ok then praise (Socket_exception ''unable to initialize curl request'')
             else pthen (curl_setup lib c m userPath) (curl_run lib))))"

subsection \<open>What the transport does with the library\<close>

text \<open>
  What a request should ask of the library, by what is known of the protocol: the address as one text,
  the options of each method written out, one line for each header.
\<close>

fun expected_method :: "http_method \<Rightarrow> string \<Rightarrow> curl_opt list" where
  "expected_method GET _ = [Opt_httpget]"
| "expected_method POST [] = [Opt_post]"
| "expected_method POST body = [Opt_post, Opt_postfields body, Opt_postfieldsize (length body)]"
| "expected_method PUT [] = [Opt_put]"
| "expected_method PUT body = [Opt_put, Opt_postfields body, Opt_postfieldsize (length body)]"
| "expected_method OPTIONS _ = [Opt_customrequest ''OPTIONS'']"
| "expected_method HEAD _ = [Opt_customrequest ''HEAD'']"
| "expected_method DELETE _ = [Opt_customrequest ''DELETE'']"
| "expected_method CONNECT _ = [Opt_customrequest ''CONNECT'']"
| "expected_method TRACE _ = [Opt_customrequest ''TRACE'']"

definition expected_url :: "client \<Rightarrow> string \<Rightarrow> string" where
  "expected_url c path =
     (let p = (if path = [] then full_path (c_uri c) else path)
      in u_scheme (c_uri c) @ ''://'' @ host_with_port (c_uri c) @
         (if p = [] \<or> take 1 p = ''/'' then p else ''/'' @ p))"

definition expected_headers :: "client \<Rightarrow> string list" where
  "expected_headers c = [k @ '': '' @ v. (k, v) \<leftarrow> headers c]"

definition expected_calls :: "client \<Rightarrow> http_method \<Rightarrow> string \<Rightarrow> curl_ev list" where
  "expected_calls c m path =
     map Easy_setopt ([Opt_url (expected_url c path), Opt_writefunction, Opt_header] @ expected_method m (content c)) @
     map Slist_append (expected_headers c) @
     map Easy_setopt [Opt_httpheader (expected_headers c), Opt_timeout (c_timeout c), Opt_writedata]"

text \<open>Texts without NUL that fit the buffer of the function.\<close>

definition fits :: "string \<Rightarrow> bool" where
  "fits s \<longleftrightarrow> NUL \<notin> set s \<and> length s < MAX_URL_LEN"

lemma fits_line: "fits s \<Longrightarrow> buf_line s = s"
  by (auto simp: fits_def buf_line_def snprintf_def)

lemma url_expected:
  assumes "fits (expected_url c path)"
  shows "curl_url c path = expected_url c path"
proof -
  let ?u = "c_uri c" and ?p = "if path = [] then full_path (c_uri c) else path"
  have nul: "NUL \<notin> set (u_scheme ?u)" "NUL \<notin> set (host_with_port ?u)" "NUL \<notin> set ?p"
    using assms by (auto simp: fits_def expected_url_def Let_def split: if_splits)
  then have s: "c_str (u_scheme ?u) = u_scheme ?u" "c_str (host_with_port ?u) = host_with_port ?u" "c_str ?p = ?p"
    by (simp_all add: c_str_id NUL_def)
  have h: "char_at ?p 0 = CHR ''/'' \<longleftrightarrow> take 1 ?p = ''/''" if "?p \<noteq> []"
    using that by (cases ?p) (simp_all add: char_at_def)
  show ?thesis
    using assms h unfolding curl_url_def expected_url_def Let_def s
    by (auto simp: fits_line)
qed

lemma method_expected: "method_opts c m = expected_method m (content c)"
  by (cases m; cases "content c") (simp_all add: method_opts_def)

lemma headers_expected:
  assumes "\<forall>l\<in>set (expected_headers c). fits l"
  shows "curl_header_lines c = expected_headers c"
proof -
  have "buf_line (c_str k @ '': '' @ c_str v) = k @ '': '' @ v" if "(k, v) \<in> set (headers c)" for k v
  proof -
    have f: "fits (k @ '': '' @ v)" using assms that by (force simp: expected_headers_def)
    then have "c_str k = k" "c_str v = v" by (simp_all add: fits_def c_str_id NUL_def)
    with f show ?thesis by (simp add: fits_line)
  qed
  then show ?thesis by (auto simp: curl_header_lines_def expected_headers_def)
qed

lemma set_opt_run:
  "curl_setopt lib tr opt = None \<Longrightarrow> set_opt lib opt tr = (Inr (), tr @ [Easy_setopt opt])"
  by (simp add: set_opt_def prog_simps curl_log_def)

lemma set_opts_run:
  assumes "\<And>tr opt. curl_setopt lib tr opt = None"
  shows "piter (set_opt lib) opts tr = (Inr (), tr @ map Easy_setopt opts)"
  using assms by (induction opts arbitrary: tr) (simp_all add: prog_simps set_opt_run)

lemma slist_run: "piter (\<lambda>l. curl_log (Slist_append l)) ls tr = (Inr (), tr @ map Slist_append ls)"
  by (induction ls arbitrary: tr) (simp_all add: prog_simps curl_log_def)

lemma curl_setup_run:
  assumes "\<And>tr opt. curl_setopt lib tr opt = None"
    and "fits (expected_url c path)" and "\<forall>l\<in>set (expected_headers c). fits l"
  shows "curl_setup lib c m path tr = (Inr (), tr @ expected_calls c m path)"
  using assms(1)
  by (simp add: curl_setup_def prog_simps set_opts_run slist_run set_opt_run expected_calls_def
      url_expected [OF assms(2)] method_expected headers_expected [OF assms(3)])

lemma fold_append_callback: "fold append_callback chunks s = s @ concat (map c_str chunks)"
  by (induction chunks arbitrary: s) (simp_all add: append_callback_def)

text \<open>
  C28: with a library that accepts every option, and an address and header lines without NUL that
  have less than 2000 characters, a request asks the library for what it should, call by call:
  the address scheme, host and path as one text, the write callback, the response with its header,
  the method - by its own option for GET, POST and PUT, for the last two with the body and its
  size if there is one, by name for the five others -, every header of the client as a line, the
  timeout, and the target of the callback; it performs one transfer, and frees the header list and
  the handle whether the transfer succeeds or fails. Its result is the received chunks, each cut off
  at its first NUL byte, or the error of the library as the exception of the repository.
\<close>

theorem curl_request_run:
  assumes "curl_init lib tr" and "\<And>t opt. curl_setopt lib t opt = None"
    and "fits (expected_url c path)" and "\<forall>l\<in>set (expected_headers c). fits l"
    and "curl_perform lib (tr @ Easy_init # expected_calls c m path) = (chunks, res)"
  shows "curl_request (Some lib) c m path tr =
    (case res of Curl_failed msg \<Rightarrow> Inl (Socket_exception msg) | _ \<Rightarrow> Inr (concat (map c_str chunks)),
     tr @ Easy_init # expected_calls c m path @ [Easy_perform, Slist_free_all, Easy_cleanup])"
  using assms(1,2,5) curl_setup_run [OF assms(2-4), of m "tr @ [Easy_init]"]
  by (cases res) (simp_all add: curl_request_def prog_simps curl_log_def curl_run_def fold_append_callback)

definition echo_lib :: curl_lib where
  "echo_lib = \<lparr>curl_init = (\<lambda>_. True), curl_setopt = (\<lambda>_ _. None),
     curl_perform = (\<lambda>_. ([[CHR ''a'', NUL, CHR ''b''], ''c''], Curl_ok))\<rparr>"

lemma curl_request_run_witness:
  "curl_request (Some echo_lib) (plain_client\<lparr>content := ''hi''\<rparr>) POST ''x'' [] =
     (Inr ''ac'', Easy_init # expected_calls (plain_client\<lparr>content := ''hi''\<rparr>) POST ''x'' @ [Easy_perform, Slist_free_all, Easy_cleanup])"
proof -
  let ?c = "plain_client\<lparr>content := ''hi''\<rparr>"
  have "fits (expected_url ?c ''x'')" "\<forall>l\<in>set (expected_headers ?c). fits l"
    by code_simp+
  from curl_request_run [OF _ _ this, of echo_lib "[]" POST "[[CHR ''a'', NUL, CHR ''b''], ''c'']" Curl_ok] show ?thesis
    by (simp add: echo_lib_def c_str_def NUL_def)
qed

definition handles :: "curl_ev list \<Rightarrow> int" where
  "handles tr = int (count_list tr Easy_init) - int (count_list tr Easy_cleanup)"

lemma handles_append: "handles (tr @ evs) = handles tr + handles evs"
  by (simp add: handles_def)

text \<open>
  An option that the library refuses loses the handle: the exception leaves the function
  with the handle allocated and never cleaned up.
\<close>

theorem curl_refused_option_leaks:
  assumes "curl_init lib tr" and "curl_setopt lib (tr @ [Easy_init]) (Opt_url (curl_url c path)) = Some msg"
  shows "\<exists>tr'. curl_request (Some lib) c m path tr = (Inl (Socket_exception msg), tr') \<and>
    handles tr' = handles tr + 1"
  using assms
  by (simp add: curl_request_def prog_simps curl_log_def curl_setup_def set_opt_def handles_def)

lemma curl_refused_option_leaks_witness:
  "\<exists>tr'. curl_request (Some (echo_lib\<lparr>curl_setopt := (\<lambda>_ _. Some ''bad'')\<rparr>)) plain_client GET [] [] =
     (Inl (Socket_exception ''bad''), tr') \<and> handles tr' = 1"
  using curl_refused_option_leaks [of "echo_lib\<lparr>curl_setopt := (\<lambda>_ _. Some ''bad'')\<rparr>" "[]" plain_client "[]" "''bad''" GET]
  by (simp add: echo_lib_def handles_def)

end
