(* ===== verification/Crest.thy ===== *)
theory Crest
  imports Http_Socket
begin

section \<open>The command line tool (\<open>http/crest\<close>)\<close>

text \<open>
  \<open>crest\<close> sends one request described by options, by a dialogue and by the history file of the
  last run. The parts: the argument splitter and the dialogue (\<open>util.cpp\<close>), the history file
  (\<open>config.cpp\<close>), the request under construction (\<open>jester.cpp\<close>) and \<open>main.cpp\<close>. The file is
  its text, \<open>None\<close> while it does not exist; \<open>getopt_long\<close>, which yields the options with their
  arguments, is not part of the repository, so its result is an argument.
\<close>

text \<open>What \<open>puts\<close>, or an insertion followed by \<open>endl\<close>, prints.\<close>

definition puts :: "string \<Rightarrow> string" where
  "puts s = s @ [CHR 0x0A]"

subsection \<open>\<open>util.cpp\<close>: splitting arguments\<close>

definition split_arg :: "string \<Rightarrow> string \<Rightarrow> (string \<times> string) option" where
  "split_arg arg delimiter =
     (case str_find arg delimiter 0 of
        None \<Rightarrow> None
      | Some pos \<Rightarrow>
          let key = take pos arg in
          if key = [] then None else Some (key, drop (pos + length delimiter) arg))"

subsection \<open>\<open>config.cpp\<close>: the history file\<close>

text \<open>Where the file lies, from the value of \<open>HOME\<close>; a string made from the null pointer that
  \<open>getenv\<close> gives when it is unset is undefined.\<close>

definition get_config_folder :: "string option \<Rightarrow> exn + string" where
  "get_config_folder home =
     (case home of None \<Rightarrow> Inl Undefined_behaviour | Some h \<Rightarrow> Inr (h @ ''/'' @ ''.jest''))"

definition config_path :: "string option \<Rightarrow> string \<Rightarrow> exn + string" where
  "config_path home name =
     (case get_config_folder home of Inl e \<Rightarrow> Inl e | Inr p \<Rightarrow> Inr (p @ ''/'' @ name))"

lemma scan_word_less: "scan_word s = Some (w, r) \<Longrightarrow> length r < length s"
proof -
  assume a: "scan_word s = Some (w, r)"
  then have "w \<noteq> []" by (auto simp: scan_word_def Let_def split: if_splits)
  with scan_word_length [OF a] show ?thesis by (cases w) auto
qed

text \<open>\<open>is >> line\<close> reads a word. A word without an equals sign leaves the pair as it was, and
  the \<open>istream_iterator\<close>, which holds one pair, delivers the previous one again.\<close>

function entries :: "string \<Rightarrow> string \<times> string \<Rightarrow> (string \<times> string) list" where
  "entries s ps =
     (case scan_word s of
        None \<Rightarrow> []
      | Some (line, r) \<Rightarrow>
          let ps' = (case str_find line ''='' 0 of
                       None \<Rightarrow> ps
                     | Some pos \<Rightarrow> (take pos line, drop (pos + 1) line))
          in ps' # entries r ps')"
  by pat_completeness auto
termination
  by (relation "measure (\<lambda>(s, ps). length s)") (auto dest: scan_word_less)

declare entries.simps [simp del]

definition config_read :: "string \<Rightarrow> str_map \<Rightarrow> str_map" where
  "config_read file config = smap_insert_range (entries file ([], [])) config"

definition config_text :: "str_map \<Rightarrow> string" where
  "config_text config = concat (map (\<lambda>(k, v). k @ ''='' @ v @ [CHR 0x0A]) config)"

text \<open>The stream is opened for reading and writing, which does not truncate the file: what is
  written replaces the beginning.\<close>

definition config_write :: "str_map \<Rightarrow> string \<Rightarrow> string" where
  "config_write config file = config_text config @ drop (length (config_text config)) file"

text \<open>\<open>config_io(path)\<close> creates a missing file.\<close>

definition config_open :: "string option \<Rightarrow> string" where
  "config_open file = (case file of None \<Rightarrow> [] | Some t \<Rightarrow> t)"

definition config_init :: "string option \<Rightarrow> str_map \<Rightarrow> str_map \<times> string option" where
  "config_init file values = (config_read (config_open file) values, Some (config_open file))"

definition config_get :: "string \<Rightarrow> str_map \<Rightarrow> string \<times> str_map" where
  "config_get key values = (if key = [] then (key, values) else smap_index [] values key)"

definition config_put :: "string \<Rightarrow> string \<Rightarrow> str_map \<Rightarrow> str_map" where
  "config_put key value values = (if key = [] then values else smap_put key value values)"

definition config_save :: "str_map \<Rightarrow> string option \<Rightarrow> string option" where
  "config_save values file = Some (config_write values (config_open file))"

subsection \<open>\<open>jester.cpp\<close>: the request under construction\<close>

record jester =
  j_method :: http_method
  j_data :: str_map
  j_content :: string
  j_headers :: str_map
  j_uri :: uri
  j_interactive :: bool

definition jester_default :: jester where
  "jester_default = \<lparr>j_method = GET, j_data = [], j_content = [], j_headers = [],
     j_uri = uri_default, j_interactive = False\<rparr>"

type_synonym uri_lib = "(string \<Rightarrow> uri_ranges option) option"

definition set_uri :: "uri_lib \<Rightarrow> string \<Rightarrow> jester \<Rightarrow> jester" where
  "set_uri lib value j = j\<lparr>j_uri := uri_of lib value PROTOCOL\<rparr>"

definition method_names :: "http_method list" where
  "method_names = [OPTIONS, HEAD, GET, POST, PUT, DELETE, CONNECT, TRACE]"

fun find_method :: "string \<Rightarrow> http_method list \<Rightarrow> http_method option" where
  "find_method value [] = None"
| "find_method value (m # ms) = (if value = method_name m then Some m else find_method value ms)"

definition set_method :: "string \<Rightarrow> jester \<Rightarrow> bool \<times> jester" where
  "set_method value j =
     (case find_method value method_names of
        None \<Rightarrow> (False, j)
      | Some m \<Rightarrow> (True, j\<lparr>j_method := m\<rparr>))"

definition set_jester_method :: "http_method \<Rightarrow> jester \<Rightarrow> jester" where
  "set_jester_method value j = j\<lparr>j_method := value\<rparr>"

definition set_interactive :: "bool \<Rightarrow> jester \<Rightarrow> jester" where
  "set_interactive value j = j\<lparr>j_interactive := value\<rparr>"

definition append_data :: "string \<times> string \<Rightarrow> jester \<Rightarrow> jester" where
  "append_data kv j = j\<lparr>j_data := smap_put (fst kv) (snd kv) (j_data j), j_content := []\<rparr>"

definition append_header :: "string \<times> string \<Rightarrow> jester \<Rightarrow> jester" where
  "append_header kv j = j\<lparr>j_headers := smap_put (fst kv) (snd kv) (j_headers j)\<rparr>"

definition set_jester_content :: "string \<Rightarrow> jester \<Rightarrow> jester" where
  "set_jester_content value j = j\<lparr>j_content := value, j_data := []\<rparr>"

datatype cli_option =
    Opt_uri string
  | Opt_method string
  | Opt_data string
  | Opt_content string
  | Opt_interactive
  | Opt_headers string
  | Opt_unknown

definition TAB :: string where
  "TAB = [CHR 0x09]"

definition syntax_text :: "string \<Rightarrow> string" where
  "syntax_text bin =
     puts (puts (''Syntax: '' @ bin)) @
     puts (TAB @ ''[path]'' @ TAB @ ''rest path to test.  if a uri option has been specified '' @
       ''at least once, it will append to '' @ ''its value.'') @
     puts (puts [] @ ''Options:'') @
     puts (TAB @ ''-u'' @ TAB @ TAB @ ''specify the uri or base url.'') @
     puts (TAB @ ''-m [method]'' @ TAB @ ''specify the method'') @
     puts (TAB @ ''-d [data]'' @ TAB @ ''add some data to the form in key=value format'') @
     puts (TAB @ ''-i'' @ TAB @ TAB @ ''enable interactive mode to prompt for inputs'') @
     puts (TAB @ ''-h [header]'' @ TAB @ ''add a header to the request in key:value format'') @
     puts (puts [])"

text \<open>
  \<open>parse_options\<close>: whether the result is \<open>EXIT_SUCCESS\<close>, and what is printed; the first option
  that is wrong ends it.
\<close>

fun parse_options :: "uri_lib \<Rightarrow> string \<Rightarrow> cli_option list \<Rightarrow> jester \<Rightarrow> (bool \<times> string) \<times> jester" where
  "parse_options lib bin [] j = ((True, []), j)"
| "parse_options lib bin (Opt_uri s # os) j = parse_options lib bin os (set_uri lib s j)"
| "parse_options lib bin (Opt_method s # os) j =
     (case set_method s j of (ok, j') \<Rightarrow>
        if ok then parse_options lib bin os j' else ((False, puts (''Unknown HTTP method '' @ s)), j'))"
| "parse_options lib bin (Opt_data s # os) j =
     (case split_arg s ''='' of
        None \<Rightarrow> ((False, ''Data should be in key=value format.''), j)
      | Some kv \<Rightarrow> parse_options lib bin os (append_data kv j))"
| "parse_options lib bin (Opt_content s # os) j = parse_options lib bin os (set_jester_content s j)"
| "parse_options lib bin (Opt_interactive # os) j = parse_options lib bin os (set_interactive True j)"
| "parse_options lib bin (Opt_headers s # os) j =
     (case split_arg s '':'' of
        None \<Rightarrow> ((False, ''header should be in key:value format.''), j)
      | Some kv \<Rightarrow> parse_options lib bin os (append_header kv j))"
| "parse_options lib bin (Opt_unknown # os) j = ((False, syntax_text bin), j)"

definition validate :: "jester \<Rightarrow> bool" where
  "validate j \<longleftrightarrow> u_valid (j_uri j)"

definition jester_client :: "((string \<times> string) list \<Rightarrow> string) \<Rightarrow> jester \<Rightarrow> client" where
  "jester_client archive_out j =
     (let c = add_headers (j_headers j) (client_of_uri (j_uri j)) in
      if j_data j \<noteq> [] then set_content (json_encode_map archive_out (j_data j)) c
      else if j_content j \<noteq> [] then set_content (json_encode_str (j_content j)) c
      else c)"

definition execute ::
  "((string \<times> string) list \<Rightarrow> string) \<Rightarrow> 'w http_impl option \<Rightarrow> jester \<Rightarrow> string \<Rightarrow> 'w world_scheme \<Rightarrow>
     (exn + response) \<times> 'w world_scheme" where
  "execute archive_out impl j path w =
     (case client_request impl (j_method j) path None (jester_client archive_out j, w) of
        (Inl e, (c, w')) \<Rightarrow> (Inl e, w')
      | (Inr _, (c, w')) \<Rightarrow> (Inr (c_response c), w'))"

subsection \<open>\<open>util.cpp\<close>: the dialogue\<close>

text \<open>
  \<open>state_\<close> is the function that reads the next answer, and \<open>prompt_\<close> the one that asks for it; they
  are set together, and null at the end. \<open>getline\<close> at the end of the input leaves its string empty
  and consumes nothing.
\<close>

datatype dialogue = Get_method | Get_headers | Get_data | Finished

fun ask_question :: "dialogue \<Rightarrow> jester \<Rightarrow> string" where
  "ask_question Get_method j =
     puts ''HTTP Method?'' @ ''(Default GET, Current '' @ method_name (j_method j) @ '') ''"
| "ask_question Get_headers j = puts ''HTTP Headers? (End with a ~)''"
| "ask_question Get_data j = puts ''HTTP Data? (End with a ~)''"
| "ask_question Finished j = []"

text \<open>The function in \<open>state_\<close>: its result and what it prints, then the state and the request.\<close>

fun answer :: "dialogue \<Rightarrow> string \<Rightarrow> jester \<Rightarrow> (bool \<times> string) \<times> dialogue \<times> jester" where
  "answer Get_method input j =
     (if input = [] then ((True, []), Get_headers, j)
      else case set_method input j of (ok, j') \<Rightarrow>
        if ok then ((True, []), Get_headers, j')
        else ((False, puts ''Invalid method, try again.''), Get_method, j'))"
| "answer Get_headers input j =
     (if input = ''~'' then ((True, []), Get_data, j)
      else case split_arg input '':'' of
        None \<Rightarrow> ((False, puts ''invalid header format (key: value).  Try again.''), Get_headers, j)
      | Some kv \<Rightarrow> ((False, []), Get_headers, append_header kv j))"
| "answer Get_data input j =
     (if input = ''~'' then ((True, []), Finished, j)
      else case split_arg input ''='' of
        None \<Rightarrow> ((False, puts ''Invalid data format (key=value). Try again.''), Get_data, j)
      | Some kv \<Rightarrow> ((False, []), Get_data, append_data kv j))"
| "answer Finished input j = ((False, []), Finished, j)"

definition read_line :: "string list \<Rightarrow> string" where
  "read_line ls = (case ls of [] \<Rightarrow> [] | l # _ \<Rightarrow> l)"

text \<open>The state that the constructor of \<open>interactive\<close> sets.\<close>

definition first_question :: dialogue where
  "first_question = Get_method"

text \<open>One turn of the loop of \<open>start\<close>: the new state and request, and what it prints.\<close>

definition reply :: "dialogue \<Rightarrow> string list \<Rightarrow> jester \<Rightarrow> (dialogue \<times> jester) \<times> string" where
  "reply st ls j =
     (case answer st (read_line ls) j of
        ((ok, said), (st', j')) \<Rightarrow> ((st', j'), said @ (if ok then ask_question st' j' else [])))"

type_synonym terminal = "string list \<times> string"

inductive turn :: "dialogue \<times> jester \<times> terminal \<Rightarrow> dialogue \<times> jester \<times> terminal \<Rightarrow> bool" where
  turn: "st \<noteq> Finished \<Longrightarrow> reply st ls j = ((st', j'), said) \<Longrightarrow>
    turn (st, j, (ls, printed)) (st', j', (tl ls, printed @ said))"

inductive_cases turnE: "turn (st, j, (ls, printed)) s'"

inductive_simps turn_simps: "turn (st, j, (ls, printed)) (st', j', (ls', printed'))"

text \<open>
  The loop, with a bound on its turns; \<open>None\<close> when it has not ended by then. Its result is the
  request and everything that was printed.
\<close>

fun start_loop :: "nat \<Rightarrow> dialogue \<Rightarrow> string list \<Rightarrow> jester \<Rightarrow> string \<Rightarrow> (jester \<times> string) option" where
  "start_loop n Finished ls j printed = Some (j, printed)"
| "start_loop 0 st ls j printed = None"
| "start_loop (Suc n) st ls j printed =
     (case reply st ls j of ((st', j'), said) \<Rightarrow> start_loop n st' (tl ls) j' (printed @ said))"

definition start :: "nat \<Rightarrow> string list \<Rightarrow> jester \<Rightarrow> (jester \<times> string) option" where
  "start n ls j = start_loop n first_question ls j (ask_question first_question j)"

subsection \<open>\<open>main.cpp\<close>\<close>

text \<open>
  \<open>main\<close>: its exit status, or the exception it does not catch, what it prints on the standard
  output and on the error output, and the history file. The operand of the command line is the
  path. \<open>EXIT_FAILURE\<close> is 1; the last \<open>return\<close> is a truth value. The environment is the value of
  \<open>HOME\<close>, the result of \<open>mkdir\<close> with \<open>errno\<close>, the texts of \<open>perror\<close>, and \<open>argv[0]\<close>.
\<close>

record crest_env =
  env_home :: "string option"
  env_mkdir :: "string \<Rightarrow> int \<times> int"
  env_strerror :: "int \<Rightarrow> string"
  env_bin :: string

definition EEXIST :: int where
  "EEXIST = 17"

definition exit_status :: "response \<Rightarrow> int" where
  "exit_status r = (if r_code r = OK then 1 else 0)"

definition save_history :: "jester \<Rightarrow> str_map \<Rightarrow> string option \<Rightarrow> string option" where
  "save_history j history file =
     config_save (config_put ''uri'' (u_text (j_uri j))
       (config_put ''method'' (method_name (j_method j)) history)) file"

definition load_history :: "uri_lib \<Rightarrow> string option \<Rightarrow> jester \<times> str_map \<times> string option" where
  "load_history lib file =
     (case config_init file [] of (h0, file1) \<Rightarrow>
        case config_get ''method'' h0 of (m, h1) \<Rightarrow>
        case config_get ''uri'' h1 of (u, h2) \<Rightarrow>
          (set_uri lib u (snd (set_method m jester_default)), h2, file1))"

definition show_response :: "response \<Rightarrow> string" where
  "show_response r = puts ''Response:'' @ puts (content r) @ puts ''Debug:'' @ puts (r_value r)"

text \<open>The request at the end of \<open>main\<close>, with what was printed before it.\<close>

definition crest_request ::
  "((string \<times> string) list \<Rightarrow> string) \<Rightarrow> 'w http_impl option \<Rightarrow> jester \<Rightarrow> string \<Rightarrow> string \<Rightarrow> string option \<Rightarrow>
     'w world_scheme \<Rightarrow> (exn + int) \<times> (string \<times> string) \<times> string option \<times> 'w world_scheme" where
  "crest_request archive_out impl j path printed file w =
     (case execute archive_out impl j path w of
        (Inr r, w') \<Rightarrow> (Inr (exit_status r), (printed @ show_response r, []), file, w')
      | (Inl (Socket_exception msg), w') \<Rightarrow> (Inr 1, (printed, puts msg), file, w')
      | (Inl e, w') \<Rightarrow> (Inl e, (printed, []), file, w'))"

definition crest_main ::
  "uri_lib \<Rightarrow> ((string \<times> string) list \<Rightarrow> string) \<Rightarrow> 'w http_impl option \<Rightarrow> crest_env \<Rightarrow> cli_option list \<Rightarrow>
     string option \<Rightarrow> nat \<Rightarrow> string list \<Rightarrow> string option \<Rightarrow> 'w world_scheme \<Rightarrow>
     (exn + int) \<times> (string \<times> string) \<times> string option \<times> 'w world_scheme" where
  "crest_main lib archive_out impl env options operand fuel inputs file w =
     (case get_config_folder (env_home env) of
        Inl e \<Rightarrow> (Inl e, ([], []), file, w)
      | Inr dir \<Rightarrow>
        case env_mkdir env dir of (err, errno_) \<Rightarrow>
        if err = -1 \<and> errno_ \<noteq> EEXIST
        then (Inr 1, ([], puts (''unable to create config directory: '' @ env_strerror env errno_)), file, w)
        else
          case load_history lib file of (j0, history, file1) \<Rightarrow>
          case parse_options lib (env_bin env) options j0 of ((ok, said), j1) \<Rightarrow>
            if \<not> ok then (Inr 1, (said, []), file1, w)
            else
              case (if j_interactive j1 then start fuel inputs j1 else Some (j1, [])) of
                None \<Rightarrow> (Inl Out_of_fuel, (said, []), file1, w)
              | Some (j, talk) \<Rightarrow>
                  if \<not> validate j
                  then (Inr 1, (said @ talk @ syntax_text (env_bin env) @
                      puts ''For first time usage, please specify a base uri with -u.'', []), file1, w)
                  else crest_request archive_out impl j (case operand of None \<Rightarrow> [] | Some p \<Rightarrow> p) (said @ talk)
                      (save_history j history file1) w)"

end
