(* ===== verification/Crest_Facts.thy ===== *)
theory Crest_Facts
  imports Crest
begin

section \<open>The command line tool: history, dialogue and exit status\<close>

text \<open>
  The history file and its round trips; the dialogue, whose executable loop is shown to be the
  closure of its step relation, with its phases ordered as the tool goes through them; the exit
  status of a run.
\<close>

subsection \<open>The history\<close>

lemma split_arg_run:
  assumes "k \<noteq> []" and "c \<notin> set k"
  shows "split_arg (k @ c # v) [c] = Some (k, v)"
  using assms str_find_first0 [OF assms(2), of "[]" v] by (simp add: split_arg_def)

lemma entries_run:
  assumes "\<forall>(k, v)\<in>set m. CHR ''='' \<notin> set k \<and> (\<forall>c\<in>set (k @ v). \<not> is_space c)"
  shows "entries (config_text m) ps = m"
  using assms
proof (induction m arbitrary: ps)
  case Nil
  then show ?case by (simp add: config_text_def entries.simps scan_word_def)
next
  case (Cons kv m)
  obtain k v where kv: "kv = (k, v)" by (cases kv)
  let ?l = "k @ ''='' @ v" and ?r = "[CHR 0x0A] @ config_text m"
  have sp: "is_space (CHR 0x0A)" "\<not> is_space (CHR ''='')" by (simp_all add: is_space_def code_def)
  have "scan_word (?l @ ?r) = Some (?l, ?r)"
    using Cons.prems kv sp by (intro scan_word_run(1)) auto
  moreover have "config_text (kv # m) = ?l @ ?r" by (simp add: config_text_def kv)
  moreover have "str_find ?l ''='' 0 = Some (length k)"
    using Cons.prems kv str_find_first0 [of "CHR ''=''" k "[]" v] by simp
  moreover have "scan_word ?r = scan_word (config_text m)" using sp by (simp add: scan_word_def)
  then have "entries ?r ps' = entries (config_text m) ps'" for ps'
    by (simp only: entries.simps [of ?r] entries.simps [of "config_text m"])
  ultimately show ?case
    using Cons kv by (simp add: entries.simps [of "k @ CHR ''='' # v @ _"])
qed

lemma insert_range_self: "smap_ok m \<Longrightarrow> smap_insert_range m [] = m"
proof (rule smap_ext)
  assume "smap_ok m"
  then show "smap_ok (smap_insert_range m [])" "smap_ok m"
    by (simp_all add: smap_insert_range_ok sm.ok_empty)
  show "smap_get (smap_insert_range m []) k = smap_get m k" for k
    unfolding smap_get_insert_range sm.get_empty by (simp add: smap_get_def)
qed

lemma config_read_text:
  assumes "smap_ok m" and "\<forall>(k, v)\<in>set m. CHR ''='' \<notin> set k \<and> (\<forall>c\<in>set (k @ v). \<not> is_space c)"
  shows "config_read (config_text m) [] = m"
  using assms by (simp add: config_read_def entries_run insert_range_self)

text \<open>
  the history survives a run: a configuration saved to a new file is read back as it was, if
  its keys hold no equals sign and no key or value holds white space.
\<close>

theorem config_roundtrip:
  assumes "smap_ok m" and "\<forall>(k, v)\<in>set m. CHR ''='' \<notin> set k \<and> (\<forall>c\<in>set (k @ v). \<not> is_space c)"
  shows "fst (config_init (config_save m None) []) = m"
  using assms
  by (simp add: config_init_def config_save_def config_write_def config_open_def config_read_text)

lemma config_roundtrip_witness:
  "fst (config_init (config_save [(''method'', ''GET''), (''uri'', ''h'')] None) []) =
     [(''method'', ''GET''), (''uri'', ''h'')]"
  by (rule config_roundtrip) (simp_all add: smap_ok_def less_char_def is_space_def code_def)

text \<open>
  Saving does not replace the file: what a longer earlier save has left behind the new text
  stays there, and is read back with it.
\<close>

theorem config_save_keeps_tail:
  assumes "old = config_text m @ rest"
  shows "config_save m (Some old) = Some old"
  using assms by (simp add: config_save_def config_write_def config_open_def)

lemma config_save_keeps_tail_witness:
  "config_save [(''a'', ''1'')] (Some ''a=1
b=2
'') = Some ''a=1
b=2
''"
  by (rule config_save_keeps_tail [where rest = "''b=2
''"]) (simp add: config_text_def)

lemma parse_text [simp]:
  "u_text (snd (parse_userinfo s pos u)) = u_text u"
  "u_text (snd (parse_authority s pos u)) = u_text u"
  "u_text (parse_path s pos u) = u_text u"
  "u_text (snd (parse_lib f s d u)) = u_text u"
  by (simp_all add: parse_userinfo_def parse_authority_def parse_path_def parse_lib_def Let_def
      split: option.split)

lemma uri_text: "u_text (uri_of lib s d) = s"
proof -
  have "u_text (snd (parse_manual s d u)) = u_text u" for u
    by (simp add: parse_manual_def Let_def case_prod_beta split: option.split)
  then have "u_text (snd (uri_parse lib s d u)) = u_text u" for u
    by (simp add: uri_parse_def split: option.split)
  from this [of "uri_default\<lparr>u_text := s\<rparr>"] show ?thesis
    by (simp add: uri_of_def case_prod_beta)
qed

text \<open>What the tool needs of a history, so that its text can be read back.\<close>

definition history_ok :: "str_map \<Rightarrow> bool" where
  "history_ok h \<longleftrightarrow> smap_ok h \<and> (\<forall>(k, v)\<in>set h. CHR ''='' \<notin> set k \<and> (\<forall>c\<in>set (k @ v). \<not> is_space c))"

lemma set_smap_put_subset: "set (smap_put k v m) \<subseteq> insert (k, v) (set m)"
  by (induction k v m rule: smap_put.induct) auto

lemma history_ok_put:
  assumes "history_ok h" and "CHR ''='' \<notin> set k" and "\<forall>c\<in>set (k @ v). \<not> is_space c"
  shows "history_ok (smap_put k v h)"
proof -
  have "smap_ok (smap_put k v h)" using assms(1) by (simp add: history_ok_def smap_put_ok)
  then show ?thesis
    using assms set_smap_put_subset [of k v h] unfolding history_ok_def by blast
qed

lemma find_method_name: "find_method (method_name m) method_names = Some m"
  by (cases m) (simp_all add: method_names_def)

lemma method_name_word: "\<forall>c\<in>set (method_name m). \<not> is_space c"
  by (cases m) (simp_all add: is_space_def code_def)

text \<open>
  After a run has saved its history over a file that is not longer than what it writes, the next
  run starts with the method and the URI of that run, and with the rest of the history as it was.
\<close>

lemma history_saved:
  assumes "history_ok h" and "j_uri j = uri_of lib u PROTOCOL" and "\<forall>c\<in>set u. \<not> is_space c"
    and "h1 = smap_put ''uri'' u (smap_put ''method'' (method_name (j_method j)) h)"
    and "length (config_open file) \<le> length (config_text h1)"
  shows "save_history j h file = Some (config_text h1)"
proof -
  have "u_text (j_uri j) = u" using assms(2) by (simp add: uri_text)
  with assms(5) show ?thesis
    by (simp add: save_history_def config_put_def config_save_def config_write_def assms(4) [symmetric])
qed

lemma history_restores:
  assumes "history_ok h" and "j_uri j = uri_of lib u PROTOCOL" and "\<forall>c\<in>set u. \<not> is_space c"
    and "h1 = smap_put ''uri'' u (smap_put ''method'' (method_name (j_method j)) h)"
    and "length (config_open file) \<le> length (config_text h1)"
  shows "load_history lib (save_history j h file) =
    (jester_default\<lparr>j_method := j_method j, j_uri := j_uri j\<rparr>, h1, Some (config_text h1))"
proof -
  have ok: "history_ok h1"
    using assms(1,3) method_name_word unfolding assms(4)
    by (intro history_ok_put) (auto simp: is_space_def code_def)
  have rd: "config_read (config_text h1) [] = h1"
    using ok by (intro config_read_text) (simp_all add: history_ok_def)
  have get: "smap_get h1 ''method'' = Some (method_name (j_method j))" "smap_get h1 ''uri'' = Some u"
    unfolding assms(4) by (simp_all add: sm.get_put_other)
  show ?thesis
    using assms(2) get unfolding history_saved [OF assms]
    by (simp add: load_history_def config_init_def config_open_def rd config_get_def smap_index_def
        set_method_def find_method_name set_uri_def)
qed

subsection \<open>The dialogue\<close>

text \<open>The phases are ordered as the dialogue goes through them.\<close>

fun phase :: "dialogue \<Rightarrow> nat" where
  "phase Get_method = 0"
| "phase Get_headers = 1"
| "phase Get_data = 2"
| "phase Finished = 3"

lemma phase_inject: "phase a = phase b \<longleftrightarrow> a = b"
  by (cases a; cases b) simp_all

instantiation dialogue :: linorder
begin

definition less_eq_dialogue :: "dialogue \<Rightarrow> dialogue \<Rightarrow> bool" where
  "less_eq_dialogue a b \<longleftrightarrow> phase a \<le> phase b"

definition less_dialogue :: "dialogue \<Rightarrow> dialogue \<Rightarrow> bool" where
  "less_dialogue a b \<longleftrightarrow> phase a < phase b"

instance
  by standard (auto simp: less_eq_dialogue_def less_dialogue_def phase_inject)

end

lemma reply_advances:
  assumes "reply st ls j = ((st', j'), said)"
  shows "st \<le> st' \<and> j_uri j' = j_uri j"
  using assms
  by (cases st)
    (auto simp: reply_def less_eq_dialogue_def set_method_def append_header_def append_data_def
      split: if_splits option.splits)

text \<open>
  The dialogue never goes back: through any number of turns the phase only advances, from the
  method to the headers to the data to the end, what is left of the input is a suffix of it, what
  was printed stays, and so does the URI that was given on the command line.
\<close>

theorem dialogue_only_advances:
  assumes "turn\<^sup>*\<^sup>* (st, j, (ls, printed)) (st', j', (ls', printed'))"
  shows "st \<le> st' \<and> suffix ls' ls \<and> prefix printed printed' \<and> j_uri j' = j_uri j"
  using assms
proof (induction "(st', j', (ls', printed'))" arbitrary: st' j' ls' printed' rule: rtranclp_induct)
  case base
  then show ?case by simp
next
  case (step y)
  obtain st1 j1 ls1 p1 where y: "y = (st1, j1, (ls1, p1))" by (metis surj_pair)
  from step(2) obtain said where "reply st1 ls1 j1 = ((st', j'), said)" "ls' = tl ls1" "printed' = p1 @ said"
    unfolding y by (auto simp: turn_simps)
  moreover from step(3) [OF y] have "suffix (tl ls1) ls" by (auto intro: suffix_order.trans [OF suffix_tl])
  ultimately show ?case using reply_advances step(3) [OF y] by (fastforce intro: order_trans)
qed

lemma dialogue_only_advances_witness:
  "Get_method \<le> Get_headers \<and> suffix [] [''POST''] \<and> prefix [] (puts ''HTTP Headers? (End with a ~)'') \<and>
    j_uri (jester_default\<lparr>j_method := POST\<rparr>) = j_uri jester_default"
proof -
  have "turn (Get_method, jester_default, ([''POST''], []))
      (Get_headers, jester_default\<lparr>j_method := POST\<rparr>, ([], puts ''HTTP Headers? (End with a ~)''))"
    by (simp add: turn_simps reply_def read_line_def set_method_def method_names_def)
  from dialogue_only_advances [OF r_into_rtranclp [where r = turn, OF this]] show ?thesis .
qed

lemma start_turn:
  "st \<noteq> Finished \<Longrightarrow> start_loop (Suc n) st ls j printed =
     (case reply st ls j of ((st', j'), said) \<Rightarrow> start_loop n st' (tl ls) j' (printed @ said))"
  by (cases st) simp_all

lemma start_reaches:
  "start_loop n st ls j printed = Some (j', printed') \<Longrightarrow>
    \<exists>ls'. turn\<^sup>*\<^sup>* (st, j, (ls, printed)) (Finished, j', (ls', printed'))"
proof (induction n arbitrary: st ls j printed)
  case 0
  then show ?case by (cases st) auto
next
  case (Suc n)
  show ?case
  proof (cases "st = Finished")
    case True
    with Suc.prems show ?thesis by auto
  next
    case False
    obtain st1 j1 said where a: "reply st ls j = ((st1, j1), said)" by (metis surj_pair)
    with False Suc.prems have "start_loop n st1 (tl ls) j1 (printed @ said) = Some (j', printed')"
      by (simp add: start_turn)
    from Suc.IH [OF this] obtain ls' where
      "turn\<^sup>*\<^sup>* (st1, j1, (tl ls, printed @ said)) (Finished, j', (ls', printed'))" ..
    with turn [OF False a] show ?thesis by (blast intro: converse_rtranclp_into_rtranclp)
  qed
qed

lemma reaches_start:
  "turn\<^sup>*\<^sup>* (st, j, (ls, printed)) (Finished, j', (ls', printed')) \<Longrightarrow>
    \<exists>n. start_loop n st ls j printed = Some (j', printed')"
proof (induction "(st, j, (ls, printed))" arbitrary: st j ls printed rule: converse_rtranclp_induct)
  case base
  then show ?case by auto
next
  case (step z)
  obtain st1 j1 ls1 p1 where z: "z = (st1, j1, (ls1, p1))" by (metis surj_pair)
  from step(3) [OF z] obtain n where "start_loop n st1 ls1 j1 p1 = Some (j', printed')" ..
  with step(1) have "start_loop (Suc n) st ls j printed = Some (j', printed')"
    unfolding z by (auto simp: turn_simps start_turn)
  then show ?case ..
qed

text \<open>
  The loop is the closure of its turns: for every phase, script and request, the executable
  loop ends with a result for some number of turns exactly when the step relation can reach the
  end of the dialogue with that result and that output.
\<close>

theorem start_iff_turns:
  "(\<exists>n. start_loop n st ls j printed = Some (j', printed')) =
   (\<exists>ls'. turn\<^sup>*\<^sup>* (st, j, (ls, printed)) (Finished, j', (ls', printed')))"
  by (blast intro: reaches_start dest: start_reaches)

text \<open>
  The dialogue over a whole script. A line without its delimiter is answered by a complaint, and
  leaves the request as it was.
\<close>

definition complaint :: "string \<Rightarrow> string \<Rightarrow> string \<Rightarrow> string" where
  "complaint delimiter msg l = (if split_arg l delimiter = None then puts msg else [])"

abbreviation bad_header :: "string \<Rightarrow> string" where
  "bad_header \<equiv> complaint '':'' ''invalid header format (key: value).  Try again.''"

abbreviation bad_data :: "string \<Rightarrow> string" where
  "bad_data \<equiv> complaint ''='' ''Invalid data format (key=value). Try again.''"

definition take_lines :: "string \<Rightarrow> (string \<times> string \<Rightarrow> jester \<Rightarrow> jester) \<Rightarrow> string list \<Rightarrow> jester \<Rightarrow> jester" where
  "take_lines delimiter put ls = fold (\<lambda>l j. case split_arg l delimiter of None \<Rightarrow> j | Some kv \<Rightarrow> put kv j) ls"

lemma answer_headers:
  assumes "''~'' \<notin> set hs"
  shows "start_loop (length hs + n) Get_headers (hs @ ls) j printed =
    start_loop n Get_headers ls (take_lines '':'' append_header hs j) (printed @ concat (map bad_header hs))"
  using assms
  by (induction hs arbitrary: j printed)
    (auto simp: read_line_def reply_def complaint_def take_lines_def split: option.split)

lemma answer_data:
  assumes "''~'' \<notin> set ds"
  shows "start_loop (length ds + n) Get_data (ds @ ls) j printed =
    start_loop n Get_data ls (take_lines ''='' append_data ds j) (printed @ concat (map bad_data ds))"
  using assms
  by (induction ds arbitrary: j printed)
    (auto simp: read_line_def reply_def complaint_def take_lines_def split: option.split)

text \<open>
  C30: the dialogue ends on every complete script, collects what was typed and prints what it should:
  after an accepted or empty method, header lines up to a tilde and data lines up to a tilde, it
  stops in as many turns as there are lines, having stored every well-formed line in order and
  skipped the rest; each question was asked once, with a complaint for each malformed line.
\<close>

theorem dialogue_completes:
  assumes "''~'' \<notin> set hs" and "''~'' \<notin> set ds" and "answer Get_method m j = ((True, []), (Get_headers, j1))"
  shows "start (length hs + length ds + 3) (m # hs @ ''~'' # ds @ ''~'' # rest) j =
    Some (take_lines ''='' append_data ds (take_lines '':'' append_header hs j1),
      ask_question Get_method j @ ask_question Get_headers j @ concat (map bad_header hs) @
      ask_question Get_data j @ concat (map bad_data ds))"
proof -
  let ?j2 = "take_lines '':'' append_header hs j1"
  let ?p = "ask_question Get_method j @ ask_question Get_headers j"
  have "start (length hs + length ds + 3) (m # hs @ ''~'' # ds @ ''~'' # rest) j =
      start_loop (length hs + Suc (length ds + 1)) Get_headers (hs @ ''~'' # ds @ ''~'' # rest) j1 ?p"
    using assms(3) by (simp add: start_def first_question_def reply_def read_line_def numeral_3_eq_3 del: answer.simps)
  also have "\<dots> = start_loop (length ds + 1) Get_data (ds @ ''~'' # rest) ?j2
      (?p @ concat (map bad_header hs) @ ask_question Get_data j)"
    unfolding answer_headers [OF assms(1)] by (simp add: read_line_def reply_def)
  finally show ?thesis
    unfolding answer_data [OF assms(2)] by (simp add: read_line_def reply_def)
qed

lemma dialogue_completes_witness:
  "start 6 [''POST'', ''A:b'', ''~'', ''x'', ''x=1'', ''~''] jester_default =
     Some (jester_default\<lparr>j_method := POST, j_headers := [(''A'', ''b'')], j_data := [(''x'', ''1'')]\<rparr>,
       puts ''HTTP Method?'' @ ''(Default GET, Current GET) '' @ puts ''HTTP Headers? (End with a ~)'' @
       puts ''HTTP Data? (End with a ~)'' @ puts ''Invalid data format (key=value). Try again.'')"
proof -
  have m: "answer Get_method ''POST'' jester_default = ((True, []), (Get_headers, jester_default\<lparr>j_method := POST\<rparr>))"
    by (simp add: set_method_def method_names_def)
  have s: "split_arg ''A:b'' '':'' = Some (''A'', ''b'')" "split_arg ''x=1'' ''='' = Some (''x'', ''1'')"
    "split_arg ''x'' ''='' = None"
    using split_arg_run [of "''A''" "CHR '':''" "''b''"] split_arg_run [of "''x''" "CHR ''=''" "''1''"]
    by (simp_all add: split_arg_def str_find_def)
  from dialogue_completes [of "[''A:b'']" "[''x'', ''x=1'']", OF _ _ m, of "[]"] s show ?thesis
    by (simp add: append_header_def append_data_def jester_default_def take_lines_def complaint_def)
qed

text \<open>
  Without its tildes the dialogue never ends: when the input runs out before the line that
  ends the headers, the loop goes on reading empty answers for ever.
\<close>

theorem dialogue_hangs_at_eof:
  assumes "turn\<^sup>*\<^sup>* (Get_method, j, (ls, printed)) (st, j', (ls', printed'))" and "''~'' \<notin> set ls"
  shows "st \<noteq> Finished \<and> (\<exists>s. turn (st, j', (ls', printed')) s)"
proof -
  have "st \<in> {Get_method, Get_headers} \<and> set ls' \<subseteq> set ls"
    using assms(1)
  proof (induction "(st, j', (ls', printed'))" arbitrary: st j' ls' printed' rule: rtranclp_induct)
    case base
    then show ?case by simp
  next
    case (step y)
    obtain st1 j1 ls1 p1 where y: "y = (st1, j1, (ls1, p1))" by (metis surj_pair)
    have inv: "st1 \<in> {Get_method, Get_headers}" "set ls1 \<subseteq> set ls" using step(3) [OF y] by auto
    have "read_line ls1 \<noteq> ''~''"
      using inv(2) assms(2) by (cases ls1) (auto simp: read_line_def)
    moreover have "set (tl ls1) \<subseteq> set ls1" by (cases ls1) auto
    ultimately show ?case
      using step(2) inv unfolding y by (auto simp: reply_def elim!: turnE split: if_splits prod.splits option.splits)
  qed
  then obtain st2 j2 said where "st \<noteq> Finished" "reply st ls' j' = ((st2, j2), said)" by (metis empty_iff insertE dialogue.distinct(5,9) surj_pair)
  then show ?thesis using turn by blast
qed

lemma dialogue_hangs_at_eof_witness:
  "\<exists>s. turn (Get_headers, jester_default, ([], ask_question Get_headers jester_default)) s"
proof -
  have "turn\<^sup>*\<^sup>* (Get_method, jester_default, ([], []))
      (Get_headers, jester_default, ([], ask_question Get_headers jester_default))"
    by (rule r_into_rtranclp) (simp add: turn_simps reply_def read_line_def)
  from dialogue_hangs_at_eof [OF this] show ?thesis by simp
qed

subsection \<open>A run of the tool\<close>

text \<open>The folder of the history exists, or could be made.\<close>

definition folder_ok :: "crest_env \<Rightarrow> bool" where
  "folder_ok env \<longleftrightarrow> (case get_config_folder (env_home env) of Inl _ \<Rightarrow> False | Inr dir \<Rightarrow>
     fst (env_mkdir env dir) \<noteq> -1 \<or> snd (env_mkdir env dir) = EEXIST)"

lemma parse_options_silent: "parse_options lib bin os j = ((True, said), j') \<Longrightarrow> said = []"
  by (induction lib bin os j rule: parse_options.induct) (auto split: if_splits option.splits prod.splits)

lemma crest_main_request:
  assumes "folder_ok env" and "load_history lib file = (j0, history, file1)"
    and "parse_options lib (env_bin env) options j0 = ((True, said), j)" and "\<not> j_interactive j" and "u_valid (j_uri j)"
  shows "crest_main lib archive_out impl env options operand fuel inputs file w =
    crest_request archive_out impl j (case operand of None \<Rightarrow> [] | Some p \<Rightarrow> p) [] (save_history j history file1) w"
  using assms parse_options_silent [OF assms(3)]
  by (auto simp: crest_main_def folder_ok_def validate_def get_config_folder_def split: option.splits prod.splits)

text \<open>
  the exit status of the tool is inverted: a run that gets as far as a response prints it, and
  exits with 1, failure, when the status is 200, and with 0, success, for every other one.
\<close>

theorem crest_exit_inverted:
  assumes "folder_ok env" and "parse_options lib (env_bin env) options (fst (load_history lib file)) = ((True, said), j)"
    and "\<not> j_interactive j" and "u_valid (j_uri j)"
    and "execute archive_out impl j (case operand of None \<Rightarrow> [] | Some p \<Rightarrow> p) w = (Inr r, w')"
  shows "\<exists>file'. crest_main lib archive_out impl env options operand fuel inputs file w =
    (Inr (if r_code r = 200 then 1 else 0),
     (''Response:'' @ [CHR 0x0A] @ content r @ [CHR 0x0A] @ ''Debug:'' @ [CHR 0x0A] @ r_value r @ [CHR 0x0A], []), file', w')"
proof -
  obtain history file1 where "load_history lib file = (fst (load_history lib file), history, file1)" by (metis prod.collapse)
  note run = crest_main_request [OF assms(1) this assms(2-4)]
  show ?thesis
    unfolding run crest_request_def assms(5) by (simp add: exit_status_def OK_def show_response_def puts_def)
qed

definition plain_env :: crest_env where
  "plain_env = \<lparr>env_home = Some ''/root'', env_mkdir = \<lambda>_. (-1, EEXIST), env_strerror = \<lambda>_. [], env_bin = ''crest''\<rparr>"

lemma plain_env_ok: "folder_ok plain_env"
  by (simp add: folder_ok_def plain_env_def get_config_folder_def)

text \<open>
  C29: the tool repeats its last request, but not its headers and body: let a run that finds its
  folder, accepts its options, and is not interactive have a valid URI that was given as a text
  without white space, over a well-formed history without white space in it, with a new history text
  not shorter than the file it is written over (which is not truncated). Whatever becomes of its
  request, a later run without options makes the request with the same method to the same URI, with
  the path of its own operand, and no header, parameter or body of the first one, and leaves
  the history file as the first one left it.
\<close>

theorem crest_repeats_request:
  assumes "folder_ok env" and "load_history lib file = (j0, h, file0)"
    and "parse_options lib (env_bin env) options j0 = ((True, said), j)" and "\<not> j_interactive j" and "u_valid (j_uri j)"
    and "j_uri j = uri_of lib u PROTOCOL" and "\<forall>c\<in>set u. \<not> is_space c" and "history_ok h"
    and "length (config_open file0) \<le> length (config_text (smap_put ''uri'' u (smap_put ''method'' (method_name (j_method j)) h)))"
    and "crest_main lib archive_out impl env options operand fuel inputs file w = (status, printed, file', w')"
  shows "crest_main lib archive_out impl2 env [] operand2 fuel2 inputs2 file' w2 =
    crest_request archive_out impl2 (jester_default\<lparr>j_method := j_method j, j_uri := j_uri j\<rparr>)
      (case operand2 of None \<Rightarrow> [] | Some p \<Rightarrow> p) [] file' w2"
proof -
  let ?h1 = "smap_put ''uri'' u (smap_put ''method'' (method_name (j_method j)) h)"
  let ?j = "jester_default\<lparr>j_method := j_method j, j_uri := j_uri j\<rparr>"
  have file': "file' = save_history j h file0"
    using assms(10) unfolding crest_main_request [OF assms(1-5)]
    by (auto simp: crest_request_def split: prod.splits sum.splits exn.splits)
  have hist: "load_history lib file' = (?j, ?h1, Some (config_text ?h1))"
    unfolding file' using history_restores [OF assms(8,6,7) refl assms(9)] .
  have "file' = Some (config_text ?h1)"
    unfolding file' using history_saved [OF assms(8,6,7) refl assms(9)] .
  moreover have "smap_put ''uri'' u (smap_put ''method'' (method_name (j_method j)) ?h1) = ?h1"
    using assms(8) by (intro smap_ext) (auto simp: history_ok_def smap_put_ok sm.get_put)
  then have "save_history ?j ?h1 (Some (config_text ?h1)) = Some (config_text ?h1)"
    using assms(6) by (simp add: save_history_def config_put_def config_save_def config_write_def config_open_def uri_text)
  moreover have "parse_options lib (env_bin env) [] ?j = ((True, []), ?j)" by simp
  from crest_main_request [OF assms(1) hist this] assms(5)
  have "crest_main lib archive_out impl2 env [] operand2 fuel2 inputs2 file' w2 =
      crest_request archive_out impl2 ?j (case operand2 of None \<Rightarrow> [] | Some p \<Rightarrow> p) []
        (save_history ?j ?h1 (Some (config_text ?h1))) w2"
    by (simp add: jester_default_def)
  ultimately show ?thesis by simp
qed

text \<open>The first run of all finds no file.\<close>

lemma first_history: "load_history None None = (set_uri None [] jester_default, [(''method'', []), (''uri'', [])], Some [])"
  by (simp add: load_history_def config_init_def config_open_def config_read_def entries.simps scan_word_def
      config_get_def smap_index_def smap_get_def smap_insert_range_def less_char_def set_method_def method_names_def)

lemma crest_repeats_request_witness:
  "\<exists>status printed w'. crest_main None (\<lambda>_. []) (Some canned) plain_env [Opt_method ''POST'', Opt_uri ''http://h/''] None 0 [] None world0 =
      (status, printed, Some (config_text [(''method'', ''POST''), (''uri'', ''http://h/'')]), w') \<and>
    crest_main None (\<lambda>_. []) None plain_env [] None 0 [] (Some (config_text [(''method'', ''POST''), (''uri'', ''http://h/'')])) world0 =
      crest_request (\<lambda>_. []) None (jester_default\<lparr>j_method := POST, j_uri := uri_of None ''http://h/'' PROTOCOL\<rparr>) [] []
        (Some (config_text [(''method'', ''POST''), (''uri'', ''http://h/'')])) world0"
proof -
  let ?first = "set_uri None [] jester_default" and ?h = "[(''method'', []), (''uri'', [])] :: str_map"
  let ?j = "set_uri None ''http://h/'' (?first\<lparr>j_method := POST\<rparr>)"
  let ?h1 = "[(''method'', ''POST''), (''uri'', ''http://h/'')] :: str_map"
  note l = first_history
  have p: "parse_options None (env_bin plain_env) [Opt_method ''POST'', Opt_uri ''http://h/''] ?first = ((True, []), ?j)"
    by (simp add: set_method_def method_names_def)
  have i: "\<not> j_interactive ?j" by (simp add: set_uri_def jester_default_def)
  have v: "u_valid (j_uri ?j)" by (simp add: set_uri_def uri_valid_manual PROTOCOL_def)
  have u: "j_uri ?j = uri_of None ''http://h/'' PROTOCOL" by (simp add: set_uri_def)
  have sp: "\<forall>c\<in>set ''http://h/''. \<not> is_space c" by (simp add: is_space_def code_def)
  have h: "history_ok ?h" by (simp add: history_ok_def smap_ok_def is_space_def code_def less_char_def)
  have h1: "smap_put ''uri'' ''http://h/'' (smap_put ''method'' (method_name (j_method ?j)) ?h) = ?h1"
    by (simp add: set_uri_def less_char_def)
  have len: "length (config_open (Some [])) \<le>
      length (config_text (smap_put ''uri'' ''http://h/'' (smap_put ''method'' (method_name (j_method ?j)) ?h)))"
    by (simp add: config_open_def)
  obtain status printed file' w' where run: "crest_main None (\<lambda>_. []) (Some canned) plain_env
      [Opt_method ''POST'', Opt_uri ''http://h/''] None 0 [] None world0 = (status, printed, file', w')"
    by (metis surj_pair)
  have "file' = save_history ?j ?h (Some [])"
    using run unfolding crest_main_request [OF plain_env_ok l p i v]
    by (auto simp: crest_request_def split: prod.splits sum.splits exn.splits)
  then have "file' = Some (config_text ?h1)"
    using history_saved [OF h u sp refl len] h1 by simp
  with run crest_repeats_request [OF plain_env_ok l p i v u sp h len run, of None None 0 "[]" world0] show ?thesis
    by (simp add: set_uri_def)
qed

end
