(* ===== verification/Http_Session.thy ===== *)
theory Http_Session
  imports Http_Socket Buffered_Session
begin

section \<open>What an HTTP client relies on, and what it keeps\<close>

text \<open>
  The interface between the client and its transport: the transport leaves the client as it is
  and the descriptors of the process too, whatever happens on the way. The transport on a socket
  is an instance, for every kernel and peer. From the interface: whatever the program does with a
  client, its header maps stay well-formed, its URI stays, and no descriptor is lost.
\<close>

subsection \<open>The transport on a socket\<close>

lemma keeps_owns_lines [hoare_rules]:
  "keeps (owns B) (buf_writeln l)" "keeps (owns B) buf_newline" "keeps (owns B) (buf_write l)"
  by (auto simp: buf_writeln_def buf_newline_def buf_write_def intro!: hoare_rules)

lemma http_body_keeps: "keeps (owns B) (http_body pf fuel c m path)"
  unfolding http_body_def http_connect_def http_compose_def http_exchange_def
  by (auto intro!: hoare_rules keeps_piter idle.connect_keeps idle.write_from_buffer_keeps idle.read_to_buffer_keeps
      split: sum.split)

lemma buffered_default_owns: "owns (open_fds (trace w)) (buffered_default, w)"
  by (simp add: owns_def is_valid_def buffered_default_def socket_default_def socket.defs)

lemma http_socket_request_client: "fst (snd (http_socket_request pf fuel m path (c, w))) = c"
  by (simp add: http_socket_request_def split: prod.split)

lemma http_socket_request_fds:
  "open_fds (trace (snd (snd (http_socket_request pf fuel m path (c, w))))) = open_fds (trace w)"
proof -
  obtain r sw where b: "http_body pf fuel c m path (buffered_default, w) = (r, sw)"
    by (cases "http_body pf fuel c m path (buffered_default, w)")
  with keeps_snd [OF http_body_keeps buffered_default_owns [of w], of pf fuel c m path]
  have "owns (open_fds (trace w)) sw" by simp
  from destroy_releases [OF this, of pf] show ?thesis by (simp add: http_socket_request_def b)
qed

text \<open>
  C20: a request on a socket never leaks: whether it succeeds or fails at any point, in
  resolving, connecting, the handshake, sending or reading, and whatever the kernel and the peer
  answer, the process ends with the descriptors it had and the client is as it was.
\<close>

theorem http_socket_request_releases:
  "open_fds (trace (snd (snd (http_socket_request pf fuel m path (c, w))))) = open_fds (trace w) \<and>
   fst (snd (http_socket_request pf fuel m path (c, w))) = c"
  by (simp add: http_socket_request_fds http_socket_request_client)

subsection \<open>The interface\<close>

locale transport =
  fixes impl :: "'w http_impl"
  assumes impl_client: "fst (snd (impl m path (c, w))) = c"
    and impl_fds: "open_fds (trace (snd (snd (impl m path (c, w))))) = open_fds (trace w)"

interpretation on_socket: transport "http_socket_request pf fuel" for pf fuel
  by unfold_locales (rule http_socket_request_client http_socket_request_fds)+

subsection \<open>The client\<close>

definition client_ok :: "socket_fd multiset \<Rightarrow> uri \<Rightarrow> client \<times> 'w world_scheme \<Rightarrow> bool" where
  "client_ok B u = (\<lambda>(c, w). smap_ok (headers c) \<and> smap_ok (headers (c_response c)) \<and> c_uri c = u \<and>
     open_fds (trace w) = B)"

lemma parse_headers_ok: "smap_ok hs \<Longrightarrow> smap_ok (snd (parse_headers s pos line hs))"
proof (induction s pos line hs rule: parse_headers.induct)
  case (1 s pos line hs)
  show ?case
    using 1 by (subst parse_headers.simps) (auto simp: smap_put_ok split: option.split sum.split)
qed

lemma response_parse_value_ok:
  assumes "smap_ok (headers r)"
  shows "smap_ok (headers (snd (response_parse_value r)))"
  using parse_headers_ok [OF assms] assms
  by (auto simp: response_parse_value_def Let_def split: option.split sum.split prod.split)
    (metis snd_conv)+

lemma response_parse_ok: "smap_ok (headers (snd (response_parse s r)))"
  unfolding response_parse_def
  by (simp add: prog_simps response_parse_value_ok response_clear_def sm.ok_empty)

lemma client_fields [simp]:
  "headers (c\<lparr>c_response := r\<rparr>) = headers c" "headers (c\<lparr>c_timeout := n\<rparr>) = headers c"
  "c_response (c\<lparr>headers := hs\<rparr>) = c_response c" "c_response (c\<lparr>content := s\<rparr>) = c_response c"
  "c_uri (c\<lparr>headers := hs\<rparr>) = c_uri c" "c_uri (c\<lparr>content := s\<rparr>) = c_uri c"
  for c :: client
  by (cases c; simp)+

text \<open>What a program does with a client: its own operations, and requests.\<close>

datatype client_op =
    C_add string string
  | C_add_all str_map
  | C_remove string
  | C_header string
  | C_content string
  | C_timeout int
  | C_verb http_method
  | C_verb_at http_method string
  | C_request http_method string

definition on_client :: "(client \<Rightarrow> client) \<Rightarrow> (client \<times> 'w world_scheme, unit) prog" where
  "on_client f = upd f"

fun exec_client :: "'w http_impl \<Rightarrow> client_op \<Rightarrow> (client \<times> 'w world_scheme, unit) prog" where
  "exec_client impl (C_add k v) = on_client (add_header k v)"
| "exec_client impl (C_add_all kvs) = on_client (add_headers kvs)"
| "exec_client impl (C_remove k) = on_client (remove_header k)"
| "exec_client impl (C_header k) = on_client (\<lambda>c. snd (transfer_header k c))"
| "exec_client impl (C_content s) = on_client (set_content s)"
| "exec_client impl (C_timeout n) = on_client (set_timeout n)"
| "exec_client impl (C_verb m) = client_verb m (Some impl) None"
| "exec_client impl (C_verb_at m path) = client_verb_at m (Some impl) path None"
| "exec_client impl (C_request m path) = client_request (Some impl) m path None"

fun run_client ::
  "'w http_impl \<Rightarrow> client_op list \<Rightarrow> client \<times> 'w world_scheme \<Rightarrow> client \<times> 'w world_scheme" where
  "run_client impl [] cw = cw"
| "run_client impl (x # xs) cw = run_client impl xs (snd (exec_client impl x cw))"

lemma keeps_parse: "keeps (client_ok B u) (parse_into_response s)"
proof (rule keeps_pairI)
  fix c :: client and w :: "'w world_scheme"
  assume "client_ok B u (c, w)"
  with response_parse_ok [of s "c_response c"] show "client_ok B u (snd (parse_into_response s (c, w)))"
    by (auto simp: client_ok_def parse_into_response_def split: prod.split)
qed

lemma keeps_on_client:
  assumes "\<And>c. smap_ok (headers c) \<Longrightarrow> smap_ok (headers (f c))"
    and "\<And>c. c_response (f c) = c_response c" and "\<And>c. c_uri (f c) = c_uri c"
  shows "keeps (client_ok B u) (on_client f)"
  unfolding on_client_def by (rule keeps_upd) (simp add: client_ok_def assms)

context transport
begin

lemma keeps_impl: "keeps (client_ok B u) (impl m path)"
  by (rule keeps_pairI)
    (metis (no_types, lifting) client_ok_def case_prod_unfold impl_client impl_fds fst_conv snd_conv)

lemma keeps_request: "keeps (client_ok B u) (client_request (Some impl) m path None)"
  unfolding client_request_def by (auto intro!: hoare_rules keeps_impl keeps_parse)

lemma keeps_exec: "keeps (client_ok B u) (exec_client impl x)"
  by (cases x)
    (auto simp: client_verb_def client_verb_at_def add_header_def add_headers_def remove_header_def
      set_content_def set_timeout_def transfer_header_def smap_index_def smap_put_ok smap_erase_ok
      smap_insert_range_ok split: option.split intro!: hoare_rules keeps_request keeps_on_client)

lemma run_client_ok: "client_ok B u cw \<Longrightarrow> client_ok B u (run_client impl xs cw)"
proof (induction xs arbitrary: cw)
  case (Cons x xs)
  from keeps_snd [OF keeps_exec Cons.prems] show ?case by (simp add: Cons.IH)
qed simp

end

lemma client_of_uri_ok: "client_ok (open_fds (trace w)) u (client_of_uri u, w)"
  by (simp add: client_ok_def client_of_uri_def add_header_def transfer.defs transfer_default_def
      response_default_def smap_ok_def)

text \<open>
  Whatever a program does with a client over the socket transport, for every kernel and
  peer: the header maps of the client and of its response stay ordered and without duplicates,
  the URI stays the one it was created with, and the process holds no descriptor more or less.
\<close>

theorem client_session_well_formed:
  fixes w w' :: "'w world_scheme"
  assumes "run_client (http_socket_request pf fuel) ops (client_of_uri u, w) = (c, w')"
  shows "smap_ok (headers c) \<and> smap_ok (headers (c_response c)) \<and> c_uri c = u \<and>
    open_fds (trace w') = open_fds (trace w)"
  using on_socket.run_client_ok [OF client_of_uri_ok [of w u], of pf fuel ops] assms
  by (simp add: client_ok_def)

lemma client_session_well_formed_witness:
  "\<exists>c w'. run_client (http_socket_request http_kernel 1) [C_add ''A'' ''b'', C_verb GET, C_remove ''A'']
      (client_of_uri (c_uri plain_client), world0) = (c, w') \<and>
    smap_ok (headers c) \<and> smap_ok (headers (c_response c)) \<and> c_uri c = c_uri plain_client \<and>
    open_fds (trace w') = {#}"
proof -
  let ?ops = "[C_add ''A'' ''b'', C_verb GET, C_remove ''A'']"
  obtain c w' where r: "run_client (http_socket_request http_kernel 1) ?ops
      (client_of_uri (c_uri plain_client), world0) = (c, w')"
    by (cases "run_client (http_socket_request http_kernel 1) ?ops (client_of_uri (c_uri plain_client), world0)")
  from client_session_well_formed [OF r] r show ?thesis by (auto simp: world0_def)
qed

end
