(* ===== verification/Crest_Web.thy ===== *)
theory Crest_Web
  imports Crest_Facts Http_Session
begin

section \<open>Requests from end to end\<close>

text \<open>
  The parts put together: the client, its transport on a socket, and the parser of the response,
  and over them the command line tool with its history, its options and its output. The kernel
  and the peer are as in theory \<open>Http_Socket\<close>: the host resolves to an address that accepts, the
  request is taken whole, and the response arrives in one piece.
\<close>

lemma http_trace_effect:
  assumes "fd \<noteq> INVALID"
  shows "open_fds (tr @ http_trace host p fd a cr req d) = open_fds tr" and "wire fd (http_trace host p fd a cr req d) = req"
  using assms by (simp_all add: http_trace_def)

definition serves_page ::
  "platform \<Rightarrow> history \<Rightarrow> client \<Rightarrow> http_method \<Rightarrow> string \<Rightarrow> int \<Rightarrow> socket_fd \<Rightarrow> addrinfo \<Rightarrow> int \<Rightarrow> string \<Rightarrow> bool" where
  "serves_page pf tr c m path p fd a cr text \<longleftrightarrow> \<not> client_is_secure c \<and> request_port c = Inr p \<and>
     length (request_text c m path) < 2 ^ 31 \<and>
     serves_http pf tr (u_host (c_uri c)) p fd a cr (bytes_of (request_text c m path)) (bytes_of text)"

lemma socket_fetches:
  fixes w :: "'w world_scheme"
  assumes "u_valid (c_uri c)" and "serves_page pf (trace w) c m path p fd a cr (render_response v n reason kvs body)" and "0 < fuel"
    and "word_ok v" and "n < 2 ^ 31" and "reason_ok reason" and "\<forall>kv\<in>set kvs. header_ok kv"
  shows "\<exists>w'. client_request (Some (http_socket_request pf fuel)) m path callback (c, w) =
      (case callback of None \<Rightarrow> pret () | Some g \<Rightarrow> g ((c_response c)\<lparr>r_value := render_response v n reason kvs body, r_code := int n,
          version := v, headers := fold (\<lambda>(k, v). smap_put k v) kvs [], content := body\<rparr>))
        (c\<lparr>c_response := (c_response c)\<lparr>r_value := render_response v n reason kvs body, r_code := int n,
          version := v, headers := fold (\<lambda>(k, v). smap_put k v) kvs [], content := body\<rparr>\<rparr>, w') \<and>
    wire fd (trace w') = wire fd (trace w) @ bytes_of (request_text c m path) \<and> open_fds (trace w') = open_fds (trace w)"
proof -
  let ?t = "render_response v n reason kvs body"
  obtain w' where r: "http_socket_request pf fuel m path (c, w) = (Inr ?t, (c, w'))"
    "trace w' = trace w @ http_trace (u_host (c_uri c)) p fd a cr (bytes_of (request_text c m path)) (bytes_of ?t)"
    using http_socket_request_run [of c p m path fuel pf w fd a cr "bytes_of ?t"] assms(2,3)
    by (auto simp: serves_page_def)
  have "fd \<noteq> INVALID" using assms(2) by (simp add: serves_page_def serves_http_def Let_def)
  note eff = http_trace_effect [OF this]
  have p: "response_parse ?t (c_response c) = (Inr (), (c_response c)\<lparr>r_value := ?t, r_code := int n,
      version := v, headers := fold (\<lambda>(k, v). smap_put k v) kvs [], content := body\<rparr>)"
    using assms(4-7) by (rule response_parse_rendered)
  show ?thesis
    by (intro exI [of _ w'])
      (use assms(1) r p eff in \<open>auto simp: client_request_def prog_simps parse_into_response_def split: option.split\<close>)
qed

text \<open>
  C19: a client fetches over a socket what fits in one read: for a valid plain http URI with a port
  that can be read, a host that resolves to an address whose first entry accepts, a request of less
  than 2^31 bytes that the kernel takes whole, and a response that the first read returns completely,
  so at most 500 bytes, with a non-empty reason and in the form the parser reads, the peer receives
  exactly the text of the request, the callback gets the body, the status and the headers that the
  server has rendered, a later header of the same name replacing an earlier one, and the process
  holds the descriptors it held before. A longer or a split response is cut off by the code.
\<close>

theorem client_fetches:
  fixes w :: "'w world_scheme"
  assumes "u_valid (c_uri c)" and "serves_page pf (trace w) c m path p fd a cr (render_response v n reason kvs body)" and "0 < fuel"
    and "word_ok v" and "n < 2 ^ 31" and "reason_ok reason" and "\<forall>kv\<in>set kvs. header_ok kv"
  shows "\<exists>resp w'. client_request (Some (http_socket_request pf fuel)) m path (Some g) (c, w) = g resp (c\<lparr>c_response := resp\<rparr>, w') \<and>
    content resp = body \<and> r_code resp = int n \<and> (\<forall>k. smap_get (headers resp) k = map_of (rev kvs) k) \<and>
    wire fd (trace w') = wire fd (trace w) @ bytes_of (request_text c m path) \<and> open_fds (trace w') = open_fds (trace w)"
proof -
  let ?resp = "(c_response c)\<lparr>r_value := render_response v n reason kvs body, r_code := int n,
    version := v, headers := fold (\<lambda>(k, v). smap_put k v) kvs [], content := body\<rparr>"
  have "smap_get (headers ?resp) k = map_of (rev kvs) k" for k
    by (simp add: sm.get_fold_put sm.get_empty split: option.split)
  moreover have "content ?resp = body" "r_code ?resp = int n" by simp_all
  ultimately show ?thesis using socket_fetches [OF assms, of "Some g"] unfolding option.case by blast
qed

text \<open>The path is the operand of the command line.\<close>

abbreviation page_of :: "string option \<Rightarrow> string" where
  "page_of operand \<equiv> (case operand of None \<Rightarrow> [] | Some p \<Rightarrow> p)"

text \<open>
  C18: the tool from end to end: a run that finds or makes its folder, whose options are accepted, and
  that is not interactive and has a valid plain http URI, over a kernel and a server for which the
  host resolves and accepts, the request of less than 2^31 bytes is taken whole, and the response,
  with a non-empty reason and in the form the parser reads, arrives in one read of at most 500 bytes,
  sends the request of its options to the server of its URI, prints the body of the response and the
  whole response, saves the request in the history, and has closed the connection when it exits, with
  status 1 for a response 200, and 0 for any other.
\<close>

theorem crest_fetches:
  fixes w :: "'w world_scheme"
  assumes "folder_ok env" and "load_history lib file = (j0, h, file1)"
    and "parse_options lib (env_bin env) options j0 = ((True, said), j)" and "\<not> j_interactive j" and "u_valid (j_uri j)"
    and "serves_page pf (trace w) (jester_client archive_out j) (j_method j) (page_of operand) p fd a cr (render_response v n reason kvs body)"
    and "0 < fuel" and "word_ok v" and "n < 2 ^ 31" and "reason_ok reason" and "\<forall>kv\<in>set kvs. header_ok kv"
  shows "\<exists>w'. crest_main lib archive_out (Some (http_socket_request pf fuel)) env options operand lines inputs file w =
      (Inr (if n = 200 then 1 else 0),
       (puts ''Response:'' @ puts body @ puts ''Debug:'' @ puts (render_response v n reason kvs body), []),
       save_history j h file1, w') \<and>
    wire fd (trace w') = wire fd (trace w) @ bytes_of (request_text (jester_client archive_out j) (j_method j) (page_of operand)) \<and>
    open_fds (trace w') = open_fds (trace w)"
proof -
  let ?c = "jester_client archive_out j"
  have "c_uri ?c = j_uri j"
    by (simp add: jester_client_def Let_def set_content_def add_headers_def client_of_uri_def add_header_def transfer.defs)
  then have "u_valid (c_uri ?c)" using assms(5) by simp
  from socket_fetches [OF this assms(6-11), of None]
  obtain w' resp where r: "execute archive_out (Some (http_socket_request pf fuel)) j (page_of operand) w = (Inr resp, w')"
    "r_code resp = int n" "content resp = body" "r_value resp = render_response v n reason kvs body"
    and eff: "wire fd (trace w') = wire fd (trace w) @ bytes_of (request_text ?c (j_method j) (page_of operand))"
    "open_fds (trace w') = open_fds (trace w)"
    by (auto simp: execute_def prog_simps)
  show ?thesis
    unfolding crest_main_request [OF assms(1-5)] crest_request_def r(1)
    by (intro exI [of _ w']) (use r(2-4) eff in \<open>simp add: exit_status_def OK_def show_response_def\<close>)
qed

subsection \<open>A page\<close>

abbreviation page_text :: string where
  "page_text \<equiv> render_response ''1.1'' 200 ''OK'' [(''A'', ''b'')] ''hello''"

definition page_kernel :: platform where
  "page_kernel = granting\<lparr>os_recv := \<lambda>_ _ _ _. (int (length (bytes_of page_text)), bytes_of page_text)\<rparr>"

lemma page_ok: "word_ok ''1.1''" "(200 :: nat) < 2 ^ 31" "reason_ok ''OK''" "\<forall>kv\<in>set [(''A'', ''b'')]. header_ok kv"
  by (simp_all add: word_ok_def reason_ok_def header_ok_def MAX_URL_LEN_def is_space_def code_def NUL_def)

lemma page_served:
  assumes "\<not> client_is_secure c" and "request_port c = Inr 80" and "length (request_text c m path) < 2 ^ 31"
  shows "serves_page page_kernel tr c m path 80 7 local_info 0 page_text"
proof -
  have "length (bytes_of page_text) \<le> 500"
    by (simp add: render_response_def status_line_def header_lines_def header_line_def CRLF_def dec_nat.simps)
  moreover have "bytes_of page_text \<noteq> []" by (simp add: render_response_def status_line_def)
  ultimately show ?thesis
    using assms by (simp add: serves_page_def serves_http_def page_kernel_def granting_def INVALID_def MAXRECV_def)
qed

lemma client_fetches_witness:
  "\<exists>resp w'. client_request (Some (http_socket_request page_kernel 1)) GET ''x'' (Some (\<lambda>_. pret ())) (plain_client, world0) =
      (Inr (), (plain_client\<lparr>c_response := resp\<rparr>, w')) \<and> content resp = ''hello'' \<and> open_fds (trace w') = {#}"
proof -
  have c: "\<not> client_is_secure plain_client" "request_port plain_client = Inr 80" "u_valid (c_uri plain_client)"
    by (simp_all add: plain_client_def client_of_uri_def add_header_def transfer.defs client_is_secure_def
        request_port_def uri_default_def DEFAULT_PORT_def SECURE_PROTOCOL_def)
  have l: "length (request_text plain_client GET ''x'') < 2 ^ 31" by (simp add: request_text_defs)
  from client_fetches [where fuel = 1 and w = world0 and g = "\<lambda>_. pret ()", OF c(3) page_served [OF c(1,2) l] _ page_ok]
  show ?thesis by (auto simp: prog_simps world0_def)
qed

definition first_jester :: jester where
  "first_jester = set_uri None ''http://h/'' (set_uri None [] jester_default)"

lemma first_uri:
  "uri_of None ''http://h/'' PROTOCOL = \<lparr>u_text = ''http://h/'', u_valid = True, u_scheme = ''http'', u_user = [],
    u_password = [], u_host = ''h'', u_port = [], u_path = [], u_query = [], u_fragment = []\<rparr>"
  by code_simp

lemma first_client: "jester_client (\<lambda>_. []) first_jester = client_of_uri (uri_of None ''http://h/'' PROTOCOL)"
proof -
  have "c\<lparr>headers := headers c\<rparr> = c" for c :: client by simp
  then show ?thesis
    by (simp add: first_jester_def set_uri_def jester_default_def jester_client_def add_headers_def smap_insert_range_def)
qed

lemma first_jester_ok:
  "\<not> j_interactive first_jester" "u_valid (j_uri first_jester)" "j_method first_jester = GET"
  "\<not> client_is_secure (jester_client (\<lambda>_. []) first_jester)" "request_port (jester_client (\<lambda>_. []) first_jester) = Inr 80"
  "length (request_text (jester_client (\<lambda>_. []) first_jester) GET ''x'') < 2 ^ 31"
  unfolding first_client first_uri
  by (simp_all add: first_jester_def set_uri_def jester_default_def uri_valid_manual PROTOCOL_def client_is_secure_def
      request_port_def DEFAULT_PORT_def SECURE_PROTOCOL_def request_text_defs)

lemma crest_fetches_witness:
  "\<exists>w'. crest_main None (\<lambda>_. []) (Some (http_socket_request page_kernel 1)) plain_env [Opt_uri ''http://h/''] (Some ''x'') 0 [] None world0 =
      (Inr 1, (puts ''Response:'' @ puts ''hello'' @ puts ''Debug:'' @ puts page_text, []),
        save_history first_jester [(''method'', []), (''uri'', [])] (Some []), w') \<and> open_fds (trace w') = {#}"
proof -
  note j = first_jester_ok
  have p: "parse_options None (env_bin plain_env) [Opt_uri ''http://h/''] (set_uri None [] jester_default) = ((True, []), first_jester)"
    by (simp add: first_jester_def)
  have s: "serves_page page_kernel (trace world0) (jester_client (\<lambda>_. []) first_jester) (j_method first_jester) (page_of (Some ''x''))
      80 7 local_info 0 page_text"
    using page_served [OF j(4-6)] j(3) by simp
  from crest_fetches [where fuel = 1 and lines = 0 and inputs = "[]", OF plain_env_ok first_history p j(1,2) s _ page_ok]
  show ?thesis by (auto simp: world0_def)
qed

end
