(* ===== verification/Server.thy ===== *)
theory Server
  imports Buffered_Session Std_Map "HOL-Library.Option_ord"
begin

section \<open>The server base class and the socket factory (\<open>socket_server.h\<close>, \<open>socket_server.cpp\<close>,
  \<open>socket_factory.cpp\<close>)\<close>

text \<open>
  \<open>socket_server\<close> is a socket with a factory, a set of listeners and perhaps a thread. The
  connections are objects behind shared pointers: the world of a server process also has a
  heap of buffered sockets and the map from descriptors to connections that the synchronous
  server keeps. An object that no pointer refers to any more is destroyed, which closes its
  socket. Here every operation runs in one thread; theory \<open>Background\<close> lets two threads interleave.
\<close>

type_synonym conn_id = nat

record net = world +
  conns :: "(socket_fd, conn_id) smap"
  heap :: "(conn_id, buffered) smap"
  next_id :: conn_id

record server = socket +
  factory :: "nat option"
  s_listeners :: "(nat option, unit) smap"
  background :: bool

text \<open>
  A factory is an object behind a shared pointer, here its number; 0 is the default factory.
\<close>

abbreviation has_factory :: "'a server_scheme \<Rightarrow> bool" where
  "has_factory s \<equiv> factory s \<noteq> None"

type_synonym ('a, 'w, 'b) srv_prog = "('a server_scheme \<times> 'w net_scheme, 'b) prog"

datatype server_event = On_start | On_stop | On_poll

text \<open>
  What derived classes, listeners and factories contribute: the hooks, the listeners by
  number, the object a factory makes for an accepted descriptor, and the functions and
  listeners of a connection.
\<close>

record ('a, 'w) server_vtable =
  sv_hook :: "server_event \<Rightarrow> ('a, 'w, unit) srv_prog"
  sv_listener :: "nat \<Rightarrow> server_event \<Rightarrow> ('a, 'w, unit) srv_prog"
  sv_create :: "nat \<Rightarrow> socket_fd \<Rightarrow> sockaddr \<Rightarrow> ('a, 'w, buffered) srv_prog"
  sv_conn :: "(unit, \<lparr>conns :: (socket_fd, conn_id) smap, heap :: (conn_id, buffered) smap, next_id :: conn_id, \<dots> :: 'w\<rparr>) vtable"

definition server_default :: server where
  "server_default = socket.extend socket_default \<lparr>factory = Some 0, s_listeners = [], background = False\<rparr>"

definition server_valid :: "'a server_scheme \<Rightarrow> bool" where
  "server_valid s \<longleftrightarrow> is_valid s \<and> has_factory s"

definition server_eq :: "'a server_scheme \<Rightarrow> 'b server_scheme \<Rightarrow> bool" where
  "server_eq a b \<longleftrightarrow> server_valid a \<and> server_valid b \<and> socket_port a = socket_port b"

definition add_server_listener :: "nat option \<Rightarrow> ('a, 'w, unit) srv_prog" where
  "add_server_listener l = upd (\<lambda>s. s\<lparr>s_listeners := smap_insert l () (s_listeners s)\<rparr>)"

definition set_socket_factory :: "nat option \<Rightarrow> ('a, 'w, unit) srv_prog" where
  "set_socket_factory f = upd (\<lambda>s. s\<lparr>factory := f\<rparr>)"

text \<open>The hook, then every listener; a null listener is called through a null pointer.\<close>

definition server_notify :: "('a, 'w) server_vtable \<Rightarrow> server_event \<Rightarrow> ('a, 'w, unit) srv_prog" where
  "server_notify vt ev =
     pthen (sv_hook vt ev)
       (pbind (obj s_listeners) (\<lambda>ls.
          piter (\<lambda>(l, _). case l of None \<Rightarrow> praise Undefined_behaviour | Some i \<Rightarrow> sv_listener vt i ev) ls))"

definition server_stop :: "platform \<Rightarrow> ('a, 'w) server_vtable \<Rightarrow> ('a, 'w, unit) srv_prog" where
  "server_stop pf vt =
     pthen (pbind (obj server_valid) (\<lambda>v. if v then server_notify vt On_stop else pret ()))
    (pthen (socket_close pf)
       (upd (\<lambda>s. s\<lparr>background := False\<rparr>)))"

definition server_listen ::
  "platform \<Rightarrow> ('a, 'w) server_vtable \<Rightarrow> int \<Rightarrow> int \<Rightarrow> ('a, 'w, bool) srv_prog" where
  "server_listen pf vt port backlog =
     pbind (socket_listen pf port backlog) (\<lambda>success.
     pthen (if success then server_notify vt On_start else pret ()) (pret success))"

text \<open>\<open>start\<close> and \<open>start_in_background\<close> call the virtual \<open>listen\<close> and \<open>run\<close>.\<close>

definition server_start ::
  "(int \<Rightarrow> int \<Rightarrow> ('a, 'w, bool) srv_prog) \<Rightarrow> ('a, 'w, unit) srv_prog \<Rightarrow> int \<Rightarrow> int \<Rightarrow> ('a, 'w, unit) srv_prog"
where
  "server_start vlisten vrun port backlog =
     pbind (obj server_valid) (\<lambda>v.
     if v then praise (Socket_exception ''server already started'')
     else
       pbind (vlisten port backlog) (\<lambda>ok.
       if \<not> ok then praise (Socket_exception ''unable to listen on port'') else vrun))"

definition server_start_in_background ::
  "(int \<Rightarrow> int \<Rightarrow> ('a, 'w, bool) srv_prog) \<Rightarrow> int \<Rightarrow> int \<Rightarrow> ('a, 'w, unit) srv_prog" where
  "server_start_in_background vlisten port backlog =
     pbind (obj server_valid) (\<lambda>v.
     if v then praise (Socket_exception ''server already started'')
     else
       pbind (vlisten port backlog) (\<lambda>ok.
       if \<not> ok then praise (Socket_exception ''unable to listen on port'')
       else
         pbind (obj background) (\<lambda>b.
         if b then praise Aborted else upd (\<lambda>s. s\<lparr>background := True\<rparr>))))"

text \<open>
  Moves leave \<open>other\<close> without descriptor, factory and thread. Dropping a thread that nobody has
  joined ends the process, in \<open>start_in_background\<close> too.
\<close>

definition server_move :: "'a server_scheme \<Rightarrow> server \<times> 'a server_scheme" where
  "server_move other =
     (case socket_move other of (base, other') \<Rightarrow>
        (socket.extend base \<lparr>factory = factory other, s_listeners = s_listeners other,
           background = background other\<rparr>,
         other'\<lparr>raw_sock := INVALID, factory := None, s_listeners := [], background := False\<rparr>))"

definition server_move_assign ::
  "platform \<Rightarrow> 'b server_scheme \<Rightarrow> ('a, 'w, 'b server_scheme) srv_prog" where
  "server_move_assign pf other =
     pbind (socket_move_assign pf (socket_close pf) other) (\<lambda>other'.
     pbind (obj background) (\<lambda>b.
     if b then praise Aborted
     else pthen (upd (\<lambda>s. s\<lparr>factory := factory other, background := background other,
                      s_listeners := s_listeners other\<rparr>))
       (pret (other'\<lparr>raw_sock := INVALID, factory := None, s_listeners := [], background := False\<rparr>))))"

text \<open>The destructor stops the server; the hooks are those of this class, which do nothing.\<close>

definition server_destroy :: "platform \<Rightarrow> ('a, 'w) server_vtable \<Rightarrow> ('a, 'w, unit) srv_prog" where
  "server_destroy pf vt =
     pthen (pnoexcept (server_stop pf (vt\<lparr>sv_hook := (\<lambda>_. pret ())\<rparr>))) (socket_destroy pf)"

subsection \<open>Connections\<close>

text \<open>An operation of a connection, run on the object in the heap.\<close>

definition on_conn ::
  "conn_id \<Rightarrow> (buffered \<times> 'w net_scheme, 'b) prog \<Rightarrow> ('o \<times> 'w net_scheme, 'b) prog" where
  "on_conn i m = (\<lambda>(ob, w). case smap_get (heap w) i of
      None \<Rightarrow> (Inl Undefined_behaviour, (ob, w))
    | Some c \<Rightarrow> (case m (c, w) of (r, (c', w')) \<Rightarrow> (r, (ob, w'\<lparr>heap := smap_put i c' (heap w')\<rparr>))))"

definition new_conn :: "buffered \<Rightarrow> ('o \<times> 'w net_scheme, conn_id) prog" where
  "new_conn c =
     pbind (wget next_id) (\<lambda>i.
     pthen (wupd (\<lambda>w. w\<lparr>heap := smap_put i c (heap w), next_id := Suc i\<rparr>)) (pret i))"

text \<open>The last pointer to an object is gone: its destructor runs, the object disappears.\<close>

definition drop_conn :: "platform \<Rightarrow> conn_id \<Rightarrow> ('o \<times> 'w net_scheme, unit) prog" where
  "drop_conn pf i =
     pthen (on_conn i (socket_destroy pf)) (wupd (\<lambda>w. w\<lparr>heap := smap_erase i (heap w)\<rparr>))"

text \<open>\<open>default_socket_factory::create_socket\<close>.\<close>

definition default_create ::
  "platform \<Rightarrow> socket_fd \<Rightarrow> sockaddr \<Rightarrow> ('a, 'w, buffered) srv_prog" where
  "default_create pf sock a = (\<lambda>(s, w).
     case set_non_blocking pf (non_blocking s) (buffered_of_raw sock a, w) of
       (Inl e, (c, w')) \<Rightarrow> (Inl e, (s, w'))
     | (Inr _, (c, w')) \<Rightarrow> (Inr c, (s, w')))"

text \<open>\<open>socket_server::on_accept\<close>. The factory is called through its pointer.\<close>

definition server_on_accept ::
  "('a, 'w) server_vtable \<Rightarrow> socket_fd \<Rightarrow> sockaddr \<Rightarrow> ('a, 'w, conn_id) srv_prog" where
  "server_on_accept vt sock a =
     pbind (obj factory) (\<lambda>f.
     case f of
       None \<Rightarrow> praise Undefined_behaviour
     | Some k \<Rightarrow>
         pbind (sv_create vt k sock a) (\<lambda>c.
         pbind (new_conn c) (\<lambda>i.
         pthen (on_conn i (notify (sv_conn vt) Connected)) (pret i))))"

text \<open>
  The loop of \<open>socket_server::run\<close>, which the asynchronous server repeats; the pointer that
  \<open>on_accept\<close> returns is dropped at once.
\<close>

fun accept_loop :: "platform \<Rightarrow> ('a, 'w) server_vtable \<Rightarrow> nat \<Rightarrow> ('a, 'w, unit) srv_prog" where
  "accept_loop pf vt 0 = praise Out_of_fuel"
| "accept_loop pf vt (Suc fuel) =
     pbind (obj server_valid) (\<lambda>v.
     if \<not> v then pret ()
     else
       pbind (socket_accept pf) (\<lambda>(sys_sock, a).
       if sys_sock = INVALID then accept_loop pf vt fuel
       else
         pbind (server_on_accept vt sys_sock a) (\<lambda>i.
         pthen (drop_conn pf i) (accept_loop pf vt fuel))))"

end
