(* ===== verification/Sync_Server.thy ===== *)
theory Sync_Server
  imports Server "HOL-Library.Signed_Division"
begin

section \<open>The synchronous server (\<open>sync/server.cpp\<close>, \<open>sync/select_impl.cpp\<close>, \<open>sync/epoll_impl.cpp\<close>)\<close>

text \<open>
  \<open>sync::server\<close> polls its descriptors through an implementation chosen when the program is
  built: \<open>select\<close> with two sets of descriptors, or \<open>epoll\<close> with a descriptor of its own. The
  map from descriptors to connections is in the world, where the listener that it installs on
  every connection, number 0, can reach it.
\<close>

datatype poller =
    Select_impl (sel_in: "socket_fd set") (sel_out: "socket_fd set") (sel_max: int)
  | Epoll_impl socket_fd

record sync_server = server +
  frequency :: nat
  poll_impl :: "poller option"

type_synonym ('a, 'w, 'b) sync_prog = "('a sync_server_scheme \<times> 'w net_scheme, 'b) prog"

definition DEFAULT_FREQUENCY :: nat where "DEFAULT_FREQUENCY = 4"
definition FD_SETSIZE :: int where "FD_SETSIZE = 1024"
definition MAXEVENTS :: nat where "MAXEVENTS = 64"
definition EPOLLIN :: nat where "EPOLLIN = 1"
definition EPOLLOUT :: nat where "EPOLLOUT = 4"
definition EPOLLERR :: nat where "EPOLLERR = 8"

definition select_new :: poller where "select_new = Select_impl {} {} 0"
definition epoll_new :: poller where "epoll_new = Epoll_impl INVALID"

text \<open>The constructor; \<open>create_server_impl\<close> is one of the two above.\<close>

definition sync_default :: "poller \<Rightarrow> sync_server" where
  "sync_default create_server_impl = server.extend server_default
     \<lparr>frequency = DEFAULT_FREQUENCY, poll_impl = Some create_server_impl\<rparr>"

definition set_frequency :: "nat \<Rightarrow> ('a, 'w, unit) sync_prog" where
  "set_frequency value = upd (\<lambda>s. s\<lparr>frequency := value\<rparr>)"

definition sync_on_start :: "platform \<Rightarrow> ('a, 'w, unit) sync_prog" where
  "sync_on_start pf = set_non_blocking pf True"

subsection \<open>The table of connections\<close>

text \<open>\<open>cleanup_listener::on_close\<close>.\<close>

definition cleanup :: "(buffered \<times> 'w net_scheme, unit) prog" where
  "cleanup =
     pbind (obj id) (\<lambda>c.
     if \<not> is_valid c then pret ()
     else wupd (\<lambda>w. w\<lparr>conns := smap_erase (raw_sock c) (conns w)\<rparr>))"

type_synonym 'w conn_vtable =
  "(unit, \<lparr>conns :: (socket_fd, conn_id) smap, heap :: (conn_id, buffered) smap, next_id :: conn_id, \<dots> :: 'w\<rparr>) vtable"

definition cleanup_vtable :: "'w conn_vtable \<Rightarrow> 'w conn_vtable" where
  "cleanup_vtable vt =
     vt\<lparr>v_listener := (\<lambda>i ev. if i = 0 then (if ev = Closed then cleanup else pret ()) else v_listener vt i ev)\<rparr>"

text \<open>A pointer to object \<open>i\<close> goes out of scope.\<close>

definition release :: "platform \<Rightarrow> conn_id \<Rightarrow> ('o \<times> 'w net_scheme, unit) prog" where
  "release pf i = pbind (wget conns) (\<lambda>m. if i \<in> snd ` set m then pret () else drop_conn pf i)"

definition find_socket :: "socket_fd \<Rightarrow> ('o \<times> 'w net_scheme, conn_id option) prog" where
  "find_socket fd = wget (\<lambda>w. smap_get (conns w) fd)"

definition remove_socket :: "platform \<Rightarrow> socket_fd \<Rightarrow> ('o \<times> 'w net_scheme, unit) prog" where
  "remove_socket pf fd =
     pbind (find_socket fd) (\<lambda>c.
     pthen (wupd (\<lambda>w. w\<lparr>conns := smap_erase fd (conns w)\<rparr>))
       (case c of None \<Rightarrow> pret () | Some i \<Rightarrow> release pf i))"

definition clear_sockets :: "platform \<Rightarrow> ('o \<times> 'w net_scheme, unit) prog" where
  "clear_sockets pf =
     pbind (wget conns) (\<lambda>m.
     pthen (wupd (\<lambda>w. w\<lparr>conns := []\<rparr>)) (piter (\<lambda>(_, i). drop_conn pf i) m))"

text \<open>Storing a connection under a descriptor drops the one stored there before.\<close>

definition add_socket :: "platform \<Rightarrow> conn_id \<Rightarrow> ('o \<times> 'w net_scheme, unit) prog" where
  "add_socket pf i =
     pbind (on_conn i (obj id)) (\<lambda>c.
     if \<not> is_valid c then pret ()
     else
       pthen (on_conn i (add_listener (Some 0)))
      (pbind (find_socket (raw_sock c)) (\<lambda>old.
       pthen (wupd (\<lambda>w. w\<lparr>conns := smap_put (raw_sock c) i (conns w)\<rparr>))
         (case old of None \<Rightarrow> pret () | Some j \<Rightarrow> release pf j))))"

definition sync_on_accept ::
  "platform \<Rightarrow> ('a sync_server_ext, 'w) server_vtable \<Rightarrow> socket_fd \<Rightarrow> sockaddr \<Rightarrow> ('a, 'w, conn_id) sync_prog" where
  "sync_on_accept pf vt sock a =
     pbind (server_on_accept vt sock a) (\<lambda>i. pthen (add_socket pf i) (pret i))"

definition accept_conn ::
  "platform \<Rightarrow> ('a sync_server_ext, 'w) server_vtable \<Rightarrow> socket_fd \<Rightarrow> sockaddr \<Rightarrow> ('a, 'w, unit) sync_prog" where
  "accept_conn pf vt sock a = pbind (sync_on_accept pf vt sock a) (release pf)"

subsection \<open>Polling with \<open>select\<close>\<close>

text \<open>\<open>FD_SET\<close> and \<open>FD_ISSET\<close> on a descriptor outside \<open>[0, FD_SETSIZE)\<close> are undefined.\<close>

definition fd_ok :: "socket_fd \<Rightarrow> bool" where
  "fd_ok fd \<longleftrightarrow> 0 \<le> fd \<and> fd < FD_SETSIZE"

definition guard_fd :: "socket_fd \<Rightarrow> ('s, unit) prog" where
  "guard_fd fd = (if fd_ok fd then pret () else praise Undefined_behaviour)"

definition get_select :: "('a, 'w, socket_fd set \<times> socket_fd set \<times> int) sync_prog" where
  "get_select =
     pbind (obj poll_impl) (\<lambda>p. case p of
        Some (Select_impl i t m) \<Rightarrow> pret (i, t, m) | _ \<Rightarrow> praise Undefined_behaviour)"

definition put_select :: "socket_fd set \<Rightarrow> socket_fd set \<Rightarrow> int \<Rightarrow> ('a, 'w, unit) sync_prog" where
  "put_select i t m = upd (\<lambda>s. s\<lparr>poll_impl := Some (Select_impl i t m)\<rparr>)"

definition select_listen :: "('a, 'w, bool) sync_prog" where
  "select_listen =
     pbind get_select (\<lambda>(i, t, _).
     pbind (obj raw_sock) (\<lambda>fd.
     pthen (guard_fd fd)
    (pthen (put_select (insert fd i) t fd) (pret True))))"

definition select_clear :: "socket_fd \<Rightarrow> ('a, 'w, unit) sync_prog" where
  "select_clear c =
     (if c = INVALID then pret ()
      else pthen (guard_fd c)
            (pbind get_select (\<lambda>(i, t, m). put_select (i - {c}) (t - {c}) m)))"

text \<open>The function given to \<open>iterate_connections\<close>: whether the connection is to be removed.\<close>

definition select_serve ::
  "platform \<Rightarrow> 'w conn_vtable \<Rightarrow> nat \<Rightarrow> conn_id \<Rightarrow> ('a, 'w, bool) sync_prog" where
  "select_serve pf vt fuel i =
     pbind (on_conn i (obj id)) (\<lambda>c.
     if \<not> is_valid c then pret True
     else
       pthen (guard_fd (raw_sock c))
      (pbind get_select (\<lambda>(ins, outs, _).
       pbind (if raw_sock c \<in> ins then on_conn i (read_to_buffer pf vt fuel) else pret True) (\<lambda>ok.
       if \<not> ok then pret True
       else
         pbind (on_conn i (obj id)) (\<lambda>c'.
         pthen (guard_fd (raw_sock c'))
           (if raw_sock c' \<in> outs \<and> has_output c'
            then pbind (on_conn i (write_from_buffer pf vt)) (\<lambda>sent. pret (\<not> sent))
            else pret False))))))"

definition next_key :: "socket_fd \<Rightarrow> (socket_fd, conn_id) smap \<Rightarrow> (socket_fd \<times> conn_id) option" where
  "next_key fd m = (case dropWhile (\<lambda>(k, _). k \<le> fd) m of [] \<Rightarrow> None | x # _ \<Rightarrow> Some x)"

text \<open>\<open>iterate_connections\<close> from an iterator, here the entry it points to; an entry that the
  function has erased itself leaves the iterator invalid.\<close>

fun iterate_connections ::
  "platform \<Rightarrow> 'w conn_vtable \<Rightarrow> nat \<Rightarrow> nat \<Rightarrow> (socket_fd \<times> conn_id) option \<Rightarrow> ('a, 'w, unit) sync_prog" where
  "iterate_connections pf vt rfuel n None = pret ()"
| "iterate_connections pf vt rfuel 0 (Some x) = praise Out_of_fuel"
| "iterate_connections pf vt rfuel (Suc n) (Some (fd, i)) =
     pbind (select_serve pf vt rfuel i) (\<lambda>failed.
     pbind (find_socket fd) (\<lambda>entry.
     if entry = None then praise Undefined_behaviour
     else
       pbind (wget (\<lambda>w. next_key fd (conns w))) (\<lambda>nxt.
       pthen (if failed then pthen (select_clear fd) (remove_socket pf fd) else pret ())
         (iterate_connections pf vt rfuel n nxt))))"

definition select_accept ::
  "platform \<Rightarrow> ('a sync_server_ext, 'w) server_vtable \<Rightarrow> ('a, 'w, unit) sync_prog" where
  "select_accept pf vt =
     pbind (socket_accept pf) (\<lambda>(sock, a).
     if sock = INVALID then pret ()
     else
       pthen (accept_conn pf vt sock a)
      (pbind get_select (\<lambda>(i, t, m).
       pthen (guard_fd sock) (put_select (insert sock i) (insert sock t) (max m sock)))))"

text \<open>\<open>select\<close> overwrites the sets it is given, which are the members themselves.\<close>

definition select_poll ::
  "platform \<Rightarrow> ('a sync_server_ext, 'w) server_vtable \<Rightarrow> nat \<Rightarrow> nat \<Rightarrow> (int \<times> int) option \<Rightarrow> ('a, 'w, unit) sync_prog"
where
  "select_poll pf vt rfuel n stall =
     pbind (obj id) (\<lambda>s.
     if \<not> server_valid s then pret ()
     else
       pbind get_select (\<lambda>(i, t, m).
       pbind (ask pf (\<lambda>tr. os_select pf tr i t stall) (\<lambda>(r, _). Sys_select (m + 1) i t stall r)) (\<lambda>(r, i', t').
       pthen (put_select i' t' m)
      (pbind (wget errno) (\<lambda>err.
       if r < 0 \<and> err \<noteq> EINTR then praise (Socket_exception (os_strerror pf err))
       else
         pthen (guard_fd (raw_sock s))
        (pthen (if raw_sock s \<in> i' then select_accept pf vt else pret ())
        (pbind (obj server_valid) (\<lambda>v.
         if \<not> v then pret ()
         else
           pbind (wget (\<lambda>w. case conns w of [] \<Rightarrow> None | x # _ \<Rightarrow> Some x))
             (iterate_connections pf (sv_conn vt) rfuel n)))))))))"

subsection \<open>Polling with \<open>epoll\<close>\<close>

definition epoll_listen :: "platform \<Rightarrow> ('a, 'w, bool) sync_prog" where
  "epoll_listen pf =
     pbind (obj id) (\<lambda>s.
     if \<not> server_valid s then pret False
     else
       pbind (ask pf (os_epoll_create pf) Sys_epoll_create) (\<lambda>ep.
       pthen (upd (\<lambda>s. s\<lparr>poll_impl := Some (Epoll_impl ep)\<rparr>))
         (if ep = INVALID then pret False
          else
            let fd = raw_sock s in
            pbind (ask pf (\<lambda>tr. os_epoll_add pf tr ep fd) (Sys_epoll_add ep fd)) (\<lambda>r.
            pret (r \<noteq> INVALID)))))"

unbundle bit_operations_syntax

definition flag :: "nat \<Rightarrow> nat \<Rightarrow> bool" where
  "flag events bits \<longleftrightarrow> events AND bits \<noteq> 0"

definition close_conn :: "platform \<Rightarrow> 'w conn_vtable \<Rightarrow> conn_id \<Rightarrow> ('a, 'w, unit) sync_prog" where
  "close_conn pf vt i = on_conn i (buf_close pf vt)"

definition epoll_write ::
  "platform \<Rightarrow> 'w conn_vtable \<Rightarrow> socket_fd \<Rightarrow> ('a, 'w, unit) sync_prog" where
  "epoll_write pf vt fd =
     pbind (find_socket fd) (\<lambda>c. case c of
       None \<Rightarrow> pret ()
     | Some i \<Rightarrow>
         pthen
          (pbind (on_conn i (obj has_output)) (\<lambda>h.
           if \<not> h then pret ()
           else pbind (on_conn i (write_from_buffer pf vt)) (\<lambda>ok.
                if ok then pret () else close_conn pf vt i)))
          (release pf i))"

text \<open>The body of the loop over the events; \<open>continue\<close> ends it.\<close>

definition epoll_event ::
  "platform \<Rightarrow> ('a sync_server_ext, 'w) server_vtable \<Rightarrow> nat \<Rightarrow> socket_fd \<times> nat \<Rightarrow> ('a, 'w, unit) sync_prog" where
  "epoll_event pf vt rfuel = (\<lambda>(fd, events).
     if flag events EPOLLERR then
       pbind (find_socket fd) (\<lambda>c. case c of
         None \<Rightarrow> pret ()
       | Some i \<Rightarrow> pthen (close_conn pf (sv_conn vt) i) (release pf i))
     else
       pbind (obj raw_sock) (\<lambda>server_fd.
       if flag events EPOLLIN \<and> server_fd = fd then
         pbind (socket_accept pf) (\<lambda>(infd, a).
         if infd = INVALID then pret () else accept_conn pf vt infd a)
       else
         pbind
          (if flag events EPOLLIN then
             pbind (find_socket fd) (\<lambda>c. case c of
               None \<Rightarrow> pret True
             | Some i \<Rightarrow>
                 pbind (on_conn i (read_to_buffer pf (sv_conn vt) rfuel)) (\<lambda>ok.
                 pthen (if ok then pret () else close_conn pf (sv_conn vt) i)
                (pthen (release pf i) (pret ok))))
           else pret True)
          (\<lambda>go.
          if go \<and> flag events EPOLLOUT then epoll_write pf (sv_conn vt) fd else pret ())))"

definition epoll_timeout :: "(int \<times> int) option \<Rightarrow> int" where
  "epoll_timeout stall = (case stall of None \<Rightarrow> -1 | Some (sec, usec) \<Rightarrow> usec div 1000)"

definition epoll_poll ::
  "platform \<Rightarrow> ('a sync_server_ext, 'w) server_vtable \<Rightarrow> nat \<Rightarrow> socket_fd \<Rightarrow> (int \<times> int) option \<Rightarrow> ('a, 'w, unit) sync_prog"
where
  "epoll_poll pf vt rfuel ep stall =
     pbind (obj server_valid) (\<lambda>v.
     if \<not> v \<and> ep \<noteq> INVALID then pret ()
     else
       pbind (ask pf (\<lambda>tr. os_epoll_wait pf tr ep (epoll_timeout stall))
                (\<lambda>(n, _). Sys_epoll_wait ep (epoll_timeout stall) n)) (\<lambda>(n, events).
       pbind (wget errno) (\<lambda>err.
       if n = INVALID then praise (Socket_exception (os_strerror pf err))
       else piter (epoll_event pf vt rfuel) (take (min (nat n) MAXEVENTS) events))))"

subsection \<open>The server\<close>

definition sync_listen ::
  "platform \<Rightarrow> ('a sync_server_ext, 'w) server_vtable \<Rightarrow> int \<Rightarrow> int \<Rightarrow> ('a, 'w, bool) sync_prog" where
  "sync_listen pf vt port backlog =
     pbind (server_listen pf vt port backlog) (\<lambda>rval.
     pbind (obj poll_impl) (\<lambda>p.
     if \<not> rval then pret False
     else case p of
       None \<Rightarrow> pret True
     | Some impl \<Rightarrow>
         pbind (case impl of Select_impl _ _ _ \<Rightarrow> select_listen | Epoll_impl _ \<Rightarrow> epoll_listen pf) (\<lambda>ok.
         if ok then pret True else pthen (socket_close pf) (pret False))))"

text \<open>The two loops of \<open>wait_time\<close>.\<close>

function borrow :: "int \<Rightarrow> int \<Rightarrow> int \<times> int" where
  "borrow sec usec = (if usec < 0 then borrow (sec - 1) (usec + 1000000) else (sec, usec))"
  by pat_completeness auto
termination
  by (relation "measure (\<lambda>(sec, usec). nat (- usec))") auto

function carry :: "int \<Rightarrow> int \<Rightarrow> int \<times> int" where
  "carry sec usec = (if 1000000 \<le> usec then carry (sec + 1) (usec - 1000000) else (sec, usec))"
  by pat_completeness auto
termination
  by (relation "measure (\<lambda>(sec, usec). nat usec)") auto

declare borrow.simps [simp del] carry.simps [simp del]

text \<open>The time to stall for, from the last time, the time now and the frequency; the division of
  the code rounds towards zero.\<close>

definition stall_time :: "int \<times> int \<Rightarrow> int \<times> int \<Rightarrow> nat \<Rightarrow> int \<times> int" where
  "stall_time since now freq =
     (let usecDelta = (snd since - snd now + 1000000) sdiv int freq;
          secDelta = fst since - fst now
      in case borrow secDelta usecDelta of (s1, u1) \<Rightarrow>
         case carry s1 u1 of (s2, u2) \<Rightarrow>
           if s2 > 0 \<or> s2 = 0 \<and> u2 > 0 then (s2, u2) else (0, 0))"

text \<open>The result and the new value of \<open>*last_time\<close>.\<close>

definition wait_time ::
  "platform \<Rightarrow> (int \<times> int) option \<Rightarrow> ('a, 'w, (int \<times> int) option \<times> (int \<times> int) option) sync_prog" where
  "wait_time pf last_time =
     pbind (obj frequency) (\<lambda>freq.
     case last_time of
       None \<Rightarrow> pret (None, None)
     | Some since \<Rightarrow>
         if freq = 0 then pret (None, Some since)
         else
           pbind (ask pf (os_time pf) (\<lambda>_. Sys_gettimeofday)) (\<lambda>now.
           pbind (ask pf (os_time pf) (\<lambda>_. Sys_gettimeofday)) (\<lambda>now'.
           pret (Some (stall_time since now freq), Some now'))))"

text \<open>
  The hook, then the listeners that are \<open>server_listener\<close>s: the dynamic cast of a null listener is
  null, so unlike the base class this one passes over it.
\<close>

definition sync_notify_poll :: "('a, 'w) server_vtable \<Rightarrow> ('a, 'w, unit) srv_prog" where
  "sync_notify_poll vt =
     pthen (sv_hook vt On_poll)
       (pbind (obj s_listeners) (\<lambda>ls.
          piter (\<lambda>(l, _). case l of None \<Rightarrow> pret () | Some i \<Rightarrow> sv_listener vt i On_poll) ls))"

definition sync_poll ::
  "platform \<Rightarrow> ('a sync_server_ext, 'w) server_vtable \<Rightarrow> nat \<Rightarrow> nat \<Rightarrow> (int \<times> int) option \<Rightarrow>
     ('a, 'w, (int \<times> int) option) sync_prog" where
  "sync_poll pf vt rfuel n last_time =
     pbind (obj id) (\<lambda>s.
     if \<not> server_valid s then pret last_time
     else case poll_impl s of
       None \<Rightarrow> pret last_time
     | Some impl \<Rightarrow>
         pbind (wait_time pf last_time) (\<lambda>(stall, since').
         pthen (case impl of
                  Select_impl _ _ _ \<Rightarrow> select_poll pf vt rfuel n stall
                | Epoll_impl ep \<Rightarrow> epoll_poll pf vt rfuel ep stall)
        (pthen (sync_notify_poll vt) (pret since'))))"

fun poll_loop ::
  "platform \<Rightarrow> ('a sync_server_ext, 'w) server_vtable \<Rightarrow> nat \<Rightarrow> nat \<Rightarrow> nat \<Rightarrow> (int \<times> int) option \<Rightarrow> ('a, 'w, unit) sync_prog"
where
  "poll_loop pf vt rfuel n 0 since = praise Out_of_fuel"
| "poll_loop pf vt rfuel n (Suc k) since =
     pbind (obj server_valid) (\<lambda>v.
     if \<not> v then pret () else pbind (sync_poll pf vt rfuel n since) (poll_loop pf vt rfuel n k))"

definition sync_run ::
  "platform \<Rightarrow> ('a sync_server_ext, 'w) server_vtable \<Rightarrow> nat \<Rightarrow> nat \<Rightarrow> nat \<Rightarrow> ('a, 'w, unit) sync_prog" where
  "sync_run pf vt rfuel n k =
     pbind (ask pf (os_time pf) (\<lambda>_. Sys_gettimeofday)) (\<lambda>now. poll_loop pf vt rfuel n k (Some now))"

definition sync_stop ::
  "platform \<Rightarrow> ('a sync_server_ext, 'w) server_vtable \<Rightarrow> ('a, 'w, unit) sync_prog" where
  "sync_stop pf vt = pthen (server_stop pf vt) (clear_sockets pf)"

text \<open>
  The destructor: the members first, the connections and then the polling object, which closes
  its \<open>epoll\<close> descriptor; then the base class.
\<close>

definition poller_destroy :: "platform \<Rightarrow> ('a, 'w, unit) sync_prog" where
  "poller_destroy pf =
     pbind (obj poll_impl) (\<lambda>p.
     pthen (case p of
              Some (Epoll_impl ep) \<Rightarrow> if ep \<noteq> INVALID then call pf (Sys_close ep) else pret ()
            | _ \<Rightarrow> pret ())
       (upd (\<lambda>s. s\<lparr>poll_impl := None\<rparr>)))"

definition sync_destroy ::
  "platform \<Rightarrow> ('a sync_server_ext, 'w) server_vtable \<Rightarrow> ('a, 'w, unit) sync_prog" where
  "sync_destroy pf vt = pthen (clear_sockets pf) (pthen (poller_destroy pf) (server_destroy pf vt))"

text \<open>
  Moves. The table of connections is a member of its own object, here the second component of a
  pair: the move constructor gives the new object an empty one. Move assignment works on the
  object whose table is in the world; the polling object that it replaces is destroyed. The
  polling objects' own moves copy, also the \<open>epoll\<close> descriptor.
\<close>

definition sync_move ::
  "'a sync_server_scheme \<times> (socket_fd, conn_id) smap \<Rightarrow>
     (sync_server \<times> (socket_fd, conn_id) smap) \<times> ('a sync_server_scheme \<times> (socket_fd, conn_id) smap)" where
  "sync_move = (\<lambda>(other, table). case server_move other of (base, other') \<Rightarrow>
     ((server.extend base \<lparr>frequency = frequency other, poll_impl = poll_impl other\<rparr>, []),
      (other'\<lparr>poll_impl := None\<rparr>, table)))"

definition sync_move_assign ::
  "platform \<Rightarrow> 'b sync_server_scheme \<Rightarrow> ('a, 'w, 'b sync_server_scheme) sync_prog" where
  "sync_move_assign pf other =
     pbind (server_move_assign pf other) (\<lambda>other'.
     pthen (poller_destroy pf)
    (pthen (upd (\<lambda>s. s\<lparr>poll_impl := poll_impl other, frequency := frequency other\<rparr>))
       (pret (other'\<lparr>poll_impl := None\<rparr>))))"

definition select_move :: "socket_fd set \<Rightarrow> socket_fd set \<Rightarrow> int \<Rightarrow> poller \<times> poller" where
  "select_move i t m = (Select_impl i t m, Select_impl i t m)"

definition select_move_assign :: "poller \<Rightarrow> socket_fd set \<Rightarrow> socket_fd set \<Rightarrow> int \<Rightarrow> poller \<times> poller" where
  "select_move_assign this i t m = (Select_impl i t m, Select_impl i t m)"

definition epoll_move :: "socket_fd \<Rightarrow> poller \<times> poller" where
  "epoll_move ep = (Epoll_impl ep, Epoll_impl ep)"

definition epoll_move_assign :: "poller \<Rightarrow> socket_fd \<Rightarrow> poller \<times> poller" where
  "epoll_move_assign this ep = (Epoll_impl ep, Epoll_impl ep)"

text \<open>The table of a plain synchronous server: default factory, its own hooks, no listeners of the
  user; the connections have the cleanup listener.\<close>

definition plain_sync :: "platform \<Rightarrow> ('a sync_server_ext, 'w) server_vtable" where
  "plain_sync pf = \<lparr>
     sv_hook = (\<lambda>ev. if ev = On_start then sync_on_start pf else pret ()),
     sv_listener = (\<lambda>_ _. pret ()),
     sv_create = (\<lambda>_. default_create pf),
     sv_conn = cleanup_vtable idle_vtable\<rparr>"

end
