(* ===== verification/Server_Facts.thy ===== *)
theory Server_Facts
  imports Sync_Server
begin

section \<open>Servers: starting, polling and the table of connections\<close>

subsection \<open>Starting\<close>

lemma server_start_listen_fails:
  assumes "\<not> server_valid s" and "vlisten port backlog (s, w) = (Inr False, (s', w'))"
  shows "server_start vlisten vrun port backlog (s, w) =
    (Inl (Socket_exception ''unable to listen on port''), (s', w'))"
  using assms by (simp add: server_start_def prog_simps)

lemma server_start_valid:
  assumes "server_valid s"
  shows "server_start vlisten vrun port backlog (s, w) =
    (Inl (Socket_exception ''server already started''), (s, w))"
  using assms by (simp add: server_start_def prog_simps)

text \<open>A kernel that binds the first address and then refuses to listen.\<close>

definition refuses_listen :: "platform \<Rightarrow> history \<Rightarrow> int \<Rightarrow> int \<Rightarrow> addrinfo \<Rightarrow> socket_fd \<Rightarrow> bool" where
  "refuses_listen pf tr port backlog a fd \<longleftrightarrow>
     (let t1 = tr @ [Sys_getaddrinfo None (servnam port) 0];
          t2 = t1 @ [Sys_socket (ai_family a) (ai_socktype a) (ai_protocol a) fd];
          t3 = t2 @ [Sys_setsockopt fd 0];
          t4 = t3 @ [Sys_bind fd (ai_addr a) 0, Sys_freeaddrinfo]
      in (\<exists>more. os_getaddrinfo pf tr None (servnam port) = (0, a # more)) \<and>
         os_socket pf t1 a = fd \<and> fd \<noteq> INVALID \<and> os_setsockopt pf t2 fd = 0 \<and>
         os_bind pf t3 fd (ai_addr a) = 0 \<and> os_listen pf t4 fd backlog = -1)"

lemma listen_refused:
  assumes "refuses_listen pf (trace w) port backlog a fd"
  shows "\<exists>w'. socket_listen pf port backlog (s, w) =
    (Inr False, (s\<lparr>raw_sock := fd, addr := ai_addr a\<rparr>, w'))"
  using assms
  by (auto simp: refuses_listen_def Let_def socket_listen_def prog_simps finish_listen_def is_valid_def)

text \<open>
  a server whose \<open>listen\<close> was refused cannot be started again: the bound descriptor stays in
  the object, which counts as valid, so \<open>start\<close> first throws that it is unable to listen and
  from then on that the server is already started.
\<close>

theorem failed_listen_blocks_restart:
  assumes "\<not> is_valid s" and "has_factory s"
    and "refuses_listen pf (trace w) port backlog a fd"
  shows "\<exists>s' w'. server_start (server_listen pf vt) vrun port backlog (s, w) =
      (Inl (Socket_exception ''unable to listen on port''), (s', w')) \<and>
    (\<forall>port' backlog'. server_start (server_listen pf vt) vrun port' backlog' (s', w') =
      (Inl (Socket_exception ''server already started''), (s', w')))"
proof -
  let ?s = "s\<lparr>raw_sock := fd, addr := ai_addr a\<rparr>"
  obtain w' where l: "socket_listen pf port backlog (s, w) = (Inr False, (?s, w'))"
    using listen_refused [OF assms(3)] by blast
  have "server_listen pf vt port backlog (s, w) = (Inr False, (?s, w'))"
    by (simp add: server_listen_def prog_simps l)
  then have "server_start (server_listen pf vt) vrun port backlog (s, w) =
      (Inl (Socket_exception ''unable to listen on port''), (?s, w'))"
    using assms(1) by (intro server_start_listen_fails) (simp_all add: server_valid_def)
  moreover have "server_valid ?s"
    using assms(2,3) by (simp add: server_valid_def is_valid_def refuses_listen_def Let_def)
  ultimately show ?thesis using server_start_valid by blast
qed

definition net0 :: net where
  "net0 = world.extend world0 \<lparr>conns = [], heap = [], next_id = 0\<rparr>"

definition deaf_kernel :: platform where
  "deaf_kernel = granting\<lparr>os_listen := (\<lambda>_ _ _. -1)\<rparr>"

lemma failed_listen_blocks_restart_witness:
  "\<exists>s' w'. server_start (server_listen deaf_kernel (plain_sync deaf_kernel)) (pret ()) 80 10
      (sync_default epoll_new, net0) = (Inl (Socket_exception ''unable to listen on port''), (s', w')) \<and>
    (\<forall>port' backlog'. server_start (server_listen deaf_kernel (plain_sync deaf_kernel)) (pret ()) port' backlog'
      (s', w') = (Inl (Socket_exception ''server already started''), (s', w')))"
proof (rule failed_listen_blocks_restart)
  show "\<not> is_valid (sync_default epoll_new)" "has_factory (sync_default epoll_new)"
    by (simp_all add: sync_default_def server_default_def server.defs socket.defs socket_default_def is_valid_def)
  show "refuses_listen deaf_kernel (trace net0) 80 10 local_info 7"
    by (simp add: refuses_listen_def Let_def deaf_kernel_def granting_def INVALID_def)
qed

subsection \<open>How long a poll may wait\<close>

lemma carry_small: "u < 1000000 \<Longrightarrow> carry s u = (s, u)"
  by (subst carry.simps) simp

lemma carry_closed: "0 \<le> u \<Longrightarrow> carry s u = (s + u div 1000000, u mod 1000000)"
proof (induction s u rule: carry.induct)
  case (1 s u)
  show ?case
  proof (cases "1000000 \<le> u")
    case True
    with 1 have "carry s u = (s + 1 + (u - 1000000) div 1000000, (u - 1000000) mod 1000000)"
      by (subst carry.simps) simp
    moreover from True have "(u - 1000000) div 1000000 = u div 1000000 - 1" "(u - 1000000) mod 1000000 = u mod 1000000"
      using div_add_self2 [of 1000000 "u - 1000000"] mod_add_self2 [of "u - 1000000" 1000000] by simp_all
    ultimately show ?thesis by simp
  next
    case False
    with 1(2) show ?thesis by (simp add: carry_small)
  qed
qed

lemma borrow_none: "0 \<le> u \<Longrightarrow> borrow s u = (s, u)"
  by (subst borrow.simps) simp

lemma borrow_closed: "u < 1000000 \<Longrightarrow> borrow s u = (s + u div 1000000, u mod 1000000)"
proof (induction s u rule: borrow.induct)
  case (1 s u)
  show ?case
  proof (cases "u < 0")
    case True
    with 1(1) have "borrow s u = (s - 1 + (u + 1000000) div 1000000, (u + 1000000) mod 1000000)"
      by (subst borrow.simps) simp
    then show ?thesis by simp
  next
    case False
    with 1(2) show ?thesis by (simp add: borrow_none)
  qed
qed

text \<open>Both loops together normalise: they compute quotient and remainder.\<close>

lemma normalise:
  "(case borrow s u of (s1, u1) \<Rightarrow> carry s1 u1) = (s + u div 1000000, u mod 1000000)"
proof (cases "u < 0")
  case True
  then have "borrow s u = (s + u div 1000000, u mod 1000000)" by (intro borrow_closed) simp
  then show ?thesis by (simp add: carry_small)
next
  case False
  then show ?thesis by (simp add: borrow_none carry_closed)
qed

definition clock_ok :: "int \<times> int \<Rightarrow> bool" where
  "clock_ok t \<longleftrightarrow> 0 \<le> snd t \<and> snd t < 1000000"

definition micros :: "int \<times> int \<Rightarrow> int" where
  "micros t = fst t * 1000000 + snd t"

lemma micros_positive: "0 \<le> r \<Longrightarrow> r < 1000000 \<Longrightarrow> 0 < q * 1000000 + r \<longleftrightarrow> q > 0 \<or> q = 0 \<and> r > 0"
  for q r :: int
  by (cases "q < 0"; cases "q = 0") auto

text \<open>The stall time, computed on one number of microseconds.\<close>

definition stall_reference :: "int \<times> int \<Rightarrow> int \<times> int \<Rightarrow> nat \<Rightarrow> int \<times> int" where
  "stall_reference since now freq =
     (let total = (fst since - fst now) * 1000000 + (snd since - snd now + 1000000) sdiv int freq
      in if 0 < total then (total div 1000000, total mod 1000000) else (0, 0))"

lemma stall_time_normal:
  "stall_time since now freq =
     (let u = (snd since - snd now + 1000000) sdiv int freq; s = fst since - fst now + u div 1000000
      in if s > 0 \<or> s = 0 \<and> u mod 1000000 > 0 then (s, u mod 1000000) else (0, 0))"
proof -
  define u where "u = (snd since - snd now + 1000000) sdiv int freq"
  obtain s1 u1 where b: "borrow (fst since - fst now) u = (s1, u1)" by (cases "borrow (fst since - fst now) u")
  with normalise [of "fst since - fst now" u]
  have "carry s1 u1 = (fst since - fst now + u div 1000000, u mod 1000000)" by simp
  with b show ?thesis by (simp add: stall_time_def Let_def u_def)
qed

text \<open>
  C31: the two loops of \<open>wait_time\<close> compute what the difference of the two times, as one number of
  microseconds, divided by the frequency in its microseconds only, gives: for every pair of times
  and every frequency the stall time is the reference's.
\<close>

theorem stall_time_reference: "stall_time since now freq = stall_reference since now freq"
proof -
  define u where "u = (snd since - snd now + 1000000) sdiv int freq"
  define d where "d = fst since - fst now"
  have q: "(d * 1000000 + u) div 1000000 = d + u div 1000000" "(d * 1000000 + u) mod 1000000 = u mod 1000000"
    by simp_all
  have "0 < d * 1000000 + u \<longleftrightarrow> d + u div 1000000 > 0 \<or> d + u div 1000000 = 0 \<and> u mod 1000000 > 0"
  proof -
    have "d * 1000000 + u = (d + u div 1000000) * 1000000 + u mod 1000000"
      using div_mult_mod_eq [of u 1000000] by (simp add: algebra_simps)
    then show ?thesis using micros_positive [of "u mod 1000000" "d + u div 1000000"] by (simp add: add.commute)
  qed
  with q show ?thesis
    by (simp only: stall_time_normal stall_reference_def Let_def u_def [symmetric] d_def [symmetric])
qed

text \<open>
  C32: the time a poll may stall is a proper time value, and on a clock that does not run
  backwards it is at most the period of the frequency, one second divided by it.
\<close>

theorem stall_time_bounds:
  assumes "clock_ok t0" and "clock_ok t1" and "0 < freq"
  shows "clock_ok (stall_time t0 t1 freq) \<and> 0 \<le> fst (stall_time t0 t1 freq) \<and>
    (micros t0 \<le> micros t1 \<longrightarrow> micros (stall_time t0 t1 freq) \<le> 1000000 div int freq)"
proof -
  define n where "n = snd t0 - snd t1 + 1000000"
  define u where "u = n div int freq"
  define d where "d = fst t0 - fst t1"
  have n: "0 < n" "n < 2000000" using assms(1,2) by (simp_all add: n_def clock_ok_def)
  have u0: "0 \<le> u" using n assms(3) by (simp add: u_def pos_imp_zdiv_nonneg_iff)
  have un: "u \<le> n"
  proof -
    have "n div int freq \<le> n div 1" using n assms(3) by (intro zdiv_mono2) auto
    then show ?thesis by (simp add: u_def)
  qed
  have "n sdiv int freq = u" using n(1) assms(3) by (simp add: u_def signed_divide_int_def)
  then have st: "stall_time t0 t1 freq =
      (if d + u div 1000000 > 0 \<or> d + u div 1000000 = 0 \<and> u mod 1000000 > 0
       then (d + u div 1000000, u mod 1000000) else (0, 0))"
    by (simp add: stall_time_normal Let_def n_def d_def)
  have "micros (stall_time t0 t1 freq) \<le> 1000000 div int freq" if le: "micros t0 \<le> micros t1"
  proof -
    have total: "micros (stall_time t0 t1 freq) \<le> max 0 (d * 1000000 + u)"
      using div_mult_mod_eq [of u 1000000] by (simp add: st micros_def algebra_simps)
    show ?thesis
    proof (cases "d = 0")
      case True
      then have "n \<le> 1000000" using le by (simp add: n_def d_def micros_def)
      then have "u \<le> 1000000 div int freq" using assms(3) by (simp add: u_def zdiv_mono1)
      with total True u0 show ?thesis by simp
    next
      case False
      with le assms(1,2) have d: "d \<le> -1" by (simp add: d_def micros_def clock_ok_def)
      show ?thesis
      proof (cases "freq = 1")
        case True
        then show ?thesis using total d un n by simp
      next
        case f: False
        have "u \<le> n div 2" using n assms(3) f unfolding u_def by (intro zdiv_mono2) auto
        with n d have "d * 1000000 + u \<le> 0" by simp
        moreover have "0 \<le> 1000000 div int freq" using assms(3) by (simp add: div_int_pos_iff)
        ultimately show ?thesis using total by simp
      qed
    qed
  qed
  then show ?thesis using u0 by (auto simp: st clock_ok_def)
qed

lemma stall_time_bounds_witness:
  "clock_ok (stall_time (5, 100) (5, 200) 4) \<and> 0 \<le> fst (stall_time (5, 100) (5, 200) 4) \<and>
   micros (stall_time (5, 100) (5, 200) 4) \<le> 250000"
  using stall_time_bounds [of "(5, 100)" "(5, 200)" 4] by (simp add: clock_ok_def micros_def)

end
