(* ===== verification/Poll_Facts.thy ===== *)
theory Poll_Facts
  imports Server_Facts
begin

section \<open>What the two polling implementations watch\<close>

text \<open>
  Invariants of the polling loops of a plain synchronous server: one that speaks of the server
  object only, for \<open>select\<close>, and one of the server and the world, for \<open>epoll\<close>.
\<close>

lemma keeps_obj_id:
  assumes "\<And>s0. Q s0 \<Longrightarrow> keeps (\<lambda>(s, w). Q s) (g s0)"
  shows "keeps (\<lambda>(s, w). Q s) (pbind (obj id) g)"
proof (rule hoareI)
  fix sw x sw' assume q: "case sw of (s, w) \<Rightarrow> Q s" and r: "pbind (obj id) g sw = (Inr x, sw')"
  obtain s w where sw: "sw = (s, w)" by (cases sw)
  have "g s (s, w) = (Inr x, sw')" using r by (simp add: sw prog_simps)
  with hoare_Inr [OF assms [of s]] q sw show "case sw' of (s, w) \<Rightarrow> Q s" by auto
next
  fix sw e sw' assume q: "case sw of (s, w) \<Rightarrow> Q s" and r: "pbind (obj id) g sw = (Inl e, sw')"
  obtain s w where sw: "sw = (s, w)" by (cases sw)
  have "g s (s, w) = (Inl e, sw')" using r by (simp add: sw prog_simps)
  with hoare_Inl [OF assms [of s]] q sw show "case sw' of (s, w) \<Rightarrow> Q s" by auto
qed

subsection \<open>\<open>select\<close> forgets the listening socket\<close>

definition not_watched :: "socket_fd \<Rightarrow> 'a sync_server_scheme \<Rightarrow> bool" where
  "not_watched fd s \<longleftrightarrow> raw_sock s = fd \<and>
     (\<exists>i t m. poll_impl s = Some (Select_impl i t m) \<and> fd \<notin> i)"

lemma keeps_server_on_conn [hoare_rules]: "keeps (\<lambda>(s, w). Q s) (on_conn i m)"
  by (rule hoareI) (auto simp: on_conn_def split: option.splits prod.splits)

lemma keeps_server_world [hoare_rules]:
  "keeps (\<lambda>(s, w). Q s) (wupd f)" "keeps (\<lambda>(s, w). Q s) (ask pf g ev)" "keeps (\<lambda>(s, w). Q s) (guard_fd fd)"
  "keeps (\<lambda>(s, w). Q s) (find_socket fd)"
  by (auto simp: guard_fd_def find_socket_def intro!: hoare_rules keeps_wupd keeps_ask)

lemma keeps_server_drop [hoare_rules]:
  "keeps (\<lambda>(s, w). Q s) (drop_conn pf i)" "keeps (\<lambda>(s, w). Q s) (release pf i)"
  "keeps (\<lambda>(s, w). Q s) (remove_socket pf fd)"
  by (auto simp: drop_conn_def release_def remove_socket_def split: option.split intro!: hoare_rules)

lemma keeps_get_select [hoare_rules]: "keeps P get_select"
  by (auto simp: get_select_def split: option.split poller.split intro!: hoare_rules)

lemma select_clear_keeps: "keeps (\<lambda>(s, w). not_watched fd s) (select_clear c)"
proof (rule hoareI)
  fix sw x sw' assume "case sw of (s, w) \<Rightarrow> not_watched fd s" "select_clear c sw = (Inr x, sw')"
  then show "case sw' of (s, w) \<Rightarrow> not_watched fd s"
    by (cases sw) (auto simp: not_watched_def select_clear_def guard_fd_def get_select_def put_select_def
        prog_simps split: if_splits)
next
  fix sw e sw' assume "case sw of (s, w) \<Rightarrow> not_watched fd s" "select_clear c sw = (Inl e, sw')"
  then show "case sw' of (s, w) \<Rightarrow> not_watched fd s"
    by (cases sw) (auto simp: not_watched_def select_clear_def guard_fd_def get_select_def put_select_def
        prog_simps split: if_splits)
qed

lemma select_serve_keeps [hoare_rules]: "keeps (\<lambda>(s, w). Q s) (select_serve pf vt rfuel i)"
  unfolding select_serve_def by (auto intro!: hoare_rules)

lemma iterate_keeps: "keeps (\<lambda>(s, w). not_watched fd s) (iterate_connections pf vt rfuel n x)"
proof (induction n arbitrary: x)
  case 0
  then show ?case by (cases x) (auto intro: hoare_rules)
next
  case (Suc n)
  show ?case
  proof (cases x)
    case None
    then show ?thesis by (auto intro: hoare_rules)
  next
    case (Some y)
    obtain k i where y: "y = (k, i)" by (cases y)
    show ?thesis
      unfolding Some y iterate_connections.simps
      by (intro hoare_rules select_clear_keeps Suc.IH)
  qed
qed

text \<open>A kernel's \<open>select\<close> answers with descriptors it was asked about.\<close>

definition select_answers :: "platform \<Rightarrow> bool" where
  "select_answers pf \<longleftrightarrow> (\<forall>tr i t stall. fst (snd (os_select pf tr i t stall)) \<subseteq> i)"

lemma select_poll_lost:
  assumes "raw_sock s = fd" and "poll_impl s = Some (Select_impl i t m)" and "server_valid s"
    and "fd \<notin> fst (snd (os_select pf (trace w) i t stall))"
  shows "case snd (select_poll pf vt rfuel n stall (s, w)) of (s', w') \<Rightarrow> not_watched fd s'"
proof -
  obtain r i' t' where o: "os_select pf (trace w) i t stall = (r, i', t')"
    by (cases "os_select pf (trace w) i t stall") auto
  let ?s = "s\<lparr>poll_impl := Some (Select_impl i' t' m)\<rparr>"
  let ?w = "record_call pf (Sys_select (m + 1) i t stall r) w"
  let ?rest = "pthen (guard_fd fd) (pthen (pret ()) (pbind (obj server_valid) (\<lambda>v.
      if \<not> v then pret ()
      else pbind (wget (\<lambda>w. case conns w of [] \<Rightarrow> None | x # _ \<Rightarrow> Some x))
             (iterate_connections pf (sv_conn vt) rfuel n))))"
  have nw: "not_watched fd ?s" using assms(1,4) o by (simp add: not_watched_def)
  have "select_poll pf vt rfuel n stall (s, w) =
      (if r < 0 \<and> errno ?w \<noteq> EINTR then (Inl (Socket_exception (os_strerror pf (errno ?w))), (?s, ?w))
       else ?rest (?s, ?w))"
    using assms o by (simp add: select_poll_def get_select_def put_select_def prog_simps)
  moreover have "keeps (\<lambda>(s, w). not_watched fd s) ?rest"
    by (intro hoare_rules iterate_keeps)
  then have "case snd (?rest (?s, ?w)) of (s', w') \<Rightarrow> not_watched fd s'"
    using keeps_snd [of "\<lambda>(s, w). not_watched fd s" ?rest "(?s, ?w)"] nw by simp
  ultimately show ?thesis using nw by simp
qed

lemma select_poll_keeps:
  assumes "select_answers pf"
  shows "keeps (\<lambda>(s, w). not_watched fd s) (select_poll pf vt rfuel n stall)"
proof -
  have step: "case snd (select_poll pf vt rfuel n stall (s, w)) of (s', w') \<Rightarrow> not_watched fd s'"
    if nw: "not_watched fd s" for s and w :: "'b net_scheme"
  proof (cases "server_valid s")
    case True
    from nw obtain i t m where p: "raw_sock s = fd" "poll_impl s = Some (Select_impl i t m)" "fd \<notin> i"
      by (auto simp: not_watched_def)
    have "fst (snd (os_select pf (trace w) i t stall)) \<subseteq> i" using assms by (simp add: select_answers_def)
    with p have "fd \<notin> fst (snd (os_select pf (trace w) i t stall))" by blast
    with True p show ?thesis by (intro select_poll_lost)
  next
    case False
    then show ?thesis using nw by (simp add: select_poll_def prog_simps)
  qed
  show ?thesis
    using step by (intro keeps_pairI) simp
qed

lemma plain_notify_keeps: "keeps P (sync_notify_poll (plain_sync pf))"
  unfolding sync_notify_poll_def plain_sync_def
  by (auto split: option.split intro!: hoare_rules)

lemma wait_time_keeps: "keeps (\<lambda>(s, w). Q s) (wait_time pf since)"
  unfolding wait_time_def by (auto split: option.split intro!: hoare_rules)

lemma sync_poll_keeps:
  assumes "select_answers pf"
  shows "keeps (\<lambda>(s, w). not_watched fd s) (sync_poll pf (plain_sync pf) rfuel n since)"
  unfolding sync_poll_def
proof (rule keeps_obj_id, goal_cases)
  case (1 s0)
  then obtain i t m where p: "poll_impl s0 = Some (Select_impl i t m)" by (auto simp: not_watched_def)
  show ?case
    unfolding p option.case poller.case
    by (auto intro!: hoare_rules wait_time_keeps select_poll_keeps [OF assms] plain_notify_keeps
        split: prod.split)
qed

lemma poll_loop_keeps:
  assumes "select_answers pf"
  shows "keeps (\<lambda>(s, w). not_watched fd s) (poll_loop pf (plain_sync pf) rfuel n k since)"
proof (induction k arbitrary: since)
  case 0
  show ?case by (auto intro!: hoare_rules)
next
  case (Suc k)
  show ?case by (simp, intro hoare_rules sync_poll_keeps [OF assms] Suc.IH)
qed

text \<open>
  C34: with \<open>select\<close> the server stops accepting after its first idle poll: \<open>select\<close> reports its
  answer in the set it is given, which is the server's only record of what to watch, so once a
  poll has found no pending connection the listening descriptor is not in the set, after that
  poll and after any number of polls that follow.
\<close>

theorem select_forgets_listener:
  assumes "select_answers pf" and "raw_sock s = fd" and "server_valid s"
    and "poll_impl s = Some (Select_impl i t m)"
    and "fd \<notin> fst (snd (os_select pf (trace w) i t stall))"
    and "select_poll pf (plain_sync pf) rfuel n stall (s, w) = (r, (s1, w1))"
  shows "\<exists>i' t' m'. poll_impl (fst (snd (poll_loop pf (plain_sync pf) rfuel n k since (s1, w1)))) =
      Some (Select_impl i' t' m') \<and> fd \<notin> i'"
proof -
  have "not_watched fd s1" using select_poll_lost [OF assms(2,4,3,5), of "plain_sync pf" rfuel n] assms(6) by simp
  then have "case snd (poll_loop pf (plain_sync pf) rfuel n k since (s1, w1)) of (s', w') \<Rightarrow> not_watched fd s'"
    using keeps_snd [OF poll_loop_keeps [OF assms(1)], of fd "(s1, w1)" rfuel n k since] by simp
  then show ?thesis by (auto simp: not_watched_def split: prod.splits)
qed

definition listening :: "poller \<Rightarrow> sync_server" where
  "listening p = (sync_default p)\<lparr>raw_sock := 4\<rparr>"

lemma listening_simps [simp]:
  "raw_sock (listening p) = 4" "server_valid (listening p)" "poll_impl (listening p) = Some p"
  "ssl (listening p) = None" "factory (listening p) = Some 0" "s_listeners (listening p) = []"
  by (simp_all add: listening_def sync_default_def server_default_def server.defs socket.defs socket_default_def
      server_valid_def is_valid_def INVALID_def)

lemma select_forgets_listener_witness:
  "\<exists>i' t' m'. poll_impl (fst (snd (poll_loop granting (plain_sync granting) 1 1 5 None
       (snd (select_poll granting (plain_sync granting) 1 1 None (listening (Select_impl {4} {} 4), net0)))))) =
     Some (Select_impl i' t' m') \<and> 4 \<notin> i'"
proof -
  have a: "select_answers granting" by (simp add: select_answers_def granting_def)
  obtain r s1 w1 where p: "select_poll granting (plain_sync granting) 1 1 None (listening (Select_impl {4} {} 4), net0) =
      (r, (s1, w1))"
    by (cases "select_poll granting (plain_sync granting) 1 1 None (listening (Select_impl {4} {} 4), net0)") auto
  have n: "4 \<notin> fst (snd (os_select granting (trace net0) {4} {} None))" by (simp add: granting_def)
  from select_forgets_listener [OF a listening_simps(1,2,3) n p] p show ?thesis by simp
qed

subsection \<open>\<open>epoll\<close> never hears of the connections\<close>

text \<open>The calls a server makes that neither transfer data nor watch another descriptor.\<close>

fun no_transfer :: "socket_fd \<Rightarrow> sysev \<Rightarrow> bool" where
  "no_transfer fd (Sys_send _ _ _ _) = False"
| "no_transfer fd (Sys_recv _ _ _ _) = False"
| "no_transfer fd (Ssl_write _ _ _ _) = False"
| "no_transfer fd (Ssl_read _ _ _) = False"
| "no_transfer fd (Sys_epoll_add _ fd' _) = (fd' = fd)"
| "no_transfer fd _ = True"

definition only_listens :: "socket_fd \<Rightarrow> history \<Rightarrow> 'w net_scheme \<Rightarrow> bool" where
  "only_listens fd tr w \<longleftrightarrow>
     smap_get (conns w) fd = None \<and> (\<exists>evs. trace w = tr @ evs \<and> (\<forall>ev\<in>set evs. no_transfer fd ev))"

abbreviation silent :: "socket_fd \<Rightarrow> history \<Rightarrow> 'o \<times> 'w net_scheme \<Rightarrow> bool" where
  "silent fd tr \<equiv> (\<lambda>(ob, w). only_listens fd tr w)"

lemma only_listens_record:
  "no_transfer fd ev \<Longrightarrow> only_listens fd tr w \<Longrightarrow> only_listens fd tr (record_call pf ev w)"
  by (auto simp: only_listens_def record_call_def)

lemma silent_call [hoare_rules]: "no_transfer fd ev \<Longrightarrow> keeps (silent fd tr) (call pf ev)"
  by (rule keeps_call) (auto intro: only_listens_record)

lemma silent_ask: "(\<And>r. no_transfer fd (ev r)) \<Longrightarrow> keeps (silent fd tr) (ask pf g ev)"
  by (rule keeps_ask) (auto intro: only_listens_record)

lemma silent_upd [hoare_rules]: "keeps (silent fd tr) (upd f)"
  by (rule keeps_upd) simp

lemma silent_wupd:
  "(\<And>w. conns (f w) = conns w \<and> trace (f w) = trace w) \<Longrightarrow> keeps (silent fd tr) (wupd f)"
  by (rule keeps_wupd) (simp add: only_listens_def)

lemma silent_on_conn:
  assumes "keeps (silent fd tr) m"
  shows "keeps (silent fd tr) (on_conn i m)"
proof -
  have "only_listens fd tr (snd (snd (on_conn i m (ob, w))))" if "only_listens fd tr w" for ob w
  proof (cases "smap_get (heap w) i")
    case None
    then show ?thesis using that by (simp add: on_conn_def)
  next
    case (Some c)
    have "only_listens fd tr (snd (snd (m (c, w))))"
      using keeps_snd [OF assms, of "(c, w)"] that by (simp add: split_beta)
    with Some show ?thesis by (simp add: on_conn_def split_beta only_listens_def)
  qed
  then show ?thesis
    by (intro keeps_pairI) (simp add: split_beta)
qed

lemma silent_on_ssl:
  assumes "keeps (silent fd tr) m"
  shows "keeps (silent fd tr) (on_ssl m)"
proof -
  have "only_listens fd tr (snd (snd (on_ssl m (s, w))))" if "only_listens fd tr w" for s w
  proof (cases "ssl s")
    case None
    then show ?thesis using that by (simp add: on_ssl_def)
  next
    case (Some l)
    with keeps_snd [OF assms, of "(l, w)"] that show ?thesis by (simp add: on_ssl_def split_beta)
  qed
  then show ?thesis
    by (intro keeps_pairI) (simp add: split_beta)
qed

lemma silent_shutdown: "keeps (silent fd tr) (layer_shutdown pf)"
  unfolding layer_shutdown_def by (auto split: option.split intro!: hoare_rules)

lemma silent_close [hoare_rules]: "keeps (silent fd tr) (socket_close pf)"
  unfolding socket_close_def by (auto intro!: hoare_rules silent_on_ssl silent_shutdown)

lemma silent_destroy [hoare_rules]: "keeps (silent fd tr) (socket_destroy pf)"
  unfolding socket_destroy_def set_ssl_def by (auto intro!: hoare_rules silent_on_ssl silent_shutdown)

lemma silent_non_blocking [hoare_rules]: "keeps (silent fd tr) (set_non_blocking pf b)"
  unfolding set_non_blocking_def Let_def by (auto intro!: hoare_rules silent_ask)

lemma silent_drop [hoare_rules]:
  "keeps (silent fd tr) (drop_conn pf i)" "keeps (silent fd tr) (release pf i)"
  by (auto simp: drop_conn_def release_def intro!: hoare_rules silent_on_conn silent_wupd)

text \<open>The object that the default factory makes.\<close>

lemma default_create_run:
  "\<exists>c w1. default_create pf sock a (s, w) = (Inr c, (s, w1)) \<and> raw_sock c = sock \<and> listeners c = []"
  by (auto simp: default_create_def set_non_blocking_def prog_simps Let_def buffered_of_raw_def socket.defs
      socket_of_raw_def)

lemma silent_create: "keeps (silent fd tr) (default_create pf sock a)"
proof -
  have "only_listens fd tr (snd (snd (default_create pf sock a (s, w))))" if "only_listens fd tr w" for s w
    using keeps_snd [OF silent_non_blocking, of fd tr "(buffered_of_raw sock a, w)" pf "non_blocking s"] that
    by (simp add: default_create_def split_beta split: sum.split)
  then show ?thesis
    by (intro keeps_pairI) (simp add: split_beta)
qed

text \<open>The server's own state during polling, and the world's.\<close>

definition watching :: "socket_fd \<Rightarrow> socket_fd \<Rightarrow> history \<Rightarrow> 'a sync_server_scheme \<times> 'w net_scheme \<Rightarrow> bool" where
  "watching fd ep tr = (\<lambda>(s, w). raw_sock s = fd \<and> poll_impl s = Some (Epoll_impl ep) \<and> only_listens fd tr w)"

lemma watching_split:
  assumes "keeps (silent fd tr) m" and "\<And>Q. keeps (\<lambda>(s, w). Q s) m"
  shows "keeps (watching fd ep tr) m"
proof -
  let ?Q = "\<lambda>s :: 'a sync_server_scheme. raw_sock s = fd \<and> poll_impl s = Some (Epoll_impl ep)"
  show ?thesis
  proof (rule keeps_pairI)
    fix s :: "'a sync_server_scheme" and w :: "'b net_scheme" assume W: "watching fd ep tr (s, w)"
    have "case snd (m (s, w)) of (s', w') \<Rightarrow> ?Q s'"
      by (rule keeps_snd [OF assms(2)]) (use W in \<open>simp add: watching_def\<close>)
    moreover have "silent fd tr (snd (m (s, w)))"
      by (rule keeps_snd [OF assms(1)]) (use W in \<open>simp add: watching_def\<close>)
    ultimately show "watching fd ep tr (snd (m (s, w)))"
      by (cases "snd (m (s, w))") (simp add: watching_def)
  qed
qed

lemma accept_conn_watching:
  assumes "sock \<noteq> fd"
  shows "keeps (watching fd ep tr) (accept_conn pf (plain_sync pf) sock a)"
proof -
  have "watching fd ep tr (snd (accept_conn pf (plain_sync pf) sock a (s, w)))"
    if W: "watching fd ep tr (s, w)" for s and w :: "'b net_scheme"
  proof (cases "has_factory s")
    case False
    with W show ?thesis
      by (simp add: accept_conn_def sync_on_accept_def server_on_accept_def prog_simps)
  next
    case True
    obtain c w1 where c: "default_create pf sock a (s, w) = (Inr c, (s, w1))" "raw_sock c = sock" "listeners c = []"
      using default_create_run by blast
    let ?i = "next_id w1"
    let ?w2 = "w1\<lparr>heap := smap_put ?i c (heap w1), next_id := Suc ?i\<rparr>"
    have w1: "only_listens fd tr w1"
      using keeps_snd [OF silent_create, of fd tr "(s, w)" pf sock a] W c(1) by (simp add: watching_def)
    have g: "smap_get (heap ?w2) ?i = Some c" by simp
    have nt: "notify (cleanup_vtable idle_vtable) Connected (c, ?w2) = (Inr (), (c, ?w2))"
      using c(3) by (simp add: notify_def prog_simps cleanup_vtable_def idle_vtable_def)
    let ?w3 = "?w2\<lparr>heap := smap_put ?i c (heap ?w2)\<rparr>"
    have acc: "server_on_accept (plain_sync pf) sock a (s, w) = (Inr ?i, (s, ?w3))"
      using True c(1) g nt by (auto simp: server_on_accept_def plain_sync_def prog_simps new_conn_def on_conn_def)
    have w3: "only_listens fd tr ?w3" "smap_get (heap ?w3) ?i = Some c"
      using w1 by (simp_all add: only_listens_def)
    have put: "keeps (silent fd tr) (wupd (\<lambda>w. w\<lparr>conns := smap_put sock i (conns w)\<rparr>))" for i
      by (rule keeps_wupd) (use assms in \<open>auto simp: only_listens_def sm.get_put\<close>)
    let ?tail = "pthen (if \<not> is_valid c then pret () else
        pthen (on_conn ?i (add_listener (Some 0)))
       (pbind (find_socket (raw_sock c)) (\<lambda>old.
        pthen (wupd (\<lambda>w. w\<lparr>conns := smap_put (raw_sock c) ?i (conns w)\<rparr>))
          (case old of None \<Rightarrow> pret () | Some j \<Rightarrow> release pf j)))) (pbind (pret ?i) (release pf))"
    let ?w4 = "?w3\<lparr>heap := smap_put ?i c (heap ?w3)\<rparr>"
    have run: "accept_conn pf (plain_sync pf) sock a (s, w) = ?tail (s, ?w4)"
      using acc w3(2) by (simp add: accept_conn_def sync_on_accept_def add_socket_def prog_simps on_conn_def
          split: sum.split prod.split)
    have "keeps (silent fd tr) (on_conn ?i (add_listener (Some 0)))"
      by (rule silent_on_conn) (auto simp: add_listener_def intro!: hoare_rules)
    then have "keeps (silent fd tr) ?tail"
      unfolding c(2) by (auto simp: find_socket_def split: option.split intro!: hoare_rules put)
    moreover have "keeps (\<lambda>(s, w). Q s) ?tail" for Q
      by (auto split: option.split intro!: hoare_rules)
    ultimately have "keeps (watching fd ep tr) ?tail" by (rule watching_split)
    moreover have "watching fd ep tr (s, ?w4)" using W w3(1) by (simp add: watching_def only_listens_def)
    ultimately show ?thesis unfolding run by (rule keeps_snd)
  qed
  then show ?thesis by (rule keeps_pairI)
qed

text \<open>
  What the kernel documents: \<open>epoll_wait\<close> reports descriptors that were added to the instance,
  and a descriptor that \<open>accept\<close> returns is not the listening one.
\<close>

definition epoll_reports_added :: "platform \<Rightarrow> bool" where
  "epoll_reports_added pf \<longleftrightarrow>
     (\<forall>tr ep t fd m. (fd, m) \<in> set (snd (os_epoll_wait pf tr ep t)) \<longrightarrow> (\<exists>e r. Sys_epoll_add e fd r \<in> set tr))"

definition accept_is_new :: "platform \<Rightarrow> bool" where
  "accept_is_new pf \<longleftrightarrow> (\<forall>tr fd. fst (os_accept pf tr fd) \<noteq> fd)"

lemma epoll_event_watching:
  assumes "accept_is_new pf"
  shows "keeps (watching fd ep tr) (epoll_event pf (plain_sync pf) rfuel (fd, m))"
proof -
  have "watching fd ep tr (snd (epoll_event pf (plain_sync pf) rfuel (fd, m) (s, w)))"
    if W: "watching fd ep tr (s, w)" for s and w :: "'b net_scheme"
  proof -
    have none: "smap_get (conns w) fd = None" "raw_sock s = fd"
      using W by (simp_all add: watching_def only_listens_def)
    consider "flag m EPOLLERR" | "\<not> flag m EPOLLERR" "flag m EPOLLIN"
      | "\<not> flag m EPOLLERR" "\<not> flag m EPOLLIN" by blast
    then show ?thesis
    proof cases
      case 2
      obtain infd a where o: "os_accept pf (trace w) fd = (infd, a)" by (cases "os_accept pf (trace w) fd")
      have ne: "infd \<noteq> fd" using assms o unfolding accept_is_new_def by (metis fst_conv)
      let ?w = "record_call pf (Sys_accept fd infd) w"
      have W1: "watching fd ep tr (s, ?w)" using W by (auto simp: watching_def intro: only_listens_record)
      have "epoll_event pf (plain_sync pf) rfuel (fd, m) (s, w) =
          (if infd = INVALID then pret () else accept_conn pf (plain_sync pf) infd a) (s, ?w)"
        using 2 none(2) o by (simp add: epoll_event_def prog_simps socket_accept_def)
      then show ?thesis
        using W1 keeps_snd [OF accept_conn_watching [OF ne] W1, of pf a]
        by (cases "infd = INVALID") (simp_all add: prog_simps)
    qed (use W none in \<open>simp_all add: epoll_event_def prog_simps find_socket_def epoll_write_def\<close>)
  qed
  then show ?thesis by (rule keeps_pairI)
qed

lemma epoll_poll_watching:
  assumes "accept_is_new pf" and "epoll_reports_added pf" and "\<forall>ev\<in>set tr. no_transfer fd ev"
  shows "keeps (watching fd ep tr) (epoll_poll pf (plain_sync pf) rfuel ep stall)"
proof -
  have "watching fd ep tr (snd (epoll_poll pf (plain_sync pf) rfuel ep stall (s, w)))"
    if W: "watching fd ep tr (s, w)" for s and w :: "'b net_scheme"
  proof -
    obtain n events where o: "os_epoll_wait pf (trace w) ep (epoll_timeout stall) = (n, events)"
      by (cases "os_epoll_wait pf (trace w) ep (epoll_timeout stall)")
    have only: "fd' = fd" if e: "(fd', m) \<in> set events" for fd' m
    proof -
      have "(fd', m) \<in> set (snd (os_epoll_wait pf (trace w) ep (epoll_timeout stall)))" using e o by simp
      then obtain e r where "Sys_epoll_add e fd' r \<in> set (trace w)"
        using assms(2) unfolding epoll_reports_added_def by blast
      moreover have "\<forall>ev\<in>set (trace w). no_transfer fd ev"
        using W assms(3) by (auto simp: watching_def only_listens_def)
      ultimately show ?thesis by fastforce
    qed
    let ?evs = "take (min (nat n) MAXEVENTS) events"
    have all: "keeps (watching fd ep tr) (piter (epoll_event pf (plain_sync pf) rfuel) evs)"
      if "set evs \<subseteq> set events" for evs
      using that
    proof (induction evs)
      case (Cons x evs)
      obtain fd' m where x: "x = (fd', m)" by (cases x)
      then have "fd' = fd" using Cons.prems only by auto
      with Cons x epoll_event_watching [OF assms(1)] show ?case by (auto intro!: hoare_rules)
    qed (auto intro: hoare_rules)
    let ?w = "record_call pf (Sys_epoll_wait ep (epoll_timeout stall) n) w"
    have W1: "watching fd ep tr (s, ?w)" using W by (auto simp: watching_def intro: only_listens_record)
    have "set ?evs \<subseteq> set events" by (rule set_take_subset)
    from keeps_snd [OF all [OF this] W1] W W1 o show ?thesis
      by (cases "n = INVALID"; cases "server_valid s"; cases "ep = INVALID")
        (simp_all add: epoll_poll_def prog_simps)
  qed
  then show ?thesis by (rule keeps_pairI)
qed

lemma sync_poll_watching:
  assumes "accept_is_new pf" and "epoll_reports_added pf" and "\<forall>ev\<in>set tr. no_transfer fd ev"
  shows "keeps (watching fd ep tr) (sync_poll pf (plain_sync pf) rfuel n since)"
proof -
  have wt: "keeps (watching fd ep tr) (wait_time pf since)"
    by (rule watching_split)
      (auto simp: wait_time_def split: option.split intro!: hoare_rules silent_ask)
  have "watching fd ep tr (snd (sync_poll pf (plain_sync pf) rfuel n since (s, w)))"
    if W: "watching fd ep tr (s, w)" for s and w :: "'b net_scheme"
  proof -
    let ?body = "pbind (wait_time pf since) (\<lambda>(stall, since').
        pthen (epoll_poll pf (plain_sync pf) rfuel ep stall)
       (pthen (sync_notify_poll (plain_sync pf)) (pret since')))"
    have "keeps (watching fd ep tr) ?body"
      by (auto split: prod.split intro!: hoare_rules wt epoll_poll_watching assms plain_notify_keeps)
    from keeps_snd [OF this W] W show ?thesis
      by (simp add: sync_poll_def prog_simps watching_def)
  qed
  then show ?thesis by (rule keeps_pairI)
qed

lemma poll_loop_watching:
  assumes "accept_is_new pf" and "epoll_reports_added pf" and "\<forall>ev\<in>set tr. no_transfer fd ev"
  shows "keeps (watching fd ep tr) (poll_loop pf (plain_sync pf) rfuel n k since)"
proof (induction k arbitrary: since)
  case 0
  show ?case by (auto intro!: hoare_rules)
next
  case (Suc k)
  show ?case by (simp, intro hoare_rules sync_poll_watching [OF assms] Suc.IH)
qed

text \<open>
  C33: with \<open>epoll\<close> a plain server accepts but never serves: with the default factory and without
  listeners or hooks of a user, starting with no connection, over a kernel that reports only descriptors that
  were added to the instance and gives accepted connections descriptors other than the listening
  one, only the listening descriptor is ever added, so that however long it polls and whatever the
  peers send, no call that reads from or writes to a connection is made. (A listener or a factory
  of the user may write to a connection when it is made.)
\<close>

theorem epoll_server_never_reads:
  assumes "accept_is_new pf" and "epoll_reports_added pf"
    and "raw_sock s = fd" and "poll_impl s = Some (Epoll_impl ep)" and "conns w = []"
    and "\<forall>ev\<in>set (trace w). no_transfer fd ev"
    and "poll_loop pf (plain_sync pf) rfuel n k since (s, w) = (r, (s', w'))"
  shows "\<forall>ev\<in>set (trace w'). no_transfer fd ev"
proof -
  have "watching fd ep (trace w) (s, w)"
    using assms(3-5) by (simp add: watching_def only_listens_def smap_get_def)
  from keeps_snd [OF poll_loop_watching [OF assms(1,2,6)] this, of rfuel n k since] assms(6,7) show ?thesis
    by (auto simp: watching_def only_listens_def)
qed

definition busy_kernel :: platform where
  "busy_kernel = granting\<lparr>os_epoll_wait := (\<lambda>tr _ _. if Sys_epoll_add 3 4 0 \<in> set tr then (1, [(4, 1)]) else (0, [])),
     os_accept := (\<lambda>_ fd. (fd + 1, local_addr))\<rparr>"

lemma epoll_server_never_reads_witness:
  "list_all (no_transfer 4) (trace (snd (snd (poll_loop busy_kernel (plain_sync busy_kernel) 1 1 3 None
       (listening (Epoll_impl 3), net0\<lparr>trace := [Sys_epoll_add 3 4 0]\<rparr>)))))"
proof -
  have k: "accept_is_new busy_kernel" "epoll_reports_added busy_kernel"
    by (auto simp: accept_is_new_def epoll_reports_added_def busy_kernel_def split: if_splits)
  let ?w = "net0\<lparr>trace := [Sys_epoll_add 3 4 0]\<rparr>"
  have w: "conns ?w = []" "\<forall>ev\<in>set (trace ?w). no_transfer 4 ev"
    by (simp_all add: net0_def world.defs)
  obtain r s' w' where p: "poll_loop busy_kernel (plain_sync busy_kernel) 1 1 3 None (listening (Epoll_impl 3), ?w) =
      (r, (s', w'))"
    by (cases "poll_loop busy_kernel (plain_sync busy_kernel) 1 1 3 None (listening (Epoll_impl 3), ?w)") auto
  from epoll_server_never_reads [OF k listening_simps(1,3) w p] p show ?thesis by (simp add: list_all_iff)
qed

end
