(* ===== verification/Sync_Facts.thy ===== *)
theory Sync_Facts
  imports Poll_Facts
begin

section \<open>The table of connections and what the synchronous server owns\<close>

text \<open>
  The invariant of a plain synchronous server: the table and the heap of connections agree, and
  the process holds the server's own descriptor and one for each connection that is open,
  nothing else. Both polling implementations keep it, whatever the kernel answers, and stopping
  the server gives everything back.
\<close>

definition held_by :: "(conn_id, buffered) smap \<Rightarrow> socket_fd multiset" where
  "held_by h = (\<Sum>(i, c)\<leftarrow>h. held c)"

lemma held_fields [simp]:
  "held (s\<lparr>inBuffer := x\<rparr>) = held s" "held (s\<lparr>outBuffer := x\<rparr>) = held s" "held (s\<lparr>listeners := y\<rparr>) = held s"
  by (simp_all add: held_def is_valid_def)

lemma held_by_new:
  "smap_get h i = None \<Longrightarrow> held_by (smap_put i c h) = held_by h + held c"
  by (induction i c h rule: smap_put.induct) (auto simp: held_by_def smap_get_def split: if_splits)

lemma held_by_put:
  assumes "smap_get h i = Some c"
  shows "smap_ok h \<Longrightarrow> held_by (smap_put i c' h) + held c = held_by h + held c'"
  using assms
proof (induction i c' h rule: smap_put.induct)
  case (2 k v k' v' m)
  then show ?case
    by (cases "k = k'"; cases "k < k'")
      (auto simp: held_by_def smap_get_def smap_ok_def ac_simps dest!: map_of_SomeD)
qed (simp add: smap_get_def)

lemma held_by_erase:
  assumes "smap_get h i = Some c" and "smap_ok h"
  shows "held_by (smap_erase i h) + held c = held_by h"
  using assms
proof (induction h)
  case (Cons x h)
  obtain k v where x: "x = (k, v)" by (cases x)
  show ?case
  proof (cases "k = i")
    case True
    have "\<forall>(k', _)\<in>set h. k' \<noteq> i" using Cons.prems(2) True x by (auto simp: smap_ok_def)
    then have "smap_erase i h = h" by (auto simp: smap_erase_def filter_id_conv)
    with Cons.prems(1) True x show ?thesis by (simp add: held_by_def smap_erase_def smap_get_def)
  next
    case False
    with Cons x show ?thesis by (simp add: held_by_def smap_erase_def smap_get_def smap_ok_def ac_simps)
  qed
qed (simp add: smap_get_def)

lemma held_by_erase_none: "smap_get h i = None \<Longrightarrow> smap_erase i h = h"
  by (auto simp: smap_erase_def smap_get_def filter_id_conv map_of_eq_None_iff image_iff)

subsection \<open>The table\<close>

definition conn_plain :: "'a buffered_scheme \<Rightarrow> bool" where
  "conn_plain c \<longleftrightarrow> ssl c = None \<and> set (listeners c) \<subseteq> {Some 0}"

text \<open>
  Every entry of the table names an object of the heap, keyed by the descriptor it holds; no
  object has two entries, and those that have none are in \<open>T\<close>, the pointers in use.
\<close>

definition table_ok :: "conn_id set \<Rightarrow> 'w net_scheme \<Rightarrow> bool" where
  "table_ok T w \<longleftrightarrow> smap_ok (conns w) \<and> smap_ok (heap w) \<and>
     (\<forall>i c. smap_get (heap w) i = Some c \<longrightarrow> i < next_id w \<and> conn_plain c) \<and>
     (\<forall>fd i. smap_get (conns w) fd = Some i \<longrightarrow>
        (\<exists>c. smap_get (heap w) i = Some c \<and> (is_valid c \<longrightarrow> raw_sock c = fd))) \<and>
     (\<forall>fd fd' i. smap_get (conns w) fd = Some i \<longrightarrow> smap_get (conns w) fd' = Some i \<longrightarrow> fd = fd') \<and>
     (\<forall>i. smap_get (heap w) i \<noteq> None \<longrightarrow> i \<in> T \<or> (\<exists>fd. smap_get (conns w) fd = Some i))"

definition net_inv :: "socket_fd multiset \<Rightarrow> conn_id set \<Rightarrow> 'a server_scheme \<times> 'w net_scheme \<Rightarrow> bool" where
  "net_inv B T = (\<lambda>(s, w). has_factory s \<and> smap_get (s_listeners s) None = None \<and> table_ok T w \<and>
     open_fds (trace w) = B + held s + held_by (heap w))"

lemma table_okD:
  assumes "table_ok T w"
  shows "smap_ok (conns w)" "smap_ok (heap w)"
    "smap_get (heap w) i = Some c \<Longrightarrow> i < next_id w" "smap_get (heap w) i = Some c \<Longrightarrow> conn_plain c"
    "smap_get (conns w) fd = Some i \<Longrightarrow> \<exists>c. smap_get (heap w) i = Some c \<and> (is_valid c \<longrightarrow> raw_sock c = fd)"
    "smap_get (conns w) fd = Some i \<Longrightarrow> smap_get (conns w) fd' = Some i \<Longrightarrow> fd = fd'"
    "smap_get (heap w) i \<noteq> None \<Longrightarrow> i \<in> T \<or> (\<exists>fd. smap_get (conns w) fd = Some i)"
  using assms unfolding table_ok_def by blast+

lemma table_ok_mono: "table_ok T w \<Longrightarrow> T \<subseteq> T' \<Longrightarrow> table_ok T' w"
  unfolding table_ok_def by blast

lemma table_ok_world:
  "conns w' = conns w \<Longrightarrow> heap w' = heap w \<Longrightarrow> next_id w' = next_id w \<Longrightarrow> table_ok T w' = table_ok T w"
  by (simp add: table_ok_def)

text \<open>A connection changes in place.\<close>

lemma table_ok_put:
  assumes "table_ok T w" and "smap_get (heap w) i = Some c" and "conn_plain c'"
    and "is_valid c' \<Longrightarrow> is_valid c \<and> raw_sock c' = raw_sock c"
  shows "table_ok T (w\<lparr>heap := smap_put i c' (heap w)\<rparr>)"
  using assms unfolding table_ok_def by (auto simp: sm.get_put smap_put_ok split: if_splits; fastforce)

lemma table_ok_new:
  assumes "table_ok T w" and "conn_plain c"
  shows "table_ok (insert (next_id w) T) (w\<lparr>heap := smap_put (next_id w) c (heap w), next_id := Suc (next_id w)\<rparr>)"
    and "smap_get (heap w) (next_id w) = None" and "smap_get (conns w) fd \<noteq> Some (next_id w)"
proof -
  show n: "smap_get (heap w) (next_id w) = None"
    using table_okD(3) [OF assms(1)] by (cases "smap_get (heap w) (next_id w)") auto
  then show "smap_get (conns w) fd \<noteq> Some (next_id w)"
    using table_okD(5) [OF assms(1)] by fastforce
  show "table_ok (insert (next_id w) T) (w\<lparr>heap := smap_put (next_id w) c (heap w), next_id := Suc (next_id w)\<rparr>)"
    using assms n unfolding table_ok_def by (auto simp: sm.get_put smap_put_ok less_Suc_eq split: if_splits; fastforce)
qed

lemma table_ok_drop:
  assumes "table_ok (insert i T) w" and "\<forall>fd. smap_get (conns w) fd \<noteq> Some i"
  shows "table_ok T (w\<lparr>heap := smap_erase i (heap w)\<rparr>)"
  using assms unfolding table_ok_def by (auto simp: sm.get_erase smap_erase_ok split: if_splits; fastforce)

lemma table_okI:
  assumes "smap_ok (conns w)" and "smap_ok (heap w)"
    and "\<And>i c. smap_get (heap w) i = Some c \<Longrightarrow> i < next_id w \<and> conn_plain c"
    and "\<And>fd i. smap_get (conns w) fd = Some i \<Longrightarrow>
      \<exists>c. smap_get (heap w) i = Some c \<and> (is_valid c \<longrightarrow> raw_sock c = fd)"
    and "\<And>fd fd' i. smap_get (conns w) fd = Some i \<Longrightarrow> smap_get (conns w) fd' = Some i \<Longrightarrow> fd = fd'"
    and "\<And>i. smap_get (heap w) i \<noteq> None \<Longrightarrow> i \<in> T \<or> (\<exists>fd. smap_get (conns w) fd = Some i)"
  shows "table_ok T w"
  using assms unfolding table_ok_def by blast

text \<open>The entry of \<open>fd\<close> goes: its object is one that is in use.\<close>

lemma table_ok_erase:
  assumes "table_ok T w" and "\<And>j. smap_get (conns w) fd = Some j \<Longrightarrow> j \<in> T"
  shows "table_ok T (w\<lparr>conns := smap_erase fd (conns w)\<rparr>)"
proof (rule table_okI)
  fix i assume "smap_get (heap (w\<lparr>conns := smap_erase fd (conns w)\<rparr>)) i \<noteq> None"
  with table_okD(7) [OF assms(1), of i] have "i \<in> T \<or> (\<exists>fd. smap_get (conns w) fd = Some i)" by simp
  then show "i \<in> T \<or> (\<exists>fd'. smap_get (conns (w\<lparr>conns := smap_erase fd (conns w)\<rparr>)) fd' = Some i)"
  proof
    assume "\<exists>fd. smap_get (conns w) fd = Some i"
    then obtain k where "smap_get (conns w) k = Some i" by blast
    with assms(2) [of i] show ?thesis by (cases "k = fd") (auto simp: sm.get_erase)
  qed simp
next
  fix fd' i assume "smap_get (conns (w\<lparr>conns := smap_erase fd (conns w)\<rparr>)) fd' = Some i"
  then show "\<exists>c. smap_get (heap (w\<lparr>conns := smap_erase fd (conns w)\<rparr>)) i = Some c \<and> (is_valid c \<longrightarrow> raw_sock c = fd')"
    using table_okD(5) [OF assms(1)] by (simp add: sm.get_erase split: if_splits)
qed (use table_okD(1-4,6) [OF assms(1)] in \<open>auto simp: sm.get_erase smap_erase_ok split: if_splits\<close>)

lemma table_ok_enter:
  assumes "table_ok (insert i T) w" and "smap_get (heap w) i = Some c" and "raw_sock c = fd"
    and "\<And>fd. smap_get (conns w) fd \<noteq> Some i"
  shows "table_ok (T \<union> set_option (smap_get (conns w) fd)) (w\<lparr>conns := smap_put fd i (conns w)\<rparr>)"
proof (rule table_okI)
  fix j assume "smap_get (heap (w\<lparr>conns := smap_put fd i (conns w)\<rparr>)) j \<noteq> None"
  with table_okD(7) [OF assms(1), of j]
  show "j \<in> T \<union> set_option (smap_get (conns w) fd) \<or>
      (\<exists>fd'. smap_get (conns (w\<lparr>conns := smap_put fd i (conns w)\<rparr>)) fd' = Some j)"
    by (auto simp: sm.get_put)
next
  fix fd' j assume "smap_get (conns (w\<lparr>conns := smap_put fd i (conns w)\<rparr>)) fd' = Some j"
  then show "\<exists>c. smap_get (heap (w\<lparr>conns := smap_put fd i (conns w)\<rparr>)) j = Some c \<and> (is_valid c \<longrightarrow> raw_sock c = fd')"
    using table_okD(5) [OF assms(1)] assms(2,3) by (auto simp: sm.get_put split: if_splits)
next
  fix fd1 fd2 j
  assume "smap_get (conns (w\<lparr>conns := smap_put fd i (conns w)\<rparr>)) fd1 = Some j"
    "smap_get (conns (w\<lparr>conns := smap_put fd i (conns w)\<rparr>)) fd2 = Some j"
  then show "fd1 = fd2"
    using table_okD(6) [OF assms(1)] assms(4) by (auto simp: sm.get_put split: if_splits)
qed (use table_okD(1-4) [OF assms(1)] in \<open>auto simp: smap_put_ok\<close>)

subsection \<open>Operations of a connection\<close>

text \<open>Programs that leave the descriptor of a connection, the table and the heap alone.\<close>

definition calm :: "buffered \<Rightarrow> 'w net_scheme \<Rightarrow> buffered \<times> 'w net_scheme \<Rightarrow> bool" where
  "calm c0 w0 = (\<lambda>(c, w). raw_sock c = raw_sock c0 \<and> conn_plain c \<and> conns w = conns w0 \<and>
     heap w = heap w0 \<and> next_id w = next_id w0 \<and> open_fds (trace w) = open_fds (trace w0))"

lemma calm_refl: "conn_plain c \<Longrightarrow> calm c w (c, w)"
  by (simp add: calm_def)

lemma calm_ask: "(\<And>r M. fd_effect (ev r) M = M) \<Longrightarrow> keeps (calm c0 w0) (ask pf g ev)"
  by (rule keeps_ask) (simp add: calm_def record_call_def)

lemma calm_upd [hoare_rules]:
  "keeps (calm c0 w0) (upd (\<lambda>s. s\<lparr>inBuffer := f s\<rparr>))"
  "keeps (calm c0 w0) (upd (\<lambda>s. s\<lparr>outBuffer := f s\<rparr>))"
  by (rule keeps_upd; simp add: calm_def conn_plain_def)+

lemma calm_call: "(\<And>M. fd_effect ev M = M) \<Longrightarrow> keeps (calm c0 w0) (call pf ev)"
  by (rule keeps_call) (simp add: calm_def record_call_def)

lemma calm_on_ssl [hoare_rules]: "keeps (calm c0 w0) (on_ssl m)"
  by (rule keeps_pairI) (auto simp: on_ssl_def calm_def conn_plain_def)

abbreviation conn_table :: "'w conn_vtable" where
  "conn_table \<equiv> cleanup_vtable idle_vtable"

lemma conn_table_simps [simp]:
  "v_on_recv conn_table = pret" "v_hook conn_table ev = pret ()"
  "v_listener conn_table i ev = (if i = 0 \<and> ev = Closed then cleanup else pret ())"
  by (auto simp: cleanup_vtable_def idle_vtable_def fun_eq_iff socket_on_recv_def)

lemma calm_notify [hoare_rules]: "ev \<noteq> Closed \<Longrightarrow> keeps (calm c0 w0) (notify conn_table ev)"
  unfolding notify_def call_listener_def by (auto split: option.split intro!: hoare_rules)

lemma calm_read_chunk [hoare_rules]: "keeps (calm c0 w0) (read_chunk pf conn_table chunk)"
  unfolding read_chunk_def socket_recv_def Let_def
  by (auto intro!: hoare_rules calm_ask)

lemma calm_read_loop [hoare_rules]: "keeps (calm c0 w0) (read_loop pf conn_table fuel chunk)"
  by (induction fuel arbitrary: chunk) (auto intro!: hoare_rules)

lemma calm_read_to_buffer [hoare_rules]: "keeps (calm c0 w0) (read_to_buffer pf conn_table fuel)"
  unfolding read_to_buffer_def by (auto intro!: hoare_rules)

lemma calm_write_from_buffer [hoare_rules]: "keeps (calm c0 w0) (write_from_buffer pf conn_table)"
  unfolding write_from_buffer_def send_buffer_def socket_send_def Let_def
  by (auto intro!: hoare_rules calm_ask)

lemma calm_obj [hoare_rules]: "keeps (calm c0 w0) (obj f)"
  by (rule keeps_obj)

lemma calm_add_listener: "keeps (calm c0 w0) (add_listener (Some 0))"
  by (rule keeps_pairI) (auto simp: add_listener_def prog_simps calm_def conn_plain_def)

text \<open>Such a program run on a connection keeps the invariant of the server.\<close>

lemma held_by_swap:
  assumes "smap_ok h" and "smap_get h i = Some c" and "held c' = held c"
  shows "held_by (smap_put i c' h) = held_by h"
  using held_by_put [OF assms(2,1), of c'] assms(3) by simp

lemma on_conn_calm:
  assumes "\<And>c0 w0. keeps (calm c0 (w0 :: 'w net_scheme)) m"
    and "net_inv B T (s :: 'a server_scheme, w :: 'w net_scheme)"
  shows "net_inv B T (snd (on_conn i m (s, w)))"
    and "fst (snd (on_conn i m (s, w))) = s" and "conns (snd (snd (on_conn i m (s, w)))) = conns w"
proof -
  have "net_inv B T (snd (on_conn i m (s, w))) \<and> fst (snd (on_conn i m (s, w))) = s \<and>
    conns (snd (snd (on_conn i m (s, w)))) = conns w"
  proof (cases "smap_get (heap w) i")
    case None
    then show ?thesis using assms(2) by (simp add: on_conn_def)
  next
    case (Some c)
    note t = assms(2) [unfolded net_inv_def, simplified]
    have p: "conn_plain c" using table_okD(4) Some t by blast
    obtain r c' w' where m: "m (c, w) = (r, (c', w'))" by (cases "m (c, w)") auto
    have k: "raw_sock c' = raw_sock c" "conn_plain c'" "conns w' = conns w" "heap w' = heap w"
      "next_id w' = next_id w" "open_fds (trace w') = open_fds (trace w)"
      using keeps_snd [OF assms(1) calm_refl [OF p], of w] m by (simp_all add: calm_def)
    have "table_ok T (w'\<lparr>heap := smap_put i c' (heap w')\<rparr>)"
      using table_ok_put [of T w' i c c'] t Some k by (simp add: table_ok_world [of w' w] is_valid_def)
    moreover have "held_by (smap_put i c' (heap w)) = held_by (heap w)"
      using t table_okD(2) Some k(1) by (intro held_by_swap) (auto simp: held_def is_valid_def)
    ultimately show ?thesis
      using t k m Some by (simp add: on_conn_def net_inv_def)
  qed
  then show "net_inv B T (snd (on_conn i m (s, w)))"
    "fst (snd (on_conn i m (s, w))) = s" "conns (snd (snd (on_conn i m (s, w)))) = conns w" by simp_all
qed

lemma keeps_on_conn: "(\<And>c0 w0. keeps (calm c0 w0) m) \<Longrightarrow> keeps (net_inv B T) (on_conn i m)"
  by (rule keeps_pairI) (rule on_conn_calm(1))

subsection \<open>Pointers that come and go\<close>

lemma plain_destroy:
  assumes "conn_plain c"
  shows "\<exists>c' w'. socket_destroy pf (c, w) = (Inr (), (c', w')) \<and> \<not> is_valid c' \<and>
    conns w' = conns w \<and> heap w' = heap w \<and> next_id w' = next_id w \<and>
    open_fds (trace w') = open_fds (trace w) - held c"
  using assms
  by (cases "raw_sock c = INVALID")
    (auto simp: socket_destroy_def socket_close_def set_ssl_def prog_simps conn_plain_def held_def is_valid_def
      record_call_def)

lemma drop_conn_inv:
  assumes "net_inv B (insert i T) (s, w)" and "\<And>fd. smap_get (conns w) fd \<noteq> Some i"
  shows "\<exists>r w'. drop_conn pf i (s, w) = (r, (s, w')) \<and> net_inv B T (s, w') \<and> conns w' = conns w \<and>
    (smap_get (heap w) i \<noteq> None \<longrightarrow> r = Inr () \<and> heap w' = smap_erase i (heap w))"
proof (cases "smap_get (heap w) i")
  case None
  then have "table_ok T w"
    using assms table_ok_drop [of i T w] by (simp add: net_inv_def held_by_erase_none)
  with None assms show ?thesis by (simp add: drop_conn_def on_conn_def prog_simps net_inv_def)
next
  case (Some c)
  note t = assms(1) [unfolded net_inv_def, simplified]
  have "conn_plain c" using table_okD(4) Some t by blast
  then obtain c' w1 where d: "socket_destroy pf (c, w) = (Inr (), (c', w1))" "\<not> is_valid c'"
    "conns w1 = conns w" "heap w1 = heap w" "next_id w1 = next_id w"
    "open_fds (trace w1) = open_fds (trace w) - held c"
    using plain_destroy by blast
  let ?w2 = "w1\<lparr>heap := smap_erase i (heap w)\<rparr>"
  have er: "smap_erase i (smap_put i c' (heap w)) = smap_erase i (heap w)"
    using t by (intro smap_ext) (auto simp: smap_erase_ok smap_put_ok sm.get_erase sm.get_put table_okD(2))
  have run: "drop_conn pf i (s, w) = (Inr (), (s, ?w2))"
    using Some d er by (simp add: drop_conn_def on_conn_def prog_simps)
  have "table_ok T ?w2"
    using table_ok_drop [of i T w] t assms(2) d
    by (simp add: table_ok_world [of ?w2 "w\<lparr>heap := smap_erase i (heap w)\<rparr>"])
  moreover have h: "held_by (smap_erase i (heap w)) + held c = held_by (heap w)"
    using held_by_erase [OF Some] t table_okD(2) by blast
  have "open_fds (trace w) = (B + held s + held_by (smap_erase i (heap w))) + held c"
    using t h by (simp add: ac_simps)
  then have "open_fds (trace w1) = B + held s + held_by (smap_erase i (heap w))"
    unfolding d(6) by simp
  ultimately have "net_inv B T (s, ?w2)" using t by (simp add: net_inv_def)
  with run d show ?thesis by simp
qed

lemma release_inv:
  assumes "net_inv B (insert i T) (s, w)"
  shows "\<exists>r w'. release pf i (s, w) = (r, (s, w')) \<and> net_inv B T (s, w') \<and> conns w' = conns w"
proof -
  note t = assms [unfolded net_inv_def, simplified]
  have m: "i \<in> snd ` set (conns w) \<longleftrightarrow> (\<exists>fd. smap_get (conns w) fd = Some i)"
    using t by (force simp: smap_get_set [OF table_okD(1)])
  show ?thesis
  proof (cases "i \<in> snd ` set (conns w)")
    case True
    then have "table_ok T w" using t m unfolding table_ok_def by blast
    with True t show ?thesis by (simp add: release_def prog_simps net_inv_def)
  next
    case False
    then have "release pf i (s, w) = drop_conn pf i (s, w)" by (simp add: release_def prog_simps)
    with drop_conn_inv [OF assms, of pf] False m show ?thesis by (metis (no_types))
  qed
qed

lemma remove_socket_inv: "keeps (net_inv B T) (remove_socket pf fd)"
proof (rule keeps_pairI)
  fix s :: "'a server_scheme" and w :: "'b net_scheme" assume I: "net_inv B T (s, w)"
  let ?w = "w\<lparr>conns := smap_erase fd (conns w)\<rparr>"
  show "net_inv B T (snd (remove_socket pf fd (s, w)))"
  proof (cases "smap_get (conns w) fd")
    case None
    with I have "table_ok T ?w" by (intro table_ok_erase) (auto simp: net_inv_def)
    with None I show ?thesis by (simp add: remove_socket_def find_socket_def prog_simps net_inv_def)
  next
    case (Some i)
    have "table_ok (insert i T) ?w"
      using I Some by (intro table_ok_erase) (auto simp: net_inv_def intro: table_ok_mono)
    then have "net_inv B (insert i T) (s, ?w)" using I by (simp add: net_inv_def)
    from release_inv [OF this, of pf] Some show ?thesis
      by (auto simp: remove_socket_def find_socket_def prog_simps)
  qed
qed

subsection \<open>Accepting\<close>

lemma default_create_plain:
  "\<exists>c w1. default_create pf sock a (s, w) = (Inr c, (s, w1)) \<and> raw_sock c = sock \<and> ssl c = None \<and>
     listeners c = [] \<and> conns w1 = conns w \<and> heap w1 = heap w \<and> next_id w1 = next_id w \<and>
     open_fds (trace w1) = open_fds (trace w)"
  by (auto simp: default_create_def set_non_blocking_def prog_simps Let_def buffered_of_raw_def socket.defs
      socket_of_raw_def record_call_def)

lemma on_accept_inv:
  assumes "net_inv (B + {#sock#}) T (s, w)" and "sock \<noteq> INVALID"
    and "sv_create vt = (\<lambda>_. default_create pf)" and "v_hook (sv_conn vt) Connected = pret ()"
  shows "\<exists>i w1 c. server_on_accept vt sock a (s, w) = (Inr i, (s, w1)) \<and> conns w1 = conns w \<and>
    net_inv B (insert i T) (s, w1) \<and> smap_get (heap w1) i = Some c \<and> raw_sock c = sock \<and>
    (\<forall>fd. smap_get (conns w1) fd \<noteq> Some i)"
proof -
  note t = assms(1) [unfolded net_inv_def, simplified]
  obtain c w1 where c: "default_create pf sock a (s, w) = (Inr c, (s, w1))" "raw_sock c = sock" "ssl c = None"
    "listeners c = []" "conns w1 = conns w" "heap w1 = heap w" "next_id w1 = next_id w"
    "open_fds (trace w1) = open_fds (trace w)"
    using default_create_plain by blast
  let ?i = "next_id w"
  let ?w2 = "w1\<lparr>heap := smap_put ?i c (heap w), next_id := Suc ?i\<rparr>"
  have nt: "notify (sv_conn vt) Connected (c, ?w2) = (Inr (), (c, ?w2))"
    using c(4) assms(4) by (simp add: notify_def prog_simps)
  let ?w3 = "?w2\<lparr>heap := smap_put ?i c (heap ?w2)\<rparr>"
  have run: "server_on_accept vt sock a (s, w) = (Inr ?i, (s, ?w3))"
    using t c(1,6,7) nt assms(3) by (auto simp: server_on_accept_def prog_simps new_conn_def on_conn_def)
  have p: "conn_plain c" using c(3,4) by (simp add: conn_plain_def)
  have ok1: "table_ok T w1" using t c by (simp add: table_ok_world [of w1 w])
  have ok: "table_ok (insert ?i T) ?w2" "smap_get (heap w) ?i = None" "\<And>fd. smap_get (conns w) fd \<noteq> Some ?i"
    using table_ok_new [OF ok1 p] c(5-7) by auto
  have same: "?w3 = ?w2"
    using t by (intro world.equality net.equality; simp) (auto intro!: smap_ext simp: smap_put_ok table_okD(2) sm.get_put)
  have "held c = {#sock#}" using c(2) assms(2) by (simp add: held_def is_valid_def)
  then have "net_inv B (insert ?i T) (s, ?w2)"
    using t ok held_by_new [OF ok(2), of c] c(8) by (simp add: net_inv_def)
  with run same ok(3) c(2,5) show ?thesis by auto
qed

lemma server_on_accept_inv:
  assumes "net_inv (B + {#sock#}) T (s, w)" and "sock \<noteq> INVALID"
  shows "\<exists>i w1 c. server_on_accept (plain_sync pf) sock a (s, w) = (Inr i, (s, w1)) \<and>
    net_inv B (insert i T) (s, w1) \<and> smap_get (heap w1) i = Some c \<and> raw_sock c = sock \<and>
    (\<forall>fd. smap_get (conns w1) fd \<noteq> Some i)"
proof -
  have "sv_create (plain_sync pf) = (\<lambda>_. default_create pf)" "v_hook (sv_conn (plain_sync pf)) Connected = pret ()"
    by (simp_all add: plain_sync_def cleanup_vtable_def idle_vtable_def)
  from on_accept_inv [OF assms this, of a] show ?thesis by blast
qed

lemma heap_put_same:
  assumes "smap_ok (heap w)" and "smap_get (heap w) i = Some c"
  shows "w\<lparr>heap := smap_put i c (heap w)\<rparr> = (w :: 'w net_scheme)"
proof -
  have "smap_put i c (heap w) = heap w"
    using assms by (intro smap_ext) (auto simp: smap_put_ok sm.get_put)
  then show ?thesis by simp
qed

lemma on_conn_obj:
  "smap_ok (heap w) \<Longrightarrow> smap_get (heap w) i = Some c \<Longrightarrow> on_conn i (obj f) (s, w) = (Inr (f c), (s, w))"
  by (simp add: on_conn_def prog_simps heap_put_same)

lemma add_socket_inv:
  assumes "net_inv B (insert i T) (s, w)" and "smap_get (heap w) i = Some c" and "raw_sock c \<noteq> INVALID"
    and "\<And>fd. smap_get (conns w) fd \<noteq> Some i"
  shows "\<exists>r w'. add_socket pf i (s, w) = (r, (s, w')) \<and> net_inv B T (s, w')"
proof -
  have ok: "smap_ok (heap w)" using assms(1) table_okD(2) by (auto simp: net_inv_def)
  have "\<exists>c'. add_listener (Some 0) (c, w) = (Inr (), (c', w)) \<and> raw_sock c' = raw_sock c"
    by (simp add: add_listener_def prog_simps)
  then obtain c' where c': "add_listener (Some 0) (c, w) = (Inr (), (c', w))" "raw_sock c' = raw_sock c"
    by blast
  let ?fd = "raw_sock c"
  let ?w1 = "w\<lparr>heap := smap_put i c' (heap w)\<rparr>"
  have a: "on_conn i (add_listener (Some 0)) (s, w) = (Inr (), (s, ?w1))"
    using assms(2) c'(1) by (simp add: on_conn_def)
  have I1: "net_inv B (insert i T) (s, ?w1)"
    using on_conn_calm(1) [OF calm_add_listener assms(1), of i] a by simp
  let ?w2 = "?w1\<lparr>conns := smap_put ?fd i (conns w)\<rparr>"
  have "table_ok (T \<union> set_option (smap_get (conns ?w1) ?fd)) (?w1\<lparr>conns := smap_put ?fd i (conns ?w1)\<rparr>)"
    by (rule table_ok_enter [of i T ?w1 c']) (use I1 c'(2) assms(4) in \<open>auto simp: net_inv_def\<close>)
  then have I2: "net_inv B (T \<union> set_option (smap_get (conns w) ?fd)) (s, ?w2)"
    using I1 by (simp add: net_inv_def)
  have run: "add_socket pf i (s, w) =
      (case smap_get (conns w) ?fd of None \<Rightarrow> pret () | Some j \<Rightarrow> release pf j) (s, ?w2)"
    using on_conn_obj [OF ok assms(2), of id s] a assms(3)
    by (simp add: add_socket_def is_valid_def find_socket_def prog_simps)
  show ?thesis
  proof (cases "smap_get (conns w) ?fd")
    case None
    with run I2 show ?thesis by (simp add: prog_simps)
  next
    case (Some j)
    with I2 have "net_inv B (insert j T) (s, ?w2)" by simp
    from release_inv [OF this, of pf] Some run show ?thesis by auto
  qed
qed

lemma net_inv_mono: "net_inv B T sw \<Longrightarrow> T \<subseteq> T' \<Longrightarrow> net_inv B T' sw"
  by (cases sw) (auto simp: net_inv_def intro: table_ok_mono)

lemma accept_conn_inv:
  assumes "net_inv (B + {#sock#}) T (s, w)" and "sock \<noteq> INVALID"
  shows "\<exists>r w'. accept_conn pf (plain_sync pf) sock a (s, w) = (r, (s, w')) \<and> net_inv B T (s, w')"
proof -
  obtain i w1 c where i: "server_on_accept (plain_sync pf) sock a (s, w) = (Inr i, (s, w1))"
    "net_inv B (insert i T) (s, w1)" "smap_get (heap w1) i = Some c" "raw_sock c = sock"
    "\<And>fd. smap_get (conns w1) fd \<noteq> Some i"
    using server_on_accept_inv [OF assms] by blast
  obtain r w2 where r: "add_socket pf i (s, w1) = (r, (s, w2))" "net_inv B T (s, w2)"
    using add_socket_inv [OF i(2,3) _ i(5), of pf] i(4) assms(2) by blast
  have "net_inv B (insert i T) (s, w2)" using r(2) by (rule net_inv_mono) auto
  from release_inv [OF this, of pf] i(1) r show ?thesis
    by (cases r) (auto simp: accept_conn_def sync_on_accept_def prog_simps)
qed

lemma socket_accept_inv:
  assumes "net_inv B T (s, w)"
  shows "\<exists>sock a w'. socket_accept pf (s, w) = (Inr (sock, a), (s, w')) \<and>
    (if sock = INVALID then net_inv B T (s, w') else net_inv (B + {#sock#}) T (s, w'))"
proof -
  obtain sock a where o: "os_accept pf (trace w) (raw_sock s) = (sock, a)"
    by (cases "os_accept pf (trace w) (raw_sock s)")
  let ?w = "record_call pf (Sys_accept (raw_sock s) sock) w"
  have "conns ?w = conns w" "heap ?w = heap w" "next_id ?w = next_id w" by (simp_all add: record_call_def)
  then have "table_ok T ?w = table_ok T w" by (rule table_ok_world)
  moreover have "heap ?w = heap w" by (simp add: record_call_def)
  ultimately show ?thesis
    using assms o by (auto simp: socket_accept_def prog_simps net_inv_def)
qed

lemma keeps_accept:
  assumes "\<And>sock a s w. sock \<noteq> INVALID \<Longrightarrow> net_inv (B + {#sock#}) T (s, w) \<Longrightarrow>
      net_inv B T (snd (k sock a (s, w)))"
  shows "keeps (net_inv B T) (pbind (socket_accept pf) (\<lambda>(sock, a). if sock = INVALID then pret () else k sock a))"
proof (rule keeps_pairI)
  fix s :: "'a server_scheme" and w :: "'b net_scheme" assume I: "net_inv B T (s, w)"
  from socket_accept_inv [OF this, of pf] obtain sock a w1 where
    "socket_accept pf (s, w) = (Inr (sock, a), (s, w1))"
    "if sock = INVALID then net_inv B T (s, w1) else net_inv (B + {#sock#}) T (s, w1)" by blast
  with assms [of sock s w1 a]
  show "net_inv B T (snd (pbind (socket_accept pf) (\<lambda>(sock, a). if sock = INVALID then pret () else k sock a) (s, w)))"
    by (auto simp: prog_simps split: if_splits)
qed

lemma accept_conn_keeps:
  "sock \<noteq> INVALID \<Longrightarrow> net_inv (B + {#sock#}) T (s, w) \<Longrightarrow>
     net_inv B T (snd (accept_conn pf (plain_sync pf) sock a (s, w)))"
  using accept_conn_inv [of B sock T s w pf a] by auto

subsection \<open>Closing a connection\<close>

lemma conn_listener: "conn_plain c \<Longrightarrow> k < length (listeners c) \<Longrightarrow> listeners c ! k = Some 0"
  unfolding conn_plain_def by (metis nth_mem singletonD subsetD)

lemma conn_notify:
  assumes "conn_plain c" and "ev \<noteq> Closed"
  shows "notify conn_table ev (c, w) = (Inr (), (c, w))"
proof -
  have "piter (call_listener conn_table ev) [0..<length (listeners c)] (c, w) = (Inr (), (c, w))"
    by (rule piter_same) (use assms(2) conn_listener [OF assms(1)] in \<open>simp add: call_listener_def prog_simps\<close>)
  then show ?thesis by (simp add: notify_def prog_simps)
qed

lemma smap_erase_twice [simp]: "smap_erase k (smap_erase k m) = smap_erase k m"
  by (simp add: smap_erase_def split_def)

lemma conn_notify_closed:
  assumes "conn_plain c" and "is_valid c"
  shows "\<exists>w'. notify conn_table Closed (c, w) = (Inr (), (c, w')) \<and>
    (w' = w \<or> w' = w\<lparr>conns := smap_erase (raw_sock c) (conns w)\<rparr>)"
proof -
  let ?erased = "w\<lparr>conns := smap_erase (raw_sock c) (conns w)\<rparr>"
  have "\<exists>st'. piter (call_listener conn_table Closed) [0..<length (listeners c)] (c, w) = (Inr (), st') \<and>
      (st' = (c, w) \<or> st' = (c, ?erased))"
    by (rule piter_inv)
      (use assms(2) conn_listener [OF assms(1)] in \<open>auto simp: call_listener_def prog_simps cleanup_def\<close>)
  then show ?thesis by (auto simp: notify_def prog_simps)
qed

lemma conn_flush:
  assumes "conn_plain c"
  shows "\<exists>c' w'. buf_flush pf conn_table (c, w) = (Inr (), (c', w')) \<and> calm c w (c', w')"
proof -
  have p: "conn_plain (c\<lparr>outBuffer := []\<rparr>)" "ssl c = None" using assms by (simp_all add: conn_plain_def)
  have n: "notify conn_table Will_write (c, v) = (Inr (), (c, v))"
    "notify conn_table Did_write (c\<lparr>outBuffer := []\<rparr>, v) = (Inr (), (c\<lparr>outBuffer := []\<rparr>, v))" for v :: "'b net_scheme"
    by (rule conn_notify; simp add: assms p)+
  have "\<exists>b. fst (write_from_buffer pf conn_table (c, w)) = Inr b"
    using p(2) by (simp add: write_from_buffer_def send_buffer_def socket_send_def prog_simps Let_def n ex_bool_eq)
  moreover have "calm c w (snd (write_from_buffer pf conn_table (c, w)))"
    by (rule keeps_snd [OF calm_write_from_buffer]) (rule calm_refl [OF assms])
  ultimately show ?thesis
    by (cases "write_from_buffer pf conn_table (c, w)") (auto simp: buf_flush_def prog_simps)
qed

lemma conn_close:
  assumes "conn_plain c" and "is_valid c"
  shows "\<exists>c' w' m. buf_close pf conn_table (c, w) = (Inr (), (c', w')) \<and> \<not> is_valid c' \<and> conn_plain c' \<and>
    m \<in> {conns w, smap_erase (raw_sock c) (conns w)} \<and> conns w' = m \<and> heap w' = heap w \<and>
    next_id w' = next_id w \<and> open_fds (trace w') = open_fds (trace w) - held c"
proof -
  obtain w1 where n: "notify conn_table Closed (c, w) = (Inr (), (c, w1))"
    "w1 = w \<or> w1 = w\<lparr>conns := smap_erase (raw_sock c) (conns w)\<rparr>"
    using conn_notify_closed [OF assms] by blast
  obtain c2 w2 where fl: "buf_flush pf conn_table (c, w1) = (Inr (), (c2, w2))" "calm c w1 (c2, w2)"
    using conn_flush [OF assms(1)] by blast
  obtain c3 w3 where cl: "socket_close pf (c2, w2) = (Inr (), (c3, w3))" "\<not> is_valid c3" "conn_plain c3"
    "conns w3 = conns w2" "heap w3 = heap w2" "next_id w3 = next_id w2"
    "open_fds (trace w3) = open_fds (trace w2) - held c2"
    using fl(2) by (cases "raw_sock c2 = INVALID")
      (auto simp: socket_close_def prog_simps conn_plain_def held_def is_valid_def record_call_def calm_def)
  have "buf_close pf conn_table (c, w) = (Inr (), (c3, w3))"
    using assms(2) n(1) fl(1) cl(1) by (simp add: buf_close_def prog_simps)
  moreover have "held c2 = held c" using fl(2) by (simp add: calm_def held_def is_valid_def)
  ultimately show ?thesis
    using n(2) fl(2) cl by (auto simp: calm_def)
qed

lemma close_conn_inv:
  assumes "net_inv B T (s, w)" and "smap_get (conns w) fd = Some i"
  shows "\<exists>w'. close_conn pf conn_table i (s, w) = (Inr (), (s, w')) \<and> net_inv B (insert i T) (s, w')"
proof -
  note t = assms(1) [unfolded net_inv_def, simplified]
  obtain c where c: "smap_get (heap w) i = Some c" "is_valid c \<Longrightarrow> raw_sock c = fd"
    using table_okD(5) t assms(2) by blast
  have p: "conn_plain c" and ok: "smap_ok (heap w)" using table_okD(2,4) t c(1) by blast+
  have mono: "table_ok (insert i T) w" using t by (auto intro: table_ok_mono)
  show ?thesis
  proof (cases "is_valid c")
    case False
    have "close_conn pf conn_table i (s, w) = (Inr (), (s, w))"
      using False c(1) heap_put_same [OF ok c(1)] by (simp add: close_conn_def on_conn_def buf_close_def prog_simps)
    with mono t show ?thesis by (simp add: net_inv_def)
  next
    case True
    obtain c' w' m where b: "buf_close pf conn_table (c, w) = (Inr (), (c', w'))" "\<not> is_valid c'" "conn_plain c'"
      "m \<in> {conns w, smap_erase fd (conns w)}" "conns w' = m" "heap w' = heap w" "next_id w' = next_id w"
      "open_fds (trace w') = open_fds (trace w) - held c"
      using conn_close [OF p True, of pf w] c(2) [OF True] by blast
    let ?w = "w'\<lparr>heap := smap_put i c' (heap w)\<rparr>"
    have "table_ok (insert i T) (w\<lparr>conns := m\<rparr>)"
      using b(4) mono table_ok_erase [OF mono, of fd] assms(2) by auto
    then have "table_ok (insert i T) (w\<lparr>conns := m, heap := smap_put i c' (heap w)\<rparr>)"
      using table_ok_put [of "insert i T" "w\<lparr>conns := m\<rparr>" i c c'] c(1) b(2,3) by simp
    then have "table_ok (insert i T) ?w"
      using b(5-7) by (simp add: table_ok_world [of ?w "w\<lparr>conns := m, heap := smap_put i c' (heap w)\<rparr>"])
    moreover have "held_by (heap w) = held_by (smap_put i c' (heap w)) + held c"
      using held_by_put [OF c(1) ok, of c'] b(2) by simp
    ultimately have "net_inv B (insert i T) (s, ?w)" using t b(8) by (simp add: net_inv_def)
    moreover have "close_conn pf conn_table i (s, w) = (Inr (), (s, ?w))"
      using c(1) b(1,6) by (simp add: close_conn_def on_conn_def)
    ultimately show ?thesis by blast
  qed
qed

subsection \<open>Polling keeps the invariant\<close>

lemma net_inv_frame:
  "keeps (net_inv B T) (upd (\<lambda>s :: 'a sync_server_scheme. s\<lparr>poll_impl := p\<rparr>))"
  "keeps (net_inv B T) (guard_fd fd)" "keeps (net_inv B T) (find_socket fd)"
  by (auto simp: guard_fd_def find_socket_def net_inv_def held_def is_valid_def intro!: hoare_rules keeps_upd)

lemma net_inv_record:
  assumes "net_inv B T (s, w)" and "\<And>M. fd_effect ev M = M"
  shows "net_inv B T (s, record_call pf ev w)"
proof -
  have "conns (record_call pf ev w) = conns w" "heap (record_call pf ev w) = heap w"
    "next_id (record_call pf ev w) = next_id w" by (simp_all add: record_call_def)
  with assms show ?thesis
    by (simp add: net_inv_def table_ok_world [of "record_call pf ev w" w])
qed

lemma net_inv_ask: "(\<And>r M. fd_effect (ev r) M = M) \<Longrightarrow> keeps (net_inv B T) (ask pf g ev)"
  by (rule keeps_ask) (rule net_inv_record)

lemmas net_inv_rules = hoare_rules net_inv_frame remove_socket_inv keeps_on_conn keeps_get_select

lemma select_clear_inv: "keeps (net_inv B T) (select_clear c)"
  unfolding select_clear_def put_select_def
  by (auto split: prod.split intro!: net_inv_rules)

lemma select_serve_inv: "keeps (net_inv B T) (select_serve pf conn_table rfuel i)"
  unfolding select_serve_def
  by (auto split: prod.split intro!: net_inv_rules)

lemma iterate_inv: "keeps (net_inv B T) (iterate_connections pf conn_table rfuel n x)"
proof (induction n arbitrary: x)
  case 0
  show ?case by (cases x) (auto intro: hoare_rules)
next
  case (Suc n)
  show ?case
  proof (cases x)
    case (Some y)
    obtain k i where y: "y = (k, i)" by (cases y)
    show ?thesis
      unfolding Some y iterate_connections.simps
      by (intro hoare_rules net_inv_frame remove_socket_inv select_clear_inv select_serve_inv Suc.IH)
  qed (auto intro: hoare_rules)
qed

lemma select_accept_inv: "keeps (net_inv B T) (select_accept pf (plain_sync pf))"
  unfolding select_accept_def
proof (rule keeps_accept)
  fix sock a and s :: "'a sync_server_scheme" and w :: "'b net_scheme"
  assume A: "sock \<noteq> INVALID" "net_inv (B + {#sock#}) T (s, w)"
  obtain r w1 where r: "accept_conn pf (plain_sync pf) sock a (s, w) = (r, (s, w1))" "net_inv B T (s, w1)"
    using accept_conn_inv [OF A(2,1)] by blast
  let ?k = "pbind get_select (\<lambda>(i, t, m). pthen (guard_fd sock) (put_select (insert sock i) (insert sock t) (max m sock)))"
  have "keeps (net_inv B T) ?k"
    unfolding put_select_def by (auto split: prod.split intro!: net_inv_rules)
  from keeps_snd [OF this r(2)] r
  show "net_inv B T (snd (pthen (accept_conn pf (plain_sync pf) sock a) ?k (s, w)))"
    by (cases r) (simp_all add: pthen_Inl pthen_Inr)
qed

lemma plain_sync_conn [simp]: "sv_conn (plain_sync pf) = conn_table"
  by (simp add: plain_sync_def)

lemma select_poll_inv: "keeps (net_inv B T) (select_poll pf (plain_sync pf) rfuel n stall)"
  unfolding select_poll_def put_select_def
  by (auto split: prod.split intro!: net_inv_rules net_inv_ask select_accept_inv iterate_inv)

subsection \<open>The same with \<open>epoll\<close>\<close>

definition found ::
  "socket_fd multiset \<Rightarrow> conn_id set \<Rightarrow> socket_fd \<Rightarrow> conn_id \<Rightarrow> 'a server_scheme \<times> 'w net_scheme \<Rightarrow> bool" where
  "found B T fd i sw \<longleftrightarrow> net_inv B T sw \<and> smap_get (conns (snd sw)) fd = Some i"

lemma keeps_found:
  assumes "keeps (net_inv B T) n"
    and "\<And>i. hoare (found B T fd i) (k i) (\<lambda>_. net_inv B T) (\<lambda>_. net_inv B T)"
  shows "keeps (net_inv B T) (pbind (find_socket fd) (\<lambda>c. case c of None \<Rightarrow> n | Some i \<Rightarrow> k i))"
proof (rule keeps_pairI)
  fix s :: "'a server_scheme" and w :: "'b net_scheme" assume I: "net_inv B T (s, w)"
  have "net_inv B T (snd (k i (s, w)))" if "smap_get (conns w) fd = Some i" for i
  proof -
    obtain r sw where m: "k i (s, w) = (r, sw)" by (cases "k i (s, w)")
    have "found B T fd i (s, w)" using I that by (simp add: found_def)
    with m show ?thesis
      by (cases r) (auto dest: hoare_Inr [OF assms(2)] hoare_Inl [OF assms(2)])
  qed
  with keeps_snd [OF assms(1) I]
  show "net_inv B T (snd (pbind (find_socket fd) (\<lambda>c. case c of None \<Rightarrow> n | Some i \<Rightarrow> k i) (s, w)))"
    by (auto simp: find_socket_def prog_simps split: option.split)
qed

lemma found_close:
  "hoare (found B T fd i) (close_conn pf conn_table i) (\<lambda>_. net_inv B (insert i T)) (\<lambda>_. net_inv B T)"
proof (rule hoareI)
  fix sw x sw' assume "found B T fd i sw" "close_conn pf conn_table i sw = (Inr x, sw')"
  then show "net_inv B (insert i T) sw'"
    using close_conn_inv [of B T "fst sw" "snd sw" fd i pf] by (auto simp: found_def)
next
  fix sw e sw' assume "found B T fd i sw" "close_conn pf conn_table i sw = (Inl e, sw')"
  then show "net_inv B T sw'"
    using close_conn_inv [of B T "fst sw" "snd sw" fd i pf] by (auto simp: found_def)
qed

lemma release_hoare: "hoare (net_inv B (insert i T)) (release pf i) (\<lambda>_. net_inv B T) (\<lambda>_. net_inv B T)"
proof (rule hoareI)
  fix sw x sw' assume "net_inv B (insert i T) sw" "release pf i sw = (Inr x, sw')"
  then show "net_inv B T sw'" using release_inv [of B i T "fst sw" "snd sw" pf] by auto
next
  fix sw e sw' assume "net_inv B (insert i T) sw" "release pf i sw = (Inl e, sw')"
  then show "net_inv B T sw'" using release_inv [of B i T "fst sw" "snd sw" pf] by auto
qed

lemma found_calm:
  assumes "\<And>c0 w0. keeps (calm c0 w0) m"
  shows "hoare (found B T fd i) (on_conn i m) (\<lambda>_. found B T fd i) (\<lambda>_. net_inv B T)"
proof (rule hoareI)
  fix sw x sw' assume "found B T fd i sw" "on_conn i m sw = (Inr x, sw')"
  then show "found B T fd i sw'"
    using on_conn_calm [OF assms, of B T "fst sw" "snd sw" i] by (cases sw) (auto simp: found_def)
next
  fix sw e sw' assume "found B T fd i sw" "on_conn i m sw = (Inl e, sw')"
  then show "net_inv B T sw'"
    using on_conn_calm [OF assms, of B T "fst sw" "snd sw" i] by (cases sw) (auto simp: found_def)
qed

lemma found_skip: "hoare (found B T fd i) (pret x) (\<lambda>_. net_inv B (insert i T)) (\<lambda>_. net_inv B T)"
  by (rule hoareI) (auto simp: pret_def found_def intro: net_inv_mono)

lemma hoare_if: "(b \<Longrightarrow> hoare P m Q E) \<Longrightarrow> (\<not> b \<Longrightarrow> hoare P n Q E) \<Longrightarrow> hoare P (if b then m else n) Q E"
  by simp

lemma hoare_pthen: "hoare P m (\<lambda>_. R) E \<Longrightarrow> hoare R n Q E \<Longrightarrow> hoare P (pthen m n) Q E"
  unfolding pthen_def by (rule hoare_pbind)

lemma epoll_write_inv: "keeps (net_inv B T) (epoll_write pf conn_table fd)"
  unfolding epoll_write_def
proof (intro keeps_found hoare_rules)
  fix i
  have "hoare (found B T fd i)
      (pbind (on_conn i (obj has_output)) (\<lambda>h. if \<not> h then pret ()
         else pbind (on_conn i (write_from_buffer pf conn_table)) (\<lambda>ok. if ok then pret () else close_conn pf conn_table i)))
      (\<lambda>_. net_inv B (insert i T)) (\<lambda>_. net_inv B T)"
    apply (rule hoare_pbind, rule found_calm, rule keeps_obj)
    apply (rule hoare_if, rule found_skip)
    apply (rule hoare_pbind, rule found_calm, rule calm_write_from_buffer)
    by (rule hoare_if, rule found_skip, rule found_close)
  from hoare_pthen [OF this release_hoare]
  show "hoare (found B T fd i)
      (pthen (pbind (on_conn i (obj has_output)) (\<lambda>h. if \<not> h then pret ()
         else pbind (on_conn i (write_from_buffer pf conn_table)) (\<lambda>ok. if ok then pret () else close_conn pf conn_table i)))
        (release pf i))
      (\<lambda>_. net_inv B T) (\<lambda>_. net_inv B T)" .
qed

lemma epoll_read_inv:
  "keeps (net_inv B T) (pbind (find_socket fd) (\<lambda>c. case c of
      None \<Rightarrow> pret True
    | Some i \<Rightarrow>
        pbind (on_conn i (read_to_buffer pf conn_table rfuel)) (\<lambda>ok.
        pthen (if ok then pret () else close_conn pf conn_table i)
       (pthen (release pf i) (pret ok)))))"
proof (intro keeps_found hoare_rules)
  fix i
  show "hoare (found B T fd i) (pbind (on_conn i (read_to_buffer pf conn_table rfuel)) (\<lambda>ok.
        pthen (if ok then pret () else close_conn pf conn_table i)
       (pthen (release pf i) (pret ok)))) (\<lambda>_. net_inv B T) (\<lambda>_. net_inv B T)"
    apply (rule hoare_pbind, rule found_calm, rule calm_read_to_buffer)
    apply (rule hoare_pthen, rule hoare_if, rule found_skip, rule found_close)
    by (rule hoare_pthen, rule release_hoare, rule keeps_pret)
qed

lemma epoll_event_inv: "keeps (net_inv B T) (epoll_event pf (plain_sync pf) rfuel x)"
proof -
  obtain fd events where x: "x = (fd, events)" by (cases x)
  have err: "keeps (net_inv B T) (pbind (find_socket fd) (\<lambda>c. case c of None \<Rightarrow> pret ()
      | Some i \<Rightarrow> pthen (close_conn pf conn_table i) (release pf i)))"
    by (rule keeps_found, rule keeps_pret, rule hoare_pthen, rule found_close, rule release_hoare)
  have acc: "keeps (net_inv B T) (pbind (socket_accept pf) (\<lambda>(infd, a).
      if infd = INVALID then pret () else accept_conn pf (plain_sync pf) infd a))"
    by (rule keeps_accept) (rule accept_conn_keeps)
  show ?thesis
    unfolding x epoll_event_def prod.case plain_sync_conn
    apply (rule keeps_if, rule err)
    apply (rule keeps_pbind [OF keeps_obj], rule keeps_if, rule acc)
    apply (rule keeps_pbind, rule keeps_if, rule epoll_read_inv, rule keeps_pret)
    by (rule keeps_if, rule epoll_write_inv, rule keeps_pret)
qed

lemma epoll_poll_inv: "keeps (net_inv B T) (epoll_poll pf (plain_sync pf) rfuel ep stall)"
  unfolding epoll_poll_def
  by (auto split: prod.split intro!: net_inv_rules net_inv_ask epoll_event_inv)

lemma wait_time_inv: "keeps (net_inv B T) (wait_time pf since)"
  unfolding wait_time_def by (cases since) (auto intro!: net_inv_rules net_inv_ask)

lemma sync_poll_inv: "keeps (net_inv B T) (sync_poll pf (plain_sync pf) rfuel n since)"
proof -
  have step: "keeps (net_inv B T)
      (case p of None \<Rightarrow> pret since
       | Some impl \<Rightarrow>
           pbind (wait_time pf since) (\<lambda>(stall, since').
           pthen (case impl of
                    Select_impl _ _ _ \<Rightarrow> select_poll pf (plain_sync pf) rfuel n stall
                  | Epoll_impl ep \<Rightarrow> epoll_poll pf (plain_sync pf) rfuel ep stall)
          (pthen (sync_notify_poll (plain_sync pf)) (pret since'))))" for p
    by (cases p)
      (auto split: prod.split poller.split
        intro!: hoare_rules wait_time_inv select_poll_inv epoll_poll_inv plain_notify_keeps)
  show ?thesis
    unfolding sync_poll_def by (intro hoare_rules step)
qed

lemma poll_loop_inv: "keeps (net_inv B T) (poll_loop pf (plain_sync pf) rfuel n k since)"
proof (induction k arbitrary: since)
  case 0
  show ?case by (auto intro!: hoare_rules)
next
  case (Suc k)
  show ?case by (simp, intro hoare_rules sync_poll_inv Suc.IH)
qed

subsection \<open>Stopping\<close>

lemma clear_sockets_inv:
  assumes "net_inv B {} (s, w)"
  shows "\<exists>w'. clear_sockets pf (s, w) = (Inr (), (s, w')) \<and> conns w' = [] \<and> heap w' = [] \<and>
    open_fds (trace w') = B + held s"
proof -
  note t = assms [unfolded net_inv_def, simplified]
  have ok: "smap_ok (conns w)" using table_okD(1) t by blast
  have drop: "\<exists>w'. piter (\<lambda>(_, i). drop_conn pf i) m (s, v) = (Inr (), (s, w')) \<and> net_inv B {} (s, w') \<and> conns w' = []"
    if "net_inv B (snd ` set m) (s, v)" "distinct (map snd m)" "\<forall>i\<in>snd ` set m. smap_get (heap v) i \<noteq> None"
      "conns v = []" for m and v :: "'b net_scheme"
    using that
  proof (induction m arbitrary: v)
    case (Cons x m)
    obtain k i where x: "x = (k, i)" by (cases x)
    have "net_inv B (insert i (snd ` set m)) (s, v)" using Cons.prems(1) x by simp
    from drop_conn_inv [OF this, of pf] Cons.prems(3,4) x obtain v' where d: "drop_conn pf i (s, v) = (Inr (), (s, v'))"
      "net_inv B (snd ` set m) (s, v')" "conns v' = []" "heap v' = smap_erase i (heap v)"
      by (auto simp: smap_get_def)
    have "\<forall>j\<in>snd ` set m. smap_get (heap v') j \<noteq> None"
      using Cons.prems(2,3) d(4) x by (auto simp: sm.get_erase)
    with Cons.IH [OF d(2)] Cons.prems(2) d(1,3) x show ?case by (simp add: prog_simps)
  qed (simp add: prog_simps)
  let ?w = "w\<lparr>conns := []\<rparr>"
  have tab: "(k, i) \<in> set (conns w) \<longleftrightarrow> smap_get (conns w) k = Some i" for k i
    using smap_get_set [OF ok] by blast
  have in_table: "smap_get (heap w) i \<noteq> None \<longleftrightarrow> i \<in> snd ` set (conns w)" for i
  proof
    assume "smap_get (heap w) i \<noteq> None"
    with t obtain k where "smap_get (conns w) k = Some i" using table_okD(7) by blast
    with tab show "i \<in> snd ` set (conns w)" by force
  next
    assume "i \<in> snd ` set (conns w)"
    then obtain k where "smap_get (conns w) k = Some i" using tab by force
    with t table_okD(5) show "smap_get (heap w) i \<noteq> None" by fastforce
  qed
  have "inj_on snd (set (conns w))"
  proof (rule inj_onI)
    fix x y assume xy: "x \<in> set (conns w)" "y \<in> set (conns w)" "snd x = snd y"
    obtain k k' i where x: "x = (k, i)" "y = (k', i)" using xy(3) by (metis prod.collapse)
    with xy(1,2) tab have "smap_get (conns w) k = Some i" "smap_get (conns w) k' = Some i" by simp_all
    with t have "k = k'" using table_okD(6) by blast
    with x show "x = y" by simp
  qed
  then have d: "distinct (map snd (conns w))"
    using smap_distinct [OF ok] by (simp add: distinct_map)
  have "table_ok (snd ` set (conns w)) ?w"
    by (rule table_okI) (use t in_table table_okD(2-4) in \<open>auto simp: smap_get_def smap_ok_def\<close>)
  then have "net_inv B (snd ` set (conns w)) (s, ?w)" using t by (simp add: net_inv_def)
  from drop [OF this d] in_table obtain w' where
    w': "piter (\<lambda>(_, i). drop_conn pf i) (conns w) (s, ?w) = (Inr (), (s, w'))" "net_inv B {} (s, w')" "conns w' = []"
    by auto
  have "smap_get (heap w') i = None" for i
    using w'(2,3) table_okD(7) [of "{}" w' i]
    by (cases "smap_get (heap w') i") (auto simp: net_inv_def smap_get_def)
  then have "heap w' = []" by (cases "heap w'") (auto simp: smap_get_def, metis option.distinct(1))
  with w' show ?thesis
    by (auto simp: clear_sockets_def prog_simps net_inv_def held_by_def)
qed

lemma close_frame:
  "keeps (\<lambda>(s, w). conns w = m \<and> heap w = h \<and> next_id w = i \<and> P (factory s) (s_listeners s)) (socket_close pf)"
proof -
  have ssl: "keeps (\<lambda>(s, w). conns w = m \<and> heap w = h \<and> next_id w = i \<and> P (factory s) (s_listeners s))
      (on_ssl (layer_shutdown pf))"
    by (rule keeps_pairI)
      (auto simp: on_ssl_def layer_shutdown_def prog_simps record_call_def split: option.split prod.split)
  show ?thesis
    unfolding socket_close_def
    by (auto intro!: hoare_rules ssl keeps_call keeps_upd simp: record_call_def)
qed

lemma quiet_stop_notify:
  assumes "smap_get (s_listeners s) None = None" and "sv_hook vt On_stop = pret ()"
    and "\<And>i. sv_listener vt i On_stop = pret ()"
  shows "server_notify vt On_stop (s, w) = (Inr (), (s, w))"
proof -
  have "(\<forall>x\<in>set ls. fst x \<noteq> None) \<Longrightarrow> piter (\<lambda>(l, _). case l of None \<Rightarrow> praise Undefined_behaviour
      | Some i \<Rightarrow> sv_listener vt i On_stop) ls (s, w) = (Inr (), (s, w))" for ls
    by (induction ls) (auto simp: prog_simps assms(3) split: prod.split)
  from this [of "s_listeners s"] have "piter (\<lambda>(l, _). case l of None \<Rightarrow> praise Undefined_behaviour
      | Some i \<Rightarrow> sv_listener vt i On_stop) (s_listeners s) (s, w) = (Inr (), (s, w))"
    using assms(1) by (force simp: smap_get_def map_of_eq_None_iff)
  with assms(2) show ?thesis by (simp add: server_notify_def prog_simps)
qed

text \<open>\<open>socket_server::stop\<close> releases the server's own descriptor and nothing else.\<close>

lemma server_stop_inv:
  assumes "net_inv B T (s, w)" and "sv_hook vt On_stop = pret ()" and "\<And>i. sv_listener vt i On_stop = pret ()"
  shows "\<exists>s' w'. server_stop pf vt (s, w) = (Inr (), (s', w')) \<and> net_inv B T (s', w') \<and>
    \<not> is_valid s' \<and> conns w' = conns w \<and> heap w' = heap w \<and> ssl s' = map_option (\<lambda>_. null_layer) (ssl s)"
proof -
  note t = assms(1) [unfolded net_inv_def, simplified]
  have n: "pbind (obj server_valid) (\<lambda>v. if v then server_notify vt On_stop else pret ()) (s, w) =
      (Inr (), (s, w))"
    using t assms(2,3) by (simp add: prog_simps quiet_stop_notify)
  have "owns (B + held_by (heap w)) (s, w)"
    using t by (simp add: owns_def held_def ac_simps)
  from socket_close_spec [OF this, of pf] obtain s1 w1 where
    c: "socket_close pf (s, w) = (Inr (), (s1, w1))" "owns (B + held_by (heap w)) (s1, w1)" "\<not> is_valid s1"
    "ssl s1 = map_option (\<lambda>_. null_layer) (ssl s)"
    by blast
  have fr: "conns w1 = conns w" "heap w1 = heap w" "next_id w1 = next_id w" "has_factory s1"
    "smap_get (s_listeners s1) None = None"
    using keeps_snd [OF close_frame [of "conns w" "heap w" "next_id w" "\<lambda>f l. f \<noteq> None \<and> smap_get l None = None" pf], of "(s, w)"]
      c(1) t by simp_all
  let ?s2 = "s1\<lparr>background := False\<rparr>"
  have "net_inv B T (?s2, w1)"
    using t fr c(2,3) by (simp add: net_inv_def owns_def is_valid_def table_ok_world [of w1 w] held_def)
  moreover have "server_stop pf vt (s, w) = (Inr (), (?s2, w1))"
    using n c(1) by (simp add: server_stop_def prog_simps)
  ultimately show ?thesis using c(3,4) fr by (auto simp: is_valid_def)
qed

lemma sync_stop_inv:
  assumes "net_inv B {} (s, w)"
  shows "\<exists>s' w'. sync_stop pf (plain_sync pf) (s, w) = (Inr (), (s', w')) \<and> \<not> server_valid s' \<and>
    conns w' = [] \<and> heap w' = [] \<and> open_fds (trace w') = B"
proof -
  obtain s1 w1 where st: "server_stop pf (plain_sync pf) (s, w) = (Inr (), (s1, w1))" "net_inv B {} (s1, w1)"
    "\<not> is_valid s1"
    using server_stop_inv [OF assms, of "plain_sync pf" pf] by (auto simp: plain_sync_def)
  from clear_sockets_inv [OF st(2), of pf] st(1,3) show ?thesis
    by (auto simp: sync_stop_def prog_simps server_valid_def)
qed

text \<open>The destructor also closes the descriptor of the polling object.\<close>

definition held_poller :: "poller option \<Rightarrow> socket_fd multiset" where
  "held_poller p = (case p of Some (Epoll_impl ep) \<Rightarrow> (if ep = INVALID then {#} else {#ep#}) | _ \<Rightarrow> {#})"

lemma poller_destroy_inv:
  assumes "net_inv (B + held_poller (poll_impl s)) T (s, w)"
  shows "\<exists>w'. poller_destroy pf (s, w) = (Inr (), (s\<lparr>poll_impl := None\<rparr>, w')) \<and>
    net_inv B T (s\<lparr>poll_impl := None\<rparr>, w') \<and> conns w' = conns w \<and> heap w' = heap w"
proof (cases "held_poller (poll_impl s) = {#}")
  case True
  with assms show ?thesis
    by (auto simp: poller_destroy_def held_poller_def prog_simps net_inv_def held_def is_valid_def
        split: option.splits poller.splits if_splits)
next
  case False
  then obtain ep where p: "poll_impl s = Some (Epoll_impl ep)" "ep \<noteq> INVALID"
    by (auto simp: held_poller_def split: option.splits poller.splits if_splits)
  let ?w = "record_call pf (Sys_close ep) w"
  have "poller_destroy pf (s, w) = (Inr (), (s\<lparr>poll_impl := None\<rparr>, ?w))"
    using p by (simp add: poller_destroy_def prog_simps)
  moreover have same: "conns ?w = conns w" "heap ?w = heap w" "next_id ?w = next_id w"
    by (simp_all add: record_call_def)
  moreover have "net_inv B T (s\<lparr>poll_impl := None\<rparr>, ?w)"
    using assms p same by (simp add: net_inv_def held_def is_valid_def table_ok_world [of ?w w] held_poller_def)
  ultimately show ?thesis by blast
qed

lemma sync_destroy_inv:
  assumes "net_inv (B + held_poller (poll_impl s)) {} (s, w)"
  shows "\<exists>s' w'. sync_destroy pf (plain_sync pf) (s, w) = (Inr (), (s', w')) \<and> heap w' = [] \<and> open_fds (trace w') = B"
proof -
  obtain w1 where c: "clear_sockets pf (s, w) = (Inr (), (s, w1))" "conns w1 = []" "heap w1 = []"
    "open_fds (trace w1) = B + held_poller (poll_impl s) + held s"
    using clear_sockets_inv [OF assms, of pf] by blast
  have "net_inv (B + held_poller (poll_impl s)) {} (s, w1)"
    using assms c by (simp add: net_inv_def table_ok_def smap_get_def smap_ok_def held_by_def)
  from poller_destroy_inv [OF this, of pf] obtain w2 where
    p: "poller_destroy pf (s, w1) = (Inr (), (s\<lparr>poll_impl := None\<rparr>, w2))" "net_inv B {} (s\<lparr>poll_impl := None\<rparr>, w2)"
    "heap w2 = []"
    using c(3) by auto
  obtain s3 w3 where st: "server_stop pf ((plain_sync pf)\<lparr>sv_hook := (\<lambda>_. pret ())\<rparr>) (s\<lparr>poll_impl := None\<rparr>, w2) =
      (Inr (), (s3, w3))" "net_inv B {} (s3, w3)" "\<not> is_valid s3" "heap w3 = []"
    "ssl s3 = map_option (\<lambda>_. null_layer) (ssl s)"
    using server_stop_inv [OF p(2), of "(plain_sync pf)\<lparr>sv_hook := (\<lambda>_. pret ())\<rparr>" pf] p(3)
    by (auto simp: plain_sync_def)
  have "\<exists>s4. socket_destroy pf (s3, w3) = (Inr (), (s4, w3))"
    using st(3,5)
    by (cases "ssl s") (auto simp: socket_destroy_def socket_close_def set_ssl_def on_ssl_def prog_simps is_valid_def)
  then show ?thesis
    using c(1) p(1) st by (auto simp: sync_destroy_def server_destroy_def prog_simps net_inv_def held_by_def)
qed

subsection \<open>What the server promises\<close>

text \<open>
  C4: the synchronous server with the default factory and without
  listeners of the user leaks nothing and loses nothing while it polls: whatever the kernel
  and the peers answer, with either polling implementation, after any number of polls, also when
  one of them throws, the table of connections and the connection objects agree, and the process
  holds the descriptors it held outside the server, the server's own, and one for each
  connection that is open.
\<close>

theorem sync_polls_account:
  assumes "net_inv B {} (s, w)"
    and "poll_loop pf (plain_sync pf) rfuel n k since (s, w) = (r, (s', w'))"
  shows "table_ok {} w' \<and> open_fds (trace w') = B + held s' + held_by (heap w')"
  using keeps_snd [OF poll_loop_inv assms(1), of pf rfuel n k since] assms(2) by (simp add: net_inv_def)

text \<open>An accepting kernel: two connections arrive, then nothing.\<close>

definition two_peers :: platform where
  "two_peers = granting\<lparr>
     os_accept := (\<lambda>tr _. if length (filter (\<lambda>e. \<exists>f r. e = Sys_accept f r) tr) = 0 then (9, local_addr) else (10, local_addr)),
     os_select := (\<lambda>tr i _ _. if length (filter (\<lambda>e. \<exists>f r. e = Sys_accept f r) tr) < 2 then (1, i, {}) else (0, {}, {}))\<rparr>"

definition net_listening :: net where
  "net_listening = net0\<lparr>trace := [Sys_socket AF_INET 1 6 4]\<rparr>"

lemma net_listening_inv: "net_inv {#} {} (listening p, net_listening)"
  by (simp add: net_inv_def table_ok_def net_listening_def net0_def world.defs held_def is_valid_def held_by_def
      smap_get_def INVALID_def smap_ok_def open_fds_def)

lemma sync_polls_account_witness:
  "\<exists>r s' w'. poll_loop two_peers (plain_sync two_peers) 1 3 3 None (listening (Select_impl {4} {} 4), net_listening) =
      (r, (s', w')) \<and> table_ok {} w' \<and> open_fds (trace w') = held s' + held_by (heap w')"
proof -
  obtain r s' w' where p: "poll_loop two_peers (plain_sync two_peers) 1 3 3 None
      (listening (Select_impl {4} {} 4), net_listening) = (r, (s', w'))"
    by (cases "poll_loop two_peers (plain_sync two_peers) 1 3 3 None (listening (Select_impl {4} {} 4), net_listening)") auto
  from sync_polls_account [OF net_listening_inv p] p show ?thesis by simp
qed

text \<open>
  stopping the synchronous server gives everything back: after any number of polls, \<open>stop\<close>
  returns, the server and its table are empty, no connection object is left, and the process
  holds exactly the descriptors it held outside the server.
\<close>

theorem sync_stop_releases_all:
  assumes "net_inv B {} (s, w)"
    and "poll_loop pf (plain_sync pf) rfuel n k since (s, w) = (r, (s', w'))"
  shows "\<exists>s2 w2. sync_stop pf (plain_sync pf) (s', w') = (Inr (), (s2, w2)) \<and> \<not> server_valid s2 \<and>
    conns w2 = [] \<and> heap w2 = [] \<and> open_fds (trace w2) = B"
proof -
  have "net_inv B {} (s', w')"
    using keeps_snd [OF poll_loop_inv assms(1), of pf rfuel n k since] assms(2) by simp
  then show ?thesis by (rule sync_stop_inv)
qed

lemma sync_stop_releases_all_witness:
  "\<exists>s2 w2. sync_stop two_peers (plain_sync two_peers)
      (snd (poll_loop two_peers (plain_sync two_peers) 1 3 2 None (listening (Epoll_impl 3), net_listening))) =
      (Inr (), (s2, w2)) \<and> \<not> server_valid s2 \<and> conns w2 = [] \<and> heap w2 = [] \<and> open_fds (trace w2) = {#}"
proof -
  obtain r s' w' where p: "poll_loop two_peers (plain_sync two_peers) 1 3 2 None
      (listening (Epoll_impl 3), net_listening) = (r, (s', w'))"
    by (cases "poll_loop two_peers (plain_sync two_peers) 1 3 2 None (listening (Epoll_impl 3), net_listening)") auto
  from sync_stop_releases_all [OF net_listening_inv p] p show ?thesis by simp
qed

text \<open>
  destroying the synchronous server gives back the descriptor of its polling object as well:
  after any number of polls the destructor returns, no connection object is left, and the
  process holds what it held before there was a server.
\<close>

theorem sync_destroy_releases_all:
  assumes "net_inv (B + held_poller (poll_impl s')) {} (s, w)"
    and "poll_loop pf (plain_sync pf) rfuel n k since (s, w) = (r, (s', w'))"
  shows "\<exists>s2 w2. sync_destroy pf (plain_sync pf) (s', w') = (Inr (), (s2, w2)) \<and>
    heap w2 = [] \<and> open_fds (trace w2) = B"
proof -
  have "net_inv (B + held_poller (poll_impl s')) {} (s', w')"
    using keeps_snd [OF poll_loop_inv assms(1), of pf rfuel n k since] assms(2) by simp
  then show ?thesis by (rule sync_destroy_inv)
qed

lemma sync_destroy_releases_all_witness:
  "\<exists>s2 w2. sync_destroy two_peers (plain_sync two_peers)
      (snd (poll_loop two_peers (plain_sync two_peers) 1 3 0 None
        (listening (Epoll_impl 3), net_listening\<lparr>trace := [Sys_epoll_create 3, Sys_socket AF_INET 1 6 4]\<rparr>))) =
      (Inr (), (s2, w2)) \<and> heap w2 = [] \<and> open_fds (trace w2) = {#}"
proof -
  let ?w = "net_listening\<lparr>trace := [Sys_epoll_create 3, Sys_socket AF_INET 1 6 4]\<rparr>"
  have p: "poll_loop two_peers (plain_sync two_peers) 1 3 0 None (listening (Epoll_impl 3), ?w) =
      (Inl Out_of_fuel, (listening (Epoll_impl 3), ?w))"
    by (simp add: prog_simps)
  have "net_inv ({#} + held_poller (poll_impl (listening (Epoll_impl 3)))) {} (listening (Epoll_impl 3), ?w)"
    by (simp add: net_inv_def table_ok_def net_listening_def net0_def world.defs held_def is_valid_def held_by_def
        smap_get_def INVALID_def smap_ok_def open_fds_def held_poller_def)
  from sync_destroy_releases_all [OF this p] p show ?thesis by simp
qed

end
