(* ===== verification/Sync_Lifetime.thy ===== *)
theory Sync_Lifetime
  imports Sync_Facts
begin

section \<open>The whole life of a synchronous server\<close>

text \<open>
  From the constructor over \<open>start\<close>, any use of the public operations and the destructor: the
  process ends with the descriptors it had before there was a server. The invariant counts the
  descriptor of the polling object with those of the server and of the connections.
\<close>

definition life :: "socket_fd multiset \<Rightarrow> 'a sync_server_scheme \<times> 'w net_scheme \<Rightarrow> bool" where
  "life B = (\<lambda>(s, w). net_inv (B + held_poller (poll_impl s)) {} (s, w))"

text \<open>Operations of the socket class know nothing of the rest of the server and its world.\<close>

definition rest_is :: "(socket_fd, conn_id) smap \<times> (conn_id, buffered) smap \<times> conn_id \<times> bool \<times> (nat option, unit) smap \<times> poller option \<Rightarrow>
  'a sync_server_scheme \<times> 'w net_scheme \<Rightarrow> bool" where
  "rest_is x = (\<lambda>(s, w). (conns w, heap w, next_id w, has_factory s, s_listeners s, poll_impl s) = x)"

lemma life_rest:
  assumes "rest_is x (s, w)" and "rest_is x (s', w')" and "life B (s, w)"
    and "open_fds (trace w) = M + held s" and "open_fds (trace w') = M + held s'"
  shows "life B (s', w')"
proof -
  have eq: "conns w' = conns w" "heap w' = heap w" "next_id w' = next_id w" "has_factory s' = has_factory s"
    "s_listeners s' = s_listeners s" "poll_impl s' = poll_impl s"
    using assms(1,2) by (auto simp: rest_is_def)
  have "open_fds (trace w) = B + held_poller (poll_impl s) + held s + held_by (heap w)"
    using assms(3) by (simp add: life_def net_inv_def)
  with assms(4) have "M = B + held_poller (poll_impl s) + held_by (heap w)"
    by (metis (no_types, lifting) add.commute add.left_commute add_left_cancel)
  with assms(3,5) eq show ?thesis
    by (simp add: life_def net_inv_def table_ok_world [of w' w] ac_simps)
qed

lemma life_owns: "life B (s, w) \<Longrightarrow> owns (B + held_poller (poll_impl s) + held_by (heap w)) (s, w)"
  by (simp add: life_def net_inv_def owns_held ac_simps)

lemma life_lift:
  assumes "\<And>M. hoare (\<lambda>sw. owns M sw \<and> Q (fst sw)) m (\<lambda>_. owns M) (\<lambda>_. owns M)"
    and "\<And>x. keeps (rest_is x) m"
  shows "hoare (\<lambda>sw. life B sw \<and> Q (fst sw)) m (\<lambda>_. life B) (\<lambda>_. life B)"
proof -
  have *: "life B sw'" if "life B sw \<and> Q (fst sw)" "m sw = (r, sw')" for r sw sw'
  proof -
    obtain s w s' w' where sw: "sw = (s, w)" "sw' = (s', w')" by (cases sw, cases sw') auto
    define M where "M = B + held_poller (poll_impl s) + held_by (heap w)"
    have o: "owns M (s, w)" using that(1) life_owns unfolding sw M_def by blast
    have "owns M (s', w')"
      using that o assms(1) [of M] unfolding sw by (cases r) (auto dest: hoare_Inr hoare_Inl)
    moreover define x where "x = (conns w, heap w, next_id w, has_factory s, s_listeners s, poll_impl s)"
    have "rest_is x (s, w)" by (simp add: rest_is_def x_def)
    moreover from keeps_snd [OF assms(2) this] that(2) have "rest_is x (s', w')" by (simp add: sw)
    ultimately show ?thesis using that(1) o life_rest unfolding sw owns_held by blast
  qed
  show ?thesis by (rule hoareI) (blast intro: *)+
qed

lemma life_lift_keeps:
  assumes "\<And>M. keeps (owns M) m" and "\<And>x. keeps (rest_is x) m"
  shows "keeps (life B) m"
  using life_lift [where Q = "\<lambda>_. True" and m = m and B = B] assms by simp

subsection \<open>What the operations of the socket leave alone\<close>

lemma rest_upd: "(\<And>s. has_factory (f s) = has_factory s \<and> s_listeners (f s) = s_listeners s \<and> poll_impl (f s) = poll_impl s) \<Longrightarrow>
    keeps (rest_is x) (upd f)"
  by (rule keeps_upd) (simp add: rest_is_def)

lemma rest_call: "keeps (rest_is x) (call pf ev)"
  by (rule keeps_call) (simp add: rest_is_def record_call_def)

lemma rest_ask: "keeps (rest_is x) (ask pf g ev)"
  by (rule keeps_ask) (simp add: rest_is_def record_call_def)

lemma rest_on_ssl:
  fixes m :: "(ssl_layer \<times> 'w net_scheme, 'r) prog"
  assumes "\<And>c h i. keeps (\<lambda>(l, w). conns w = c \<and> heap w = h \<and> next_id w = i) m"
  shows "keeps (rest_is x) (on_ssl m)"
proof (rule keeps_pairI)
  fix s :: "'s sync_server_scheme" and w :: "'w net_scheme" assume r: "rest_is x (s, w)"
  show "rest_is x (snd (on_ssl m (s, w)))"
  proof (cases "ssl s")
    case None
    with r show ?thesis by (simp add: on_ssl_def)
  next
    case (Some l)
    from keeps_snd [OF assms [of "conns w" "heap w" "next_id w"], of "(l, w)"] r Some show ?thesis
      by (auto simp: on_ssl_def rest_is_def split: prod.split)
  qed
qed

lemma layer_rest:
  "keeps (\<lambda>(l, w). conns w = c \<and> heap w = h \<and> next_id w = i) (layer_shutdown pf)"
  "keeps (\<lambda>(l, w). conns w = c \<and> heap w = h \<and> next_id w = i) (layer_attach pf fd)"
  unfolding layer_shutdown_def layer_attach_def ssl_throw_def
  by (auto intro!: hoare_rules keeps_call keeps_ask keeps_upd simp: record_call_def split: option.split)

lemmas rest_rules = hoare_rules rest_upd rest_call rest_ask rest_on_ssl layer_rest

lemma rest_close: "keeps (rest_is x) (socket_close pf)"
  unfolding socket_close_def by (auto intro!: rest_rules)

lemma rest_non_blocking: "keeps (rest_is x) (set_non_blocking pf b)"
  unfolding set_non_blocking_def Let_def by (auto intro!: rest_rules)

lemma rest_listen: "keeps (rest_is x) (socket_listen pf port backlog)"
proof -
  have loop: "keeps (rest_is x) (listen_loop pf ps)" for ps
    by (induction ps) (auto intro!: rest_rules)
  show ?thesis
    unfolding socket_listen_def finish_listen_def attach_ssl_def
    by (auto intro!: rest_rules loop split: prod.split option.split)
qed

subsection \<open>Starting\<close>

lemma notify_start_keeps: "keeps (life B) (server_notify (plain_sync pf) On_start)"
  unfolding server_notify_def plain_sync_def sync_on_start_def
  by (auto split: option.split intro!: hoare_rules life_lift_keeps [OF keeps_owns_non_blocking rest_non_blocking])

lemma life_listen:
  "hoare (\<lambda>sw. life B sw \<and> \<not> is_valid (fst sw)) (socket_listen pf port backlog) (\<lambda>_. life B) (\<lambda>_. life B)"
  by (rule life_lift [OF listen_owns rest_listen])

lemma server_listen_life:
  "hoare (\<lambda>sw. life B sw \<and> \<not> is_valid (fst sw)) (server_listen pf (plain_sync pf) port backlog)
     (\<lambda>_. life B) (\<lambda>_. life B)"
  unfolding server_listen_def
  by (rule hoare_pbind [OF life_listen]) (auto intro!: hoare_rules notify_start_keeps)

lemma life_record:
  assumes "life B (s, w)" and "\<And>M. fd_effect ev M = M"
  shows "life B (s, record_call pf ev w)"
  using assms net_inv_record [OF _ assms(2)] by (simp add: life_def)

lemma life_ask: "(\<And>r M. fd_effect (ev r) M = M) \<Longrightarrow> keeps (life B) (ask pf g ev)"
  by (rule keeps_ask) (rule life_record)

lemma life_close: "keeps (life B) (socket_close pf)"
  by (rule life_lift_keeps [OF keeps_owns_close rest_close])

text \<open>The polling object must be fresh: listening again would lose the descriptor it has.\<close>

definition no_poller :: "'a sync_server_scheme \<Rightarrow> bool" where
  "no_poller s \<longleftrightarrow> held_poller (poll_impl s) = {#}"

lemma epoll_listen_life:
  "hoare (\<lambda>sw. life B sw \<and> no_poller (fst sw)) (epoll_listen pf) (\<lambda>_. life B) (\<lambda>_. life B)"
proof -
  have *: "life B (snd (epoll_listen pf (s, w)))" if l: "life B (s, w)" and n: "no_poller s" for s and w :: "'b net_scheme"
  proof (cases "server_valid s")
    case True
    define ep where "ep = os_epoll_create pf (trace w)"
    let ?s = "s\<lparr>poll_impl := Some (Epoll_impl ep)\<rparr>" and ?w = "record_call pf (Sys_epoll_create ep) w"
    have "conns ?w = conns w" "heap ?w = heap w" "next_id ?w = next_id w" by (simp_all add: record_call_def)
    then have "life B (?s, ?w)"
      using l n by (simp add: life_def net_inv_def no_poller_def held_poller_def held_def is_valid_def
          table_ok_world [of ?w w] split: option.splits)
    then show ?thesis
      using True by (auto simp: epoll_listen_def prog_simps ep_def [symmetric] Let_def intro: life_record)
  next
    case False
    with l show ?thesis by (simp add: epoll_listen_def prog_simps)
  qed
  show ?thesis
    by (rule hoareI) (use * in \<open>metis prod.collapse snd_conv fst_conv\<close>)+
qed

lemma hoare_snd: "hoare P m (\<lambda>_. Q) (\<lambda>_. Q) \<Longrightarrow> P s \<Longrightarrow> Q (snd (m s))"
  by (cases "m s"; cases "fst (m s)") (auto dest: hoare_Inr hoare_Inl)

lemma hoare_conj:
  "hoare P m Q E \<Longrightarrow> keeps R m \<Longrightarrow> hoare (\<lambda>s. P s \<and> R s) m (\<lambda>x s. Q x s \<and> R s) (\<lambda>e s. E e s)"
  by (rule hoareI) (auto dest: hoare_Inr hoare_Inl)

lemma no_poller_rest:
  fixes m :: "('s, 'w, 'r) sync_prog"
  assumes k: "\<And>x. keeps (rest_is x) m"
  shows "keeps (\<lambda>sw. no_poller (fst sw)) m"
proof (rule keeps_pairI)
  fix s :: "'s sync_server_scheme" and w :: "'w net_scheme" assume n: "no_poller (fst (s, w))"
  let ?x = "(conns w, heap w, next_id w, has_factory s, s_listeners s, poll_impl s)"
  have "rest_is ?x (snd (m (s, w)))" by (rule keeps_snd [OF k]) (simp add: rest_is_def)
  with n show "no_poller (fst (snd (m (s, w))))" by (auto simp: rest_is_def no_poller_def split: prod.splits)
qed

lemma rest_server_listen: "keeps (rest_is x) (server_listen pf (plain_sync pf) port backlog)"
  unfolding server_listen_def server_notify_def plain_sync_def sync_on_start_def
  by (auto intro!: rest_rules rest_listen rest_non_blocking split: option.split)

abbreviation idle_life :: "socket_fd multiset \<Rightarrow> 'a sync_server_scheme \<times> 'w net_scheme \<Rightarrow> bool" where
  "idle_life B sw \<equiv> life B sw \<and> no_poller (fst sw)"

lemma life_put_select: "keeps (idle_life B) (put_select i t m)"
  unfolding put_select_def
  by (rule keeps_upd) (simp add: life_def net_inv_def no_poller_def held_poller_def held_def is_valid_def)

lemma life_guard: "keeps P (guard_fd fd)"
  by (simp add: guard_fd_def hoare_rules)

lemma keeps_conseq: "keeps P m \<Longrightarrow> (\<And>s. P s \<Longrightarrow> P' s) \<Longrightarrow> hoare P m (\<lambda>_. P') (\<lambda>_. P')"
  by (rule hoareI) (auto dest: hoare_Inr hoare_Inl)

lemma select_listen_life: "hoare (idle_life B) select_listen (\<lambda>_. life B) (\<lambda>_. life B)"
  unfolding select_listen_def
  by (rule keeps_conseq) (auto intro!: hoare_rules life_put_select life_guard split: prod.split)

text \<open>\<open>listen\<close> of a server that is closed and whose polling object is fresh.\<close>

lemma sync_listen_life:
  "hoare (\<lambda>sw. (life B sw \<and> \<not> is_valid (fst sw)) \<and> no_poller (fst sw)) (sync_listen pf (plain_sync pf) port backlog)
     (\<lambda>_. life B) (\<lambda>_. life B)"
proof -
  have drop: "hoare P m Q E \<Longrightarrow> (\<And>s. P' s \<Longrightarrow> P s) \<Longrightarrow> hoare P' m Q E"
    for P P' :: "'a sync_server_scheme \<times> 'b net_scheme \<Rightarrow> bool" and m :: "('a, 'b, 'c) sync_prog" and Q E
    by (auto simp: hoare_def)
  have impl: "hoare (idle_life B) (case impl of Select_impl _ _ _ \<Rightarrow> select_listen | Epoll_impl _ \<Rightarrow> epoll_listen pf)
      (\<lambda>_. life B) (\<lambda>_. life B)" for impl
    by (cases impl) (simp_all add: select_listen_life epoll_listen_life)
  have fin: "keeps (life B) (if ok then pret True else pthen (socket_close pf) (pret False))" for ok
    by (intro hoare_rules life_close)
  have poll: "hoare (idle_life B) (pbind (case impl of Select_impl _ _ _ \<Rightarrow> select_listen | Epoll_impl _ \<Rightarrow> epoll_listen pf)
      (\<lambda>ok. if ok then pret True else pthen (socket_close pf) (pret False))) (\<lambda>_. life B) (\<lambda>_. life B)" for impl
    by (rule hoare_pbind [OF impl fin])
  have ret: "hoare (idle_life B) (pret b) (\<lambda>_. life B) (\<lambda>_. life B)" for b :: bool
    by (simp add: hoare_def pret_def)
  have "hoare (idle_life B) (pbind (obj poll_impl) (\<lambda>p.
      if \<not> rval then pret False
      else case p of None \<Rightarrow> pret True
        | Some impl \<Rightarrow> pbind (case impl of Select_impl _ _ _ \<Rightarrow> select_listen | Epoll_impl _ \<Rightarrow> epoll_listen pf)
            (\<lambda>ok. if ok then pret True else pthen (socket_close pf) (pret False))))
      (\<lambda>_. life B) (\<lambda>_. life B)" for rval
  proof (rule hoare_pbind)
    show "hoare (idle_life B) (obj poll_impl) (\<lambda>_. idle_life B) (\<lambda>_. life B)"
      by (simp add: hoare_def prog_simps split: prod.split)
    show "hoare (idle_life B) (if \<not> rval then pret False
        else case p of None \<Rightarrow> pret True
        | Some impl \<Rightarrow> pbind (case impl of Select_impl _ _ _ \<Rightarrow> select_listen | Epoll_impl _ \<Rightarrow> epoll_listen pf)
            (\<lambda>ok. if ok then pret True else pthen (socket_close pf) (pret False))) (\<lambda>_. life B) (\<lambda>_. life B)" for p
      using poll ret by (cases rval; cases p) simp_all
  qed
  then show ?thesis
    unfolding sync_listen_def
    by (rule hoare_pbind [OF hoare_conj [OF server_listen_life no_poller_rest [OF rest_server_listen]]])
qed

subsection \<open>Polling, stopping and destroying\<close>

text \<open>Polling neither closes nor replaces the descriptor of the polling object.\<close>

definition poller_held :: "socket_fd multiset \<Rightarrow> 'a sync_server_scheme \<times> 'w net_scheme \<Rightarrow> bool" where
  "poller_held H = (\<lambda>(s, w). held_poller (poll_impl s) = H)"

lemma poller_held_select:
  "keeps (poller_held {#}) (put_select i t m)" "keeps (poller_held {#}) (select_clear c)"
  unfolding select_clear_def put_select_def
  by (auto intro!: hoare_rules keeps_upd life_guard split: prod.split simp: poller_held_def held_poller_def)

lemma poller_held_server [hoare_rules]:
  "keeps (poller_held H) (on_conn i m)" "keeps (poller_held H) (wupd f)" "keeps (poller_held H) (ask pf g ev)"
  "keeps (poller_held H) (find_socket fd)" "keeps (poller_held H) (drop_conn pf i)"
  "keeps (poller_held H) (release pf i)" "keeps (poller_held H) (remove_socket pf fd)"
  "keeps (poller_held H) (select_serve pf vt rfuel i)" "keeps (poller_held H) (wait_time pf since)"
  unfolding poller_held_def by (intro hoare_rules wait_time_keeps)+

lemma poller_held_accept:
  assumes "\<And>k fd a. keeps (poller_held H) (sv_create vt k fd a)"
  shows "keeps (poller_held H) (accept_conn pf vt fd a)"
  unfolding accept_conn_def sync_on_accept_def server_on_accept_def add_socket_def new_conn_def
  by (auto intro!: hoare_rules assms split: option.split)

lemma poller_held_iterate: "keeps (poller_held {#}) (iterate_connections pf vt rfuel n x)"
proof (induction n arbitrary: x)
  case 0
  then show ?case by (cases x) (auto intro: hoare_rules)
next
  case (Suc n)
  show ?case
    by (cases x) (auto intro!: hoare_rules poller_held_select Suc.IH split: prod.split)
qed

lemma plain_create_keeps: "keeps (poller_held H) (sv_create (plain_sync pf) k fd a)"
  by (rule keeps_pairI) (simp add: plain_sync_def default_create_def poller_held_def split: prod.split sum.split)

lemma poller_held_select_poll: "keeps (poller_held {#}) (select_poll pf (plain_sync pf) rfuel n stall)"
  unfolding select_poll_def select_accept_def socket_accept_def
  by (auto intro!: hoare_rules life_guard poller_held_select poller_held_iterate poller_held_accept plain_create_keeps
      split: prod.split)

lemma keeps_cases:
  "\<lbrakk>x = None \<Longrightarrow> keeps P m; \<And>y. x = Some y \<Longrightarrow> keeps P (n y)\<rbrakk> \<Longrightarrow> keeps P (case x of None \<Rightarrow> m | Some y \<Rightarrow> n y)"
  "(\<And>a b. p = (a, b) \<Longrightarrow> keeps P (f a b)) \<Longrightarrow> keeps P (case p of (a, b) \<Rightarrow> f a b)"
  by (simp split: option.split, simp split: prod.split)

lemma poller_held_epoll_event: "keeps (poller_held H) (epoll_event pf (plain_sync pf) rfuel x)"
  unfolding epoll_event_def epoll_write_def socket_accept_def close_conn_def
  by (intro hoare_rules keeps_cases poller_held_accept plain_create_keeps)

lemma poller_held_epoll_poll: "keeps (poller_held H) (epoll_poll pf (plain_sync pf) rfuel ep stall)"
  unfolding epoll_poll_def
  by (intro hoare_rules keeps_cases keeps_piter poller_held_epoll_event)

lemma poller_held_sync_poll: "keeps (poller_held H) (sync_poll pf (plain_sync pf) rfuel n since)"
proof -
  have impl: "keeps (poller_held H) (case impl of
        Select_impl _ _ _ \<Rightarrow> select_poll pf (plain_sync pf) rfuel n stall
      | Epoll_impl ep \<Rightarrow> epoll_poll pf (plain_sync pf) rfuel ep stall)"
    if "held_poller (Some impl) = H" for impl stall
  proof (cases impl)
    case (Select_impl i t m)
    then have "H = {#}" using that by (simp add: held_poller_def)
    then show ?thesis using Select_impl by (simp add: poller_held_select_poll)
  next
    case (Epoll_impl ep)
    then show ?thesis by (simp add: poller_held_epoll_poll)
  qed
  have "keeps (\<lambda>(s, w). held_poller (poll_impl s) = H) (sync_poll pf (plain_sync pf) rfuel n since)"
    unfolding sync_poll_def
  proof (rule keeps_obj_id, goal_cases)
    case (1 s0)
    then show ?case
      unfolding poller_held_def [symmetric]
      by (intro hoare_rules keeps_cases plain_notify_keeps impl) simp
  qed
  then show ?thesis by (simp add: poller_held_def)
qed

lemma life_split: "life B (s, w) \<longleftrightarrow> net_inv (B + held_poller (poll_impl s)) {} (s, w)"
  by (simp add: life_def)

lemma life_poll: "keeps (life B) (sync_poll pf (plain_sync pf) rfuel n since)"
proof (rule keeps_pairI)
  fix s :: "'a sync_server_scheme" and w :: "'b net_scheme" assume l: "life B (s, w)"
  let ?H = "held_poller (poll_impl s)"
  have "net_inv (B + ?H) {} (snd (sync_poll pf (plain_sync pf) rfuel n since (s, w)))"
    using l by (intro keeps_snd [OF sync_poll_inv]) (simp add: life_split)
  moreover have "poller_held ?H (snd (sync_poll pf (plain_sync pf) rfuel n since (s, w)))"
    by (rule keeps_snd [OF poller_held_sync_poll]) (simp add: poller_held_def)
  ultimately show "life B (snd (sync_poll pf (plain_sync pf) rfuel n since (s, w)))"
    by (cases "snd (sync_poll pf (plain_sync pf) rfuel n since (s, w))") (simp add: life_split poller_held_def)
qed

lemma life_loop: "keeps (life B) (poll_loop pf (plain_sync pf) rfuel n k since)"
  by (induction k arbitrary: since) (auto intro!: hoare_rules life_poll)

lemma life_run: "keeps (life B) (sync_run pf (plain_sync pf) rfuel n k)"
  unfolding sync_run_def by (auto intro!: hoare_rules life_ask life_loop)

lemma life_upd:
  "keeps (life B) (upd (\<lambda>s. s\<lparr>background := b\<rparr>))" "keeps (life B) (set_frequency f)"
  unfolding set_frequency_def
  by (rule keeps_upd; simp add: life_def net_inv_def held_def is_valid_def)+

lemma life_clear: "keeps (life B :: 'a sync_server_scheme \<times> 'w net_scheme \<Rightarrow> bool) (clear_sockets pf)"
proof (rule keeps_pairI)
  fix s :: "'a sync_server_scheme" and w :: "'w net_scheme" assume l: "life B (s, w)"
  from clear_sockets_inv [OF l [unfolded life_split], of pf] obtain w' where
    "clear_sockets pf (s, w) = (Inr (), (s, w'))" "conns w' = []" "heap w' = []"
    "open_fds (trace w') = B + held_poller (poll_impl s) + held s" by blast
  with l show "life B (snd (clear_sockets pf (s, w)))"
    by (simp add: life_split net_inv_def table_ok_def smap_get_def smap_ok_def held_by_def)
qed

lemma life_stop: "keeps (life B) (sync_stop pf (plain_sync pf))"
proof -
  have notify: "keeps (life B) (server_notify (plain_sync pf) On_stop)"
    unfolding server_notify_def plain_sync_def by (auto split: option.split intro!: hoare_rules)
  show ?thesis
    unfolding sync_stop_def server_stop_def by (intro hoare_rules notify life_close life_clear life_upd)
qed

text \<open>What a program does with the server between its start and its end.\<close>

datatype server_op = S_poll "(int \<times> int) option" | S_stop | S_frequency nat

fun exec_server :: "platform \<Rightarrow> nat \<Rightarrow> nat \<Rightarrow> server_op \<Rightarrow> ('a, 'w, unit) sync_prog" where
  "exec_server pf rfuel n (S_poll since) = pthen (sync_poll pf (plain_sync pf) rfuel n since) (pret ())"
| "exec_server pf rfuel n S_stop = sync_stop pf (plain_sync pf)"
| "exec_server pf rfuel n (S_frequency f) = set_frequency f"

fun run_server ::
  "platform \<Rightarrow> nat \<Rightarrow> nat \<Rightarrow> server_op list \<Rightarrow> 'a sync_server_scheme \<times> 'w net_scheme \<Rightarrow> 'a sync_server_scheme \<times> 'w net_scheme"
where
  "run_server pf rfuel n [] sw = sw"
| "run_server pf rfuel n (x # xs) sw = run_server pf rfuel n xs (snd (exec_server pf rfuel n x sw))"

lemma exec_server_life: "keeps (life B) (exec_server pf rfuel n x)"
  by (cases x) (auto intro!: hoare_rules life_poll life_stop life_upd)

lemma run_server_life: "life B sw \<Longrightarrow> life B (run_server pf rfuel n xs sw)"
proof (induction xs arbitrary: sw)
  case (Cons x xs)
  from keeps_snd [OF exec_server_life Cons.prems, of pf rfuel n x] show ?case by (simp add: Cons.IH)
qed simp

definition sync_start ::
  "platform \<Rightarrow> nat \<Rightarrow> nat \<Rightarrow> nat \<Rightarrow> int \<Rightarrow> int \<Rightarrow> ('a, 'w, unit) sync_prog" where
  "sync_start pf rfuel n k =
     server_start (sync_listen pf (plain_sync pf)) (sync_run pf (plain_sync pf) rfuel n k)"

lemma sync_start_life:
  fixes w :: "'w net_scheme"
  assumes "p \<in> {select_new, epoll_new}" and "conns w = []" and "heap w = []"
  shows "life (open_fds (trace w)) (snd (sync_start pf rfuel n k port backlog (sync_default p, w)))"
proof -
  let ?B = "open_fds (trace w)" and ?s = "sync_default p"
  have s: "\<not> is_valid ?s" "no_poller ?s" "has_factory ?s" "s_listeners ?s = []"
    using assms(1) by (auto simp: sync_default_def server_default_def server.defs socket.defs socket_default_def
        is_valid_def no_poller_def held_poller_def select_new_def epoll_new_def)
  then have l: "life ?B (?s, w)"
    using assms(2,3) by (simp add: life_def net_inv_def table_ok_def no_poller_def smap_get_def smap_ok_def held_by_def)
  let ?start = "pbind (sync_listen pf (plain_sync pf) port backlog) (\<lambda>ok.
      if \<not> ok then praise (Socket_exception ''unable to listen on port'') else sync_run pf (plain_sync pf) rfuel n k) ::
      (unit, 'w, unit) sync_prog"
  have "hoare (\<lambda>sw. (life ?B sw \<and> \<not> is_valid (fst sw)) \<and> no_poller (fst sw)) ?start (\<lambda>_. life ?B) (\<lambda>_. life ?B)"
    by (rule hoare_pbind [OF sync_listen_life]) (auto intro!: hoare_rules life_run)
  from hoare_snd [OF this] s l have "life ?B (snd (?start (?s, w)))" by simp
  then show ?thesis
    using s(1) by (simp add: sync_start_def server_start_def prog_simps server_valid_def)
qed

text \<open>
  C3: the whole life of a synchronous server with the default factory and without hooks and
  listeners of the user, with either polling object: it is constructed,
  started on any port, runs for any number of turns, is polled, stopped and set in any order, and
  destroyed. Whatever the kernel and the peers answer, and whether \<open>start\<close> or any poll throws, the
  destructor returns, no connection object is left, and the process holds the descriptors it held
  before.
\<close>

theorem sync_lifetime_releases:
  fixes w :: "'w net_scheme"
  assumes "p \<in> {select_new, epoll_new}" and "conns w = []" and "heap w = []"
    and "st = run_server pf rfuel n ops (snd (sync_start pf rfuel n k port backlog (sync_default p, w)))"
  shows "\<exists>s' w'. sync_destroy pf (plain_sync pf) st = (Inr (), (s', w')) \<and> heap w' = [] \<and>
    open_fds (trace w') = open_fds (trace w)"
proof -
  obtain s1 w1 where st: "st = (s1, w1)" by (cases st)
  have "life (open_fds (trace w)) (s1, w1)"
    using run_server_life [OF sync_start_life [OF assms(1-3)]] assms(4) st by simp
  then show ?thesis unfolding st by (intro sync_destroy_inv) (simp add: life_split)
qed

lemma sync_lifetime_releases_witness:
  "\<exists>s' w'. sync_destroy two_peers (plain_sync two_peers)
      (run_server two_peers 1 3 [S_poll None, S_stop, S_frequency 2]
        (snd (sync_start two_peers 1 3 2 80 10 (sync_default epoll_new, net0)))) = (Inr (), (s', w')) \<and>
    heap w' = [] \<and> open_fds (trace w') = {#}"
  using sync_lifetime_releases [of epoll_new net0 _ two_peers 1 3 "[S_poll None, S_stop, S_frequency 2]" 2 80 10]
  by (simp add: net0_def world.defs world0_def)

text \<open>
  With \<open>epoll\<close>, a second \<open>start\<close> of the same server loses a descriptor: listening replaces the one
  of the polling object without closing it.
\<close>

theorem epoll_relisten_leaks:
  assumes "poll_impl s = Some (Epoll_impl old)" and "server_valid s" and "os_epoll_create pf (trace w) = ep"
    and "ep \<noteq> INVALID" and "epoll_listen pf (s, w) = (r, (s', w'))"
  shows "poll_impl s' = Some (Epoll_impl ep) \<and> open_fds (trace w') = add_mset ep (open_fds (trace w))"
  using assms by (auto simp: epoll_listen_def prog_simps Let_def)

lemma epoll_relisten_leaks_witness:
  "open_fds (trace (snd (snd (epoll_listen granting (listening (Epoll_impl 8), net0\<lparr>trace := [Sys_epoll_create 8]\<rparr>))))) =
     {#3, 8#}"
proof -
  let ?w = "net0\<lparr>trace := [Sys_epoll_create 8]\<rparr>"
  obtain r s' w' where e: "epoll_listen granting (listening (Epoll_impl 8), ?w) = (r, (s', w'))"
    by (cases "epoll_listen granting (listening (Epoll_impl 8), ?w)") auto
  from epoll_relisten_leaks [OF _ _ _ _ e, of 8 3] e show ?thesis
    by (simp add: granting_def INVALID_def open_fds_def net0_def world.defs)
qed

end
