(* ===== verification/Sync_Order.thy ===== *)
theory Sync_Order
  imports Sync_Facts
begin

section \<open>The walk over the connections of a synchronous server\<close>

text \<open>
  \<open>iterate_connections\<close> walks over the table with an iterator while the function it calls, and
  the walk itself, change the table. The reference is a plain loop over the table as it was at the
  beginning: it serves every entry once, in the order of the descriptors, and removes those whose
  service failed.
\<close>

fun serve_each ::
  "platform \<Rightarrow> 'w conn_vtable \<Rightarrow> nat \<Rightarrow> (socket_fd \<times> conn_id) list \<Rightarrow> ('a, 'w, unit) sync_prog" where
  "serve_each pf vt rfuel [] = pret ()"
| "serve_each pf vt rfuel ((fd, i) # xs) =
     pbind (select_serve pf vt rfuel i) (\<lambda>failed.
     pthen (if failed then pthen (select_clear fd) (remove_socket pf fd) else pret ())
       (serve_each pf vt rfuel xs))"

abbreviation first_of :: "'x list \<Rightarrow> 'x option" where
  "first_of xs \<equiv> (case xs of [] \<Rightarrow> None | x # _ \<Rightarrow> Some x)"

lemma next_key_at:
  assumes "smap_ok (pre @ (fd, i) # xs)"
  shows "next_key fd (pre @ (fd, i) # xs) = first_of xs"
proof -
  have "\<forall>x\<in>set pre. fst x \<le> fd" "\<forall>x\<in>set xs. fd < fst x"
    using assms by (auto simp: smap_ok_def sorted_wrt_append)
  moreover have "dropWhile (\<lambda>(k, _). k \<le> fd) (pre @ ys) = dropWhile (\<lambda>(k, _). k \<le> fd) ys" for ys :: "(socket_fd \<times> conn_id) list"
    using calculation(1) by (intro dropWhile_append2) auto
  ultimately show ?thesis by (cases xs) (auto simp: next_key_def)
qed

lemma erase_at:
  assumes "smap_ok (pre @ (fd, i) # xs)"
  shows "smap_erase fd (pre @ (fd, i) # xs) = pre @ xs"
proof -
  have "\<forall>x\<in>set pre. fst x \<noteq> fd" "\<forall>x\<in>set xs. fst x \<noteq> fd"
    using assms by (auto simp: smap_ok_def sorted_wrt_append)
  then have "filter (\<lambda>(k, _). k \<noteq> fd) pre = pre" "filter (\<lambda>(k, _). k \<noteq> fd) xs = xs"
    by (auto simp: filter_id_conv)
  then show ?thesis by (simp add: smap_erase_def)
qed

lemma get_at: "smap_ok (pre @ (fd, i) # xs) \<Longrightarrow> smap_get (pre @ (fd, i) # xs) fd = Some i"
  by (subst smap_get_set) simp_all

text \<open>Serving a connection changes its object, not the table.\<close>

definition standing :: "socket_fd multiset \<Rightarrow> (socket_fd, conn_id) smap \<Rightarrow> 'a server_scheme \<times> 'w net_scheme \<Rightarrow> bool" where
  "standing B m = (\<lambda>(s, w). net_inv B {} (s, w) \<and> conns w = m)"

lemma standing_on_conn [hoare_rules]:
  fixes p :: "(buffered \<times> 'w net_scheme, 'x) prog"
  assumes "\<And>c0 w0. keeps (calm c0 w0) p"
  shows "keeps (standing B m) (on_conn i p)"
proof (rule keeps_pairI)
  fix s :: "'s server_scheme" and w :: "'w net_scheme"
  assume "standing B m (s, w)"
  with on_conn_calm [of p B "{}" s w i] assms show "standing B m (snd (on_conn i p (s, w)))"
    by (auto simp: standing_def split: prod.split)
qed

lemma standing_frame [hoare_rules]:
  "keeps (standing B m) (upd (\<lambda>s :: 'a sync_server_scheme. s\<lparr>poll_impl := p\<rparr>))" "keeps (standing B m) (guard_fd fd)"
  by (auto simp: guard_fd_def standing_def net_inv_def held_def is_valid_def intro!: hoare_rules keeps_upd)

lemma standing_serve: "keeps (standing B m) (select_serve pf conn_table rfuel i)"
  unfolding select_serve_def
  by (auto split: prod.split intro!: hoare_rules keeps_get_select)

lemma standing_clear: "keeps (standing B m) (select_clear c)"
  unfolding select_clear_def put_select_def
  by (auto split: prod.split intro!: hoare_rules keeps_get_select)

lemma remove_socket_conns:
  assumes "net_inv B {} (s, w)" and "remove_socket pf fd (s, w) = (r, (s', w'))"
  shows "net_inv B {} (s', w') \<and> conns w' = smap_erase fd (conns w)"
proof -
  have inv: "net_inv B {} (s', w')" using keeps_snd [OF remove_socket_inv assms(1), of pf fd] assms(2) by simp
  let ?w = "w\<lparr>conns := smap_erase fd (conns w)\<rparr>"
  show ?thesis
  proof (cases "smap_get (conns w) fd")
    case None
    with assms(2) inv show ?thesis by (auto simp: remove_socket_def find_socket_def prog_simps)
  next
    case (Some i)
    have "table_ok (insert i {}) ?w"
      using assms(1) Some by (intro table_ok_erase) (auto simp: net_inv_def intro: table_ok_mono)
    then have "net_inv B (insert i {}) (s, ?w)" using assms(1) by (simp add: net_inv_def)
    from release_inv [OF this, of pf] Some assms(2) inv show ?thesis
      by (auto simp: remove_socket_def find_socket_def prog_simps)
  qed
qed

subsection \<open>The walk is the loop\<close>

lemma iterate_each:
  fixes s :: "'a sync_server_scheme" and w :: "'w net_scheme"
  assumes "standing B (pre @ xs) (s, w)"
  shows "iterate_connections pf conn_table rfuel (length xs) (first_of xs) (s, w) = serve_each pf conn_table rfuel xs (s, w)"
  using assms
proof (induction xs arbitrary: pre s w)
  case (Cons x xs)
  obtain fd i where x: "x = (fd, i)" by (cases x)
  let ?m = "pre @ (fd, i) # xs"
  have st: "standing B ?m (s, w)" using Cons.prems x by simp
  then have "table_ok {} w" "conns w = ?m" by (auto simp: standing_def net_inv_def)
  then have ok: "smap_ok ?m" using table_okD(1) by metis
  obtain r s1 w1 where v: "select_serve pf conn_table rfuel i (s, w) = (r, (s1, w1))" by (metis surj_pair)
  with keeps_snd [OF standing_serve st] have st1: "standing B ?m (s1, w1)" by (metis snd_conv)
  show ?case
  proof (cases r)
    case (Inl e)
    with v x show ?thesis by (simp add: prog_simps)
  next
    case (Inr failed)
    let ?rest = "if failed then pthen (select_clear fd) (remove_socket pf fd) else pret ()"
    have "conns w1 = ?m" using st1 by (simp add: standing_def)
    then have l: "iterate_connections pf conn_table rfuel (length (x # xs)) (first_of (x # xs)) (s, w) =
        pthen ?rest (iterate_connections pf conn_table rfuel (length xs) (first_of xs)) (s1, w1)"
      using v x Inr get_at [OF ok] next_key_at [OF ok] by (simp add: prog_simps find_socket_def)
    have rr: "serve_each pf conn_table rfuel (x # xs) (s, w) = pthen ?rest (serve_each pf conn_table rfuel xs) (s1, w1)"
      using v x Inr by (simp add: prog_simps)
    show ?thesis
    proof (cases failed)
      case False
      have "standing B ((pre @ [(fd, i)]) @ xs) (s1, w1)" using st1 by simp
      from Cons.IH [OF this] False l rr show ?thesis by (simp add: prog_simps)
    next
      case True
      obtain r2 s2 w2 where c: "select_clear fd (s1, w1) = (r2, (s2, w2))" by (metis surj_pair)
      with keeps_snd [OF standing_clear st1] have st2: "standing B ?m (s2, w2)" by (metis snd_conv)
      obtain r3 s3 w3 where d: "remove_socket pf fd (s2, w2) = (r3, (s3, w3))" by (metis surj_pair)
      have "net_inv B {} (s2, w2)" using st2 by (simp add: standing_def)
      from remove_socket_conns [OF this d] st2 erase_at [OF ok] have "standing B (pre @ xs) (s3, w3)"
        by (simp add: standing_def)
      from Cons.IH [OF this] True c d l rr show ?thesis
        by (cases r2; cases r3) (simp_all add: prog_simps)
    qed
  qed
qed simp

text \<open>
  C6: the walk over the connections is sound although the table changes under it, for servers whose
  connections have the cleanup listener of the server, idle hooks and no listener of the user:
  whatever the kernel and the peers answer, from a consistent table it does what a loop over the
  table as it was does - each entry is served exactly once, in the order of the descriptors, and
  removed if that fails - so that the iterator does not dangle, and it ends after as many turns as
  there were entries. A listener of the user that closes the connection while it is served is
  excluded: through the cleanup listener it erases the entry under the iterator.
\<close>

theorem iterate_serves_each:
  assumes "net_inv B {} (s, w)"
  shows "iterate_connections pf conn_table rfuel (length (conns w))
      (case conns w of [] \<Rightarrow> None | x # _ \<Rightarrow> Some x) (s, w) = serve_each pf conn_table rfuel (conns w) (s, w)"
  by (rule iterate_each [where pre = "[]" and B = B]) (simp add: standing_def assms)

definition one_conn :: net where
  "one_conn = net0\<lparr>trace := [Sys_socket AF_INET 1 6 4, Sys_accept 4 9], conns := [(9, 0)],
     heap := [(0, (buffered_of_raw 9 local_addr)\<lparr>listeners := [Some 0]\<rparr>)], next_id := 1\<rparr>"

lemma one_conn_inv: "net_inv {#} {} (listening p, one_conn)"
  by (simp add: net_inv_def table_ok_def one_conn_def net0_def world.defs held_def is_valid_def held_by_def
      smap_get_def INVALID_def smap_ok_def open_fds_def conn_plain_def buffered_of_raw_def socket.defs socket_of_raw_def)

lemma iterate_serves_each_witness:
  "iterate_connections granting conn_table 1 1 (Some (9, 0)) (listening (Select_impl {9} {9} 9), one_conn) =
    serve_each granting conn_table 1 [(9, 0)] (listening (Select_impl {9} {9} 9), one_conn)"
proof -
  have "conns one_conn = [(9, 0)]" by (simp add: one_conn_def)
  with iterate_serves_each [OF one_conn_inv, of granting 1 "Select_impl {9} {9} 9"] show ?thesis by simp
qed

subsection \<open>A connection that is ready is served\<close>

text \<open>The listener of the server acts on the closing of a connection only.\<close>

lemma idle_parts:
  "v_on_recv idle_vtable = pret" "v_hook idle_vtable ev = pret ()" "v_listener idle_vtable i ev = pret ()"
  by (auto simp: idle_vtable_def fun_eq_iff socket_on_recv_def)

lemma conn_table_notify:
  assumes "ev \<noteq> Closed"
  shows "notify conn_table ev = notify idle_vtable ev"
proof -
  have e: "v_listener conn_table i ev = pret ()" for i using assms by simp
  show ?thesis unfolding notify_def call_listener_def e idle_parts conn_table_simps(2) ..
qed

lemma conn_table_chunk: "read_chunk pf conn_table = read_chunk pf idle_vtable"
  by (rule ext) (simp only: read_chunk_def idle_parts conn_table_simps(1) cong: if_cong)

lemma conn_table_loop: "read_loop pf conn_table fuel d = read_loop pf idle_vtable fuel d"
  by (induction fuel arbitrary: d) (simp_all add: conn_table_chunk cong: if_cong)

lemma conn_table_io:
  "read_to_buffer pf conn_table fuel = read_to_buffer pf idle_vtable fuel"
  "write_from_buffer pf conn_table = write_from_buffer pf idle_vtable"
  by (simp_all add: read_to_buffer_def write_from_buffer_def conn_table_notify conn_table_chunk conn_table_loop cong: if_cong)

lemma write_all_run:
  assumes "is_valid c" and "ssl c = None" and "None \<notin> set (listeners c)" and "outBuffer c \<noteq> []" and "length (outBuffer c) < 2 ^ 31"
    and "os_send pf (trace w) (raw_sock c) (outBuffer c) 0 = int (length (outBuffer c))"
  shows "write_from_buffer pf idle_vtable (c, w) = (Inr True, (c\<lparr>outBuffer := []\<rparr>,
    record_call pf (Sys_send (raw_sock c) (outBuffer c) 0 (int (length (outBuffer c)))) w))"
proof -
  have n: "notify idle_vtable Will_write (c, w) = (Inr (), (c, w))" using assms(3) by (rule notify_idle)
  from write_from_buffer_run [OF assms(1,4) n assms(1,2) refl assms(4,5) assms(6) [symmetric] _ _ refl] assms(3)
  show ?thesis by (simp add: prog_simps notify_idle)
qed

text \<open>The function of \<open>poll\<close>, put together from its calls on the connection.\<close>

lemma serve_by_parts:
  assumes "on_conn i (obj id) (s, w) = (Inr c, (s, w))" and "is_valid c" and "fd_ok (raw_sock c)"
    and "get_select (s, w) = (Inr (ins, outs, k), (s, w))"
    and "(if raw_sock c \<in> ins then on_conn i (read_to_buffer pf vt fuel) else pret True) (s, w) = (Inr True, (s, w1))"
    and "on_conn i (obj id) (s, w1) = (Inr c1, (s, w1))" and "fd_ok (raw_sock c1)"
    and "(if raw_sock c1 \<in> outs \<and> has_output c1 then pbind (on_conn i (write_from_buffer pf vt)) (\<lambda>sent. pret (\<not> sent))
      else pret False) (s, w1) = (r, sw2)"
  shows "select_serve pf vt fuel i (s, w) = (r, sw2)"
proof -
  have g: "guard_fd (raw_sock c) = pret ()" "guard_fd (raw_sock c1) = pret ()"
    using assms(3,7) by (simp_all add: guard_fd_def)
  have u: "pthen (pret ()) m = m" for m :: "('x, 'y) prog" by (rule ext) (simp add: prog_simps)
  have "pbind (on_conn i (obj id)) (\<lambda>c'. pthen (guard_fd (raw_sock c')) (if raw_sock c' \<in> outs \<and> has_output c'
      then pbind (on_conn i (write_from_buffer pf vt)) (\<lambda>sent. pret (\<not> sent)) else pret False)) (s, w1) = (r, sw2)"
    unfolding pbind_Inr [where m = "on_conn i (obj id)" and s = "(s, w1)" and x = c1 and s' = "(s, w1)", OF assms(6)] g u by (rule assms(8))
  then show ?thesis
    by (simp only: select_serve_def pbind_Inr [where m = "on_conn i (obj id)" and s = "(s, w)" and x = c and s' = "(s, w)", OF assms(1)] assms(2) not_True_eq_False if_False g u
        pbind_Inr [where m = get_select and s = "(s, w)", OF assms(4)] prod.case pbind_Inr [where m = "if raw_sock c \<in> ins then on_conn i (read_to_buffer pf vt fuel) else pret True"
          and s = "(s, w)" and x = True and s' = "(s, w1)", OF assms(5)])
qed

end
