(* ===== verification/Output_Queue.thy ===== *)
theory Output_Queue
  imports Buffered_Facts
begin

section \<open>The output side of a buffered socket is a queue\<close>

text \<open>
  The abstract channel: what has been delivered to the peer and what is pending. Writing appends
  to what is pending; a flush delivers everything that is pending, or nothing. Over a kernel that
  takes a send whole or refuses it, the writing operations of a buffered socket refine it; over one
  that takes a part they do not: what was sent is sent again.
\<close>

datatype queue_op = Q_write string | Q_writeln string | Q_newline | Q_flush

fun queued :: "queue_op \<Rightarrow> byte list" where
  "queued (Q_write s) = bytes_of s"
| "queued (Q_writeln s) = bytes_of s @ NEWLINE"
| "queued Q_newline = NEWLINE"
| "queued Q_flush = []"

inductive channel :: "queue_op list \<Rightarrow> byte list \<times> byte list \<Rightarrow> byte list \<times> byte list \<Rightarrow> bool" where
  stop: "channel [] c c"
| put: "x \<noteq> Q_flush \<Longrightarrow> channel xs (d, p @ queued x) c \<Longrightarrow> channel (x # xs) (d, p) c"
| flush: "channel xs (d @ p, []) c \<Longrightarrow> channel (Q_flush # xs) (d, p) c"
| refuse: "channel xs (d, p) c \<Longrightarrow> channel (Q_flush # xs) (d, p) c"

lemma channel_fifo: "channel xs (d, p) (d', p') \<Longrightarrow> d' @ p' = d @ p @ concat (map queued xs)"
  by (induction xs "(d, p)" "(d', p')" arbitrary: d p rule: channel.induct) auto

subsection \<open>The operations\<close>

fun exec_queue :: "platform \<Rightarrow> queue_op \<Rightarrow> ('a, 'w, unit) bprog" where
  "exec_queue pf (Q_write s) = buf_write s"
| "exec_queue pf (Q_writeln s) = buf_writeln s"
| "exec_queue pf Q_newline = buf_newline"
| "exec_queue pf Q_flush = buf_flush pf idle_vtable"

fun run_queue :: "platform \<Rightarrow> queue_op list \<Rightarrow> ('a, 'w) bstate \<Rightarrow> ('a, 'w) bstate" where
  "run_queue pf [] sw = sw"
| "run_queue pf (x # xs) sw = run_queue pf xs (snd (exec_queue pf x sw))"

definition sends_whole :: "platform \<Rightarrow> socket_fd \<Rightarrow> bool" where
  "sends_whole pf fd \<longleftrightarrow> (\<forall>tr bs. os_send pf tr fd bs 0 \<in> {-1, 0, int (length bs)})"

definition takes_all :: "platform \<Rightarrow> socket_fd \<Rightarrow> bool" where
  "takes_all pf fd \<longleftrightarrow> (\<forall>tr bs. os_send pf tr fd bs 0 = int (length bs))"

lemma granting_takes_all: "takes_all granting fd"
  by (simp add: takes_all_def granting_def)

definition channel_of :: "('a, 'w) bstate \<Rightarrow> byte list \<times> byte list" where
  "channel_of = (\<lambda>(s, w). (wire (raw_sock s) (trace w), outBuffer s))"

lemma put_run:
  assumes "x \<noteq> Q_flush"
  shows "exec_queue pf x (s, w) = (Inr (), (s\<lparr>outBuffer := outBuffer s @ queued x\<rparr>, w))"
  using assms by (cases x) (simp_all add: buf_write_def buf_writeln_def buf_newline_def prog_simps)

lemma flush_run:
  assumes "is_valid s" and "ssl s = None" and "None \<notin> set (listeners s)" and "sends_whole pf (raw_sock s)"
    and "length (outBuffer s) < 2 ^ 31"
  shows "\<exists>w'. exec_queue pf Q_flush (s, w) = (Inr (), (s, w')) \<and> wire (raw_sock s) (trace w') = wire (raw_sock s) (trace w) \<or>
    exec_queue pf Q_flush (s, w) = (Inr (), (s\<lparr>outBuffer := []\<rparr>, w')) \<and>
      wire (raw_sock s) (trace w') = wire (raw_sock s) (trace w) @ outBuffer s"
proof (cases "outBuffer s = []")
  case True
  then show ?thesis using assms(1) by (simp add: buf_flush_def write_from_buffer_def prog_simps)
next
  case False
  let ?r = "os_send pf (trace w) (raw_sock s) (outBuffer s) 0"
  let ?w = "record_call pf (Sys_send (raw_sock s) (outBuffer s) 0 ?r) w"
  have r: "?r = -1 \<or> ?r = 0 \<or> ?r = int (length (outBuffer s))"
    using assms(4) by (auto simp: sends_whole_def)
  note run = write_from_buffer_run [OF assms(1) False notify_idle [OF assms(3), of Will_write w] assms(1,2) refl False assms(5) refl _ _ refl, of pf]
  from r run have "wire (raw_sock s) (trace ?w) = wire (raw_sock s) (trace w) @ take (nat ?r) (outBuffer s)"
    "write_from_buffer pf idle_vtable (s, w) =
      (if ?r = int (length (outBuffer s))
       then pthen (notify idle_vtable Did_write) (pret True) (s\<lparr>outBuffer := []\<rparr>, ?w)
       else (Inr False, (s, ?w)))"
    by auto
  with r assms(3) False show ?thesis by (auto simp: buf_flush_def prog_simps notify_idle)
qed

lemma run_queue_channel:
  assumes "is_valid s" and "ssl s = None" and "None \<notin> set (listeners s)" and "sends_whole pf (raw_sock s)"
    and "length (outBuffer s) + length (concat (map queued ops)) < 2 ^ 31"
  shows "channel ops (channel_of (s, w)) (channel_of (run_queue pf ops (s, w)))"
  using assms
proof (induction ops arbitrary: s w)
  case Nil
  show ?case by (simp add: channel.stop)
next
  case (Cons x xs)
  show ?case
  proof (cases "x = Q_flush")
    case True
    from Cons.prems have "length (outBuffer s) < 2 ^ 31" by simp
    from flush_run [OF Cons.prems(1-4) this, of w] True obtain w' s1 where
      e: "exec_queue pf Q_flush (s, w) = (Inr (), (s1, w'))"
      and c: "s1 = s \<and> wire (raw_sock s) (trace w') = wire (raw_sock s) (trace w) \<or>
        s1 = s\<lparr>outBuffer := []\<rparr> \<and> wire (raw_sock s) (trace w') = wire (raw_sock s) (trace w) @ outBuffer s"
      by metis
    have ih: "channel xs (channel_of (s1, w')) (channel_of (run_queue pf xs (s1, w')))"
      using c Cons.prems True by (intro Cons.IH) auto
    have "run_queue pf (x # xs) (s, w) = run_queue pf xs (s1, w')" using e True by simp
    with c ih True show ?thesis
      by (auto simp: channel_of_def intro: channel.flush channel.refuse)
  next
    case False
    let ?s = "s\<lparr>outBuffer := outBuffer s @ queued x\<rparr>"
    have "channel xs (channel_of (?s, w)) (channel_of (run_queue pf xs (?s, w)))"
      using Cons.prems by (intro Cons.IH) simp_all
    with False show ?thesis
      by (auto simp: channel_of_def put_run split: prod.splits intro: channel.put)
  qed
qed

text \<open>
  C25: the output side of a buffered socket without TLS, whose listeners do nothing, refines the
  channel: over a kernel that takes a send
  whole or refuses it, any sequence of writes, line writes and flushes is a run of the abstract
  channel, so what the peer has received and what is still in the buffer, in this order, is exactly
  what was there before and what has been written since: nothing is lost, repeated or reordered.
\<close>

theorem output_refines_channel:
  assumes "is_valid s" and "ssl s = None" and "None \<notin> set (listeners s)" and "sends_whole pf (raw_sock s)"
    and "length (outBuffer s) + length (concat (map queued ops)) < 2 ^ 31"
    and "run_queue pf ops (s, w) = (s', w')"
  shows "channel ops (wire (raw_sock s) (trace w), outBuffer s) (wire (raw_sock s') (trace w'), outBuffer s') \<and>
    wire (raw_sock s') (trace w') @ outBuffer s' =
      wire (raw_sock s) (trace w) @ outBuffer s @ concat (map queued ops)"
  using run_queue_channel [OF assms(1-5), of w] channel_fifo assms(6) by (simp add: channel_of_def)

lemma output_refines_channel_witness:
  "\<exists>s' w'. run_queue granting [Q_writeln ''hi'', Q_flush, Q_write ''x''] (sock0, world0) = (s', w') \<and>
    wire (raw_sock s') (trace w') @ outBuffer s' = bytes_of ''hi'' @ NEWLINE @ bytes_of ''x''"
proof -
  let ?ops = "[Q_writeln ''hi'', Q_flush, Q_write ''x'']"
  obtain s' w' where r: "run_queue granting ?ops (sock0, world0) = (s', w')"
    by (cases "run_queue granting ?ops (sock0, world0)")
  have k: "sends_whole granting (raw_sock sock0)" by (simp add: sends_whole_def granting_def)
  have l: "length (outBuffer sock0) + length (concat (map queued ?ops)) < 2 ^ 31" by (simp add: NEWLINE_def)
  from output_refines_channel [OF sock0_simps(1-3) k l r] r show ?thesis by (simp add: world0_def)
qed

end
