(* ===== verification/Sync_Service.thy ===== *)
theory Sync_Service
  imports Sync_Order Output_Queue
begin

section \<open>One poll serves every connection that is ready\<close>

text \<open>
  The composition of the polling object, the table, the walk over it and the buffered sockets: a
  poll with \<open>select\<close> gives every connection what the answer of \<open>select\<close> promises it, and touches
  nothing else. The connections are as the server makes them: without TLS, non-blocking, with the
  listener of the server.
\<close>

definition reads_of :: "socket_fd \<Rightarrow> history \<Rightarrow> history" where
  "reads_of fd tr = filter (\<lambda>e. case e of Sys_recv fd' _ _ _ \<Rightarrow> fd' = fd | _ \<Rightarrow> False) tr"

text \<open>The kernel has the chunks \<open>ds\<close> for \<open>fd\<close>, whatever the process does on other descriptors first.\<close>

definition waiting :: "platform \<Rightarrow> socket_fd \<Rightarrow> history \<Rightarrow> byte list list \<Rightarrow> bool" where
  "waiting pf fd tr ds \<longleftrightarrow> (\<forall>tr'. reads_of fd tr' = reads_of fd tr \<longrightarrow> (\<exists>err. serves pf fd tr' ds err \<and> would_block err))"

lemma waiting_cong: "reads_of fd tr' = reads_of fd tr \<Longrightarrow> waiting pf fd tr' ds = waiting pf fd tr ds"
  by (simp add: waiting_def)

lemma reads_of_simps [simp]:
  "reads_of fd (tr @ tr') = reads_of fd tr @ reads_of fd tr'" "reads_of fd [] = []"
  "reads_of fd (Sys_recv fd' n f r # tr) = (if fd' = fd then Sys_recv fd' n f r # reads_of fd tr else reads_of fd tr)"
  "reads_of fd (Sys_send fd' bs f r # tr) = reads_of fd tr"
  "reads_of fd (Sys_select m i t st r # tr) = reads_of fd tr"
  by (simp_all add: reads_of_def)

text \<open>What becomes of a connection: its input when it can be read, its output when it can be written.\<close>

definition served :: "socket_fd set \<Rightarrow> socket_fd set \<Rightarrow> byte list list \<Rightarrow> socket_fd \<Rightarrow> buffered \<Rightarrow> buffered" where
  "served ins outs ds fd c = c\<lparr>inBuffer := inBuffer c @ (if fd \<in> ins then concat ds else []),
     outBuffer := if fd \<in> outs then [] else outBuffer c\<rparr>"

text \<open>What a poll needs of a connection and of the kernel.\<close>

definition can_serve ::
  "platform \<Rightarrow> nat \<Rightarrow> socket_fd set \<Rightarrow> socket_fd set \<Rightarrow> (socket_fd \<Rightarrow> byte list list) \<Rightarrow> socket_fd \<Rightarrow> conn_id \<Rightarrow> 'w net_scheme \<Rightarrow> bool"
where
  "can_serve pf rfuel ins outs ds fd i w \<longleftrightarrow> fd_ok fd \<and>
     (\<exists>c. smap_get (heap w) i = Some c \<and> is_valid c \<and> non_blocking c \<and> length (outBuffer c) < 2 ^ 31) \<and>
     (fd \<in> ins \<longrightarrow> waiting pf fd (trace w) (ds fd) \<and> length (ds fd) \<le> rfuel) \<and> (fd \<in> outs \<longrightarrow> takes_all pf fd)"

lemma after_reads_simps [simp]:
  "wire fd' (trace (after_reads pf fd ds w)) = wire fd' (trace w)"
  "fd' \<noteq> fd \<Longrightarrow> reads_of fd' (trace (after_reads pf fd ds w)) = reads_of fd' (trace w)"
  "conns (after_reads pf fd ds v) = conns v" "heap (after_reads pf fd ds v) = heap v" "next_id (after_reads pf fd ds v) = next_id v"
  by (induction ds arbitrary: w v) (simp_all add: record_call_def)

subsection \<open>One connection\<close>

definition touches :: "socket_fd \<Rightarrow> byte list \<Rightarrow> 'w net_scheme \<Rightarrow> 'w net_scheme \<Rightarrow> bool" where
  "touches fd x w w' \<longleftrightarrow> conns w' = conns w \<and>
     (\<forall>fd'. wire fd' (trace w') = wire fd' (trace w) @ (if fd' = fd then x else []) \<and>
       (fd' \<noteq> fd \<longrightarrow> reads_of fd' (trace w') = reads_of fd' (trace w)))"

lemma touches_trans: "touches fd x w w1 \<Longrightarrow> touches fd y w1 w2 \<Longrightarrow> touches fd (x @ y) w w2"
  by (auto simp: touches_def)

lemma touches_refl: "touches fd [] w w"
  by (simp add: touches_def)

lemma put_same: "smap_ok m \<Longrightarrow> smap_get m i = Some c \<Longrightarrow> smap_put i c m = m"
  by (rule smap_ext) (auto simp: smap_put_ok sm.get_put)

text \<open>The read and the write of a connection in the heap, each when it is reported.\<close>

lemma read_reported:
  assumes "smap_ok (heap w)" and "smap_get (heap w) i = Some c" and "is_valid c" and "non_blocking c" and "conn_plain c"
    and "raw_sock c = fd" and "fd \<in> ins \<longrightarrow> waiting pf fd (trace w) ds \<and> length ds \<le> rfuel"
  shows "\<exists>w'. (if fd \<in> ins then on_conn i (read_to_buffer pf conn_table rfuel) else pret True) (s, w) = (Inr True, (s, w')) \<and>
    touches fd [] w w' \<and> heap w' = smap_put i (c\<lparr>inBuffer := inBuffer c @ (if fd \<in> ins then concat ds else [])\<rparr>) (heap w)"
proof (cases "fd \<in> ins")
  case True
  have p: "ssl c = None" "None \<notin> set (listeners c)" using assms(5) by (auto simp: conn_plain_def)
  obtain err where "serves pf fd (trace w) ds err" "would_block err" using assms(7) True unfolding waiting_def by blast
  from read_drains_run [OF assms(3) p(1) assms(4) p(2) this(1) [folded assms(6)] this(2)] assms(2,6,7) True
  show ?thesis by (simp add: on_conn_def conn_table_io touches_def record_call_def)
next
  case False
  moreover have "c\<lparr>inBuffer := inBuffer c\<rparr> = c" by simp
  ultimately show ?thesis using assms(1,2) by (simp add: prog_simps touches_refl put_same)
qed

lemma write_reported:
  assumes "smap_ok (heap w)" and "smap_get (heap w) i = Some c" and "is_valid c" and "conn_plain c"
    and "raw_sock c = fd" and "fd \<in> outs \<longrightarrow> takes_all pf fd" and "length (outBuffer c) < 2 ^ 31"
  shows "\<exists>w'. (if fd \<in> outs \<and> has_output c
      then pbind (on_conn i (write_from_buffer pf conn_table)) (\<lambda>sent. pret (\<not> sent)) else pret False) (s, w) = (Inr False, (s, w')) \<and>
    touches fd (if fd \<in> outs then outBuffer c else []) w w' \<and>
    heap w' = smap_put i (c\<lparr>outBuffer := if fd \<in> outs then [] else outBuffer c\<rparr>) (heap w)"
proof (cases "fd \<in> outs \<and> has_output c")
  case True
  have p: "ssl c = None" "None \<notin> set (listeners c)" using assms(4) by (auto simp: conn_plain_def)
  have o: "outBuffer c \<noteq> []" using True by (simp add: has_output_def)
  have "os_send pf (trace w) (raw_sock c) (outBuffer c) 0 = int (length (outBuffer c))"
    using assms(5,6) True by (simp add: takes_all_def)
  from write_all_run [OF assms(3) p o assms(7) this] assms(2,5) True
  show ?thesis by (simp add: on_conn_def conn_table_io touches_def record_call_def prog_simps)
next
  case False
  then have "c\<lparr>outBuffer := if fd \<in> outs then [] else outBuffer c\<rparr> = c" by (cases c) (auto simp: has_output_def)
  moreover have "(if fd \<in> outs then outBuffer c else []) = []" using False by (simp add: has_output_def)
  ultimately show ?thesis
    unfolding if_not_P [OF False] using assms(1,2) by (simp add: prog_simps touches_refl put_same)
qed

lemma serve_reported:
  assumes "net_inv B {} (s, w)" and "poll_impl s = Some (Select_impl ins outs k)" and "smap_get (conns w) fd = Some i"
    and "can_serve pf rfuel ins outs ds fd i w" and "smap_get (heap w) i = Some c"
  shows "\<exists>w'. select_serve pf conn_table rfuel i (s, w) = (Inr False, (s, w')) \<and>
    touches fd (if fd \<in> outs then outBuffer c else []) w w' \<and> heap w' = smap_put i (served ins outs (ds fd) fd c) (heap w)"
proof -
  note t = assms(1) [unfolded net_inv_def, simplified]
  have ok: "smap_ok (heap w)" using t table_okD(2) by blast
  have c: "is_valid c" "non_blocking c" "length (outBuffer c) < 2 ^ 31" "fd_ok fd"
    "fd \<in> ins \<longrightarrow> waiting pf fd (trace w) (ds fd) \<and> length (ds fd) \<le> rfuel" "fd \<in> outs \<longrightarrow> takes_all pf fd"
    using assms(4,5) by (auto simp: can_serve_def)
  have fd: "raw_sock c = fd" using t table_okD(5) assms(3,5) c(1) by fastforce
  have p: "conn_plain c" using t table_okD(4) assms(5) by blast
  let ?c1 = "c\<lparr>inBuffer := inBuffer c @ (if fd \<in> ins then concat (ds fd) else [])\<rparr>"
  obtain w1 where rd: "(if fd \<in> ins then on_conn i (read_to_buffer pf conn_table rfuel) else pret True) (s, w) = (Inr True, (s, w1))"
    "touches fd [] w w1" "heap w1 = smap_put i ?c1 (heap w)"
    using read_reported [where s = s, OF ok assms(5) c(1,2) p fd c(5)] by blast
  have w1: "smap_ok (heap w1)" "smap_get (heap w1) i = Some ?c1" using ok rd(3) by (simp_all add: smap_put_ok sm.get_put)
  have c1: "is_valid ?c1" "conn_plain ?c1" "raw_sock ?c1 = fd" "length (outBuffer ?c1) < 2 ^ 31"
    using c p fd by (simp_all add: is_valid_def conn_plain_def)
  obtain w2 where wr: "(if fd \<in> outs \<and> has_output ?c1 then pbind (on_conn i (write_from_buffer pf conn_table)) (\<lambda>sent. pret (\<not> sent))
      else pret False) (s, w1) = (Inr False, (s, w2))" "touches fd (if fd \<in> outs then outBuffer ?c1 else []) w1 w2"
    "heap w2 = smap_put i (?c1\<lparr>outBuffer := if fd \<in> outs then [] else outBuffer ?c1\<rparr>) (heap w1)"
    using write_reported [where s = s, OF w1 c1(1-3) c(6) c1(4)] by blast
  have gs: "get_select (s, v) = (Inr (ins, outs, k), (s, v))" for v
    using assms(2) by (simp add: get_select_def prog_simps)
  have "select_serve pf conn_table rfuel i (s, w) = (Inr False, (s, w2))"
  proof (rule serve_by_parts)
    show "on_conn i (obj id) (s, w) = (Inr c, (s, w))" using on_conn_obj [OF ok assms(5), of id s] by simp
    show "on_conn i (obj id) (s, w1) = (Inr ?c1, (s, w1))" using on_conn_obj [OF w1, of id s] by simp
    show "get_select (s, w) = (Inr (ins, outs, k), (s, w))" by (rule gs)
    show "is_valid c" "fd_ok (raw_sock c)" "fd_ok (raw_sock ?c1)" using c(1,4) fd c1(3) by simp_all
  qed (use rd(1) wr(1) in \<open>simp_all only: fd c1(3)\<close>)
  moreover have "heap w2 = smap_put i (served ins outs (ds fd) fd c) (heap w)"
    using ok wr(3) rd(3) by (intro smap_ext) (auto simp: smap_put_ok sm.get_put served_def)
  ultimately show ?thesis using touches_trans [OF rd(2) wr(2)] by auto
qed

subsection \<open>All of them\<close>

definition served_all ::
  "socket_fd set \<Rightarrow> socket_fd set \<Rightarrow> (socket_fd \<Rightarrow> byte list list) \<Rightarrow> (socket_fd \<times> conn_id) list \<Rightarrow>
     'w net_scheme \<Rightarrow> 'w net_scheme \<Rightarrow> bool" where
  "served_all ins outs ds xs w w' \<longleftrightarrow> conns w' = conns w \<and>
     (\<forall>(fd, i)\<in>set xs. \<exists>c. smap_get (heap w) i = Some c \<and> smap_get (heap w') i = Some (served ins outs (ds fd) fd c) \<and>
        wire fd (trace w') = wire fd (trace w) @ (if fd \<in> outs then outBuffer c else [])) \<and>
     (\<forall>i. i \<notin> snd ` set xs \<longrightarrow> smap_get (heap w') i = smap_get (heap w) i) \<and>
     (\<forall>fd. fd \<notin> fst ` set xs \<longrightarrow> wire fd (trace w') = wire fd (trace w))"

lemma can_serve_other:
  assumes "can_serve pf rfuel ins outs ds fd i w" and "touches fd' x w w'" and "heap w' = smap_put i' c (heap w)"
    and "smap_ok (heap w)" and "fd \<noteq> fd'" and "i \<noteq> i'"
  shows "can_serve pf rfuel ins outs ds fd i w'"
proof -
  have "waiting pf fd (trace w') (ds fd) = waiting pf fd (trace w) (ds fd)"
    using assms(2,5) by (intro waiting_cong) (simp add: touches_def)
  with assms show ?thesis by (simp add: can_serve_def sm.get_put)
qed

lemma served_all_Cons:
  assumes "smap_ok (heap w)" and "smap_get (heap w) i = Some c" and "heap w1 = smap_put i (served ins outs (ds fd) fd c) (heap w)"
    and "touches fd (if fd \<in> outs then outBuffer c else []) w w1" and "served_all ins outs ds xs w1 w'"
    and "\<And>fd' i'. (fd', i') \<in> set xs \<Longrightarrow> fd' \<noteq> fd \<and> i' \<noteq> i"
  shows "served_all ins outs ds ((fd, i) # xs) w w'"
proof -
  have h: "smap_get (heap w1) j = (if j = i then Some (served ins outs (ds fd) fd c) else smap_get (heap w) j)" for j
    using assms(1,3) by (simp add: sm.get_put)
  have t: "conns w1 = conns w" "wire fd' (trace w1) = wire fd' (trace w) @ (if fd' = fd then if fd \<in> outs then outBuffer c else [] else [])" for fd'
    using assms(4) by (auto simp: touches_def)
  have n: "i \<notin> snd ` set xs" "fd \<notin> fst ` set xs" using assms(6) by force+
  have s: "conns w' = conns w1"
    "\<And>fd' i'. (fd', i') \<in> set xs \<Longrightarrow> \<exists>c. smap_get (heap w1) i' = Some c \<and> smap_get (heap w') i' = Some (served ins outs (ds fd') fd' c) \<and>
      wire fd' (trace w') = wire fd' (trace w1) @ (if fd' \<in> outs then outBuffer c else [])"
    "\<And>j. j \<notin> snd ` set xs \<Longrightarrow> smap_get (heap w') j = smap_get (heap w1) j"
    "\<And>fd'. fd' \<notin> fst ` set xs \<Longrightarrow> wire fd' (trace w') = wire fd' (trace w1)"
    using assms(5) unfolding served_all_def by blast+
  let ?G = "\<lambda>(fd', i'). \<exists>c. smap_get (heap w) i' = Some c \<and> smap_get (heap w') i' = Some (served ins outs (ds fd') fd' c) \<and>
      wire fd' (trace w') = wire fd' (trace w) @ (if fd' \<in> outs then outBuffer c else [])"
  have "?G (fd', i')" if "(fd', i') \<in> set xs" for fd' i'
    using s(2) [OF that] assms(6) [OF that] h t(2) by simp
  moreover have "?G (fd, i)" using s(3) [OF n(1)] s(4) [OF n(2)] h t(2) assms(2) by simp
  ultimately have "?G x" if "x \<in> set ((fd, i) # xs)" for x
    using that by (cases x) (simp only: list.set insert_iff prod.inject, blast)
  then have "\<forall>x\<in>set ((fd, i) # xs). ?G x" by (rule ballI)
  moreover have "smap_get (heap w') j = smap_get (heap w) j" if "j \<noteq> i" "j \<notin> snd ` set xs" for j
    using s(3) [OF that(2)] h that(1) by simp
  moreover have "wire fd' (trace w') = wire fd' (trace w)" if "fd' \<noteq> fd" "fd' \<notin> fst ` set xs" for fd'
    using s(4) [OF that(2)] t(2) that(1) by simp
  ultimately show ?thesis unfolding served_all_def using s(1) t(1) by (intro conjI) simp_all
qed

lemma serve_each_reported:
  assumes "standing B m (s, w)" and "poll_impl s = Some (Select_impl ins outs k)"
    and "\<forall>(fd, i)\<in>set xs. smap_get m fd = Some i \<and> can_serve pf rfuel ins outs ds fd i w" and "distinct (map fst xs)"
  shows "\<exists>w'. serve_each pf conn_table rfuel xs (s, w) = (Inr (), (s, w')) \<and> served_all ins outs ds xs w w'"
  using assms(1,3,4)
proof (induction xs arbitrary: w)
  case Nil
  show ?case by (intro exI [of _ w]) (simp add: prog_simps served_all_def)
next
  case (Cons x xs)
  obtain fd i where x: "x = (fd, i)" by (cases x)
  have inv: "net_inv B {} (s, w)" "conns w = m" using Cons.prems(1) by (simp_all add: standing_def)
  then have tab: "table_ok {} w" by (simp add: net_inv_def)
  note ok = table_okD(2) [OF tab]
  have cs: "can_serve pf rfuel ins outs ds fd i w" and i: "smap_get m fd = Some i" using Cons.prems(2) x by auto
  then obtain c where c: "smap_get (heap w) i = Some c" by (auto simp: can_serve_def)
  from serve_reported [OF inv(1) assms(2) _ cs c] i inv(2)
  obtain w1 where w1: "select_serve pf conn_table rfuel i (s, w) = (Inr False, (s, w1))"
    "touches fd (if fd \<in> outs then outBuffer c else []) w w1" "heap w1 = smap_put i (served ins outs (ds fd) fd c) (heap w)"
    by auto
  have st: "standing B m (s, w1)" using keeps_snd [OF standing_serve Cons.prems(1)] w1(1) by (metis snd_conv)
  have other: "fd' \<noteq> fd \<and> i' \<noteq> i" if "(fd', i') \<in> set xs" for fd' i'
  proof -
    have "fd' \<noteq> fd" using Cons.prems(3) x that by force
    moreover have "smap_get m fd' = Some i'" using Cons.prems(2) that by auto
    ultimately show ?thesis using table_okD(6) [OF tab] i inv(2) by blast
  qed
  have "\<forall>(fd', i')\<in>set xs. smap_get m fd' = Some i' \<and> can_serve pf rfuel ins outs ds fd' i' w1"
    using Cons.prems(2) other can_serve_other [OF _ w1(2,3) ok] by fastforce
  from Cons.IH [OF st this] Cons.prems(3)
  obtain w' where w': "serve_each pf conn_table rfuel xs (s, w1) = (Inr (), (s, w'))" "served_all ins outs ds xs w1 w'" by auto
  have "serve_each pf conn_table rfuel (x # xs) (s, w) = (Inr (), (s, w'))" using x w1(1) w'(1) by (simp add: prog_simps)
  moreover have "served_all ins outs ds (x # xs) w w'"
    unfolding x by (rule served_all_Cons [OF ok c w1(3,2) w'(2)]) (use other in blast)
  ultimately show ?case by blast
qed

subsection \<open>A poll\<close>

lemma can_serve_record:
  assumes "can_serve pf rfuel ins outs ds fd i w" and "reads_of fd [ev] = []"
  shows "can_serve pf rfuel ins outs ds fd i (record_call pf ev w)"
proof -
  have "waiting pf fd (trace w @ [ev]) (ds fd) = waiting pf fd (trace w) (ds fd)"
    using assms(2) by (intro waiting_cong) simp
  with assms(1) show ?thesis by (simp add: can_serve_def record_call_def)
qed

text \<open>
  C5: what a poll of a server with the default factory does for its connections: let \<open>select\<close> report
  the descriptors \<open>ins\<close> for reading and \<open>outs\<close> for writing, the listening one not among \<open>ins\<close>, so that
  nothing is accepted in this poll. Let every connection of the table be valid, without TLS and non-blocking,
  with a descriptor that fits the sets, an output buffer below 2^31 bytes, and no listener but
  the server's own; for those of \<open>ins\<close> the kernel has the chunks \<open>ds fd\<close>, at most one per unit of
  fuel, and then would block, and for those of \<open>outs\<close> it takes every send whole. Then the poll appends
  to the input buffer of each connection of \<open>ins\<close> all that the kernel had for it, sends its peer the
  whole output buffer of each connection of \<open>outs\<close>, and leaves the table and all other buffers as they
  were: no connection is lost, none is served twice, no byte goes to another peer.
\<close>

theorem poll_serves_reported:
  assumes "net_inv B {} (s, w)" and "server_valid s" and "poll_impl s = Some (Select_impl i t k)"
    and "os_select pf (trace w) i t stall = (r, ins, outs)" and "0 \<le> r" and "fd_ok (raw_sock s)" and "raw_sock s \<notin> ins"
    and "\<forall>(fd, i)\<in>set (conns w). can_serve pf rfuel ins outs ds fd i w"
  shows "\<exists>w'. select_poll pf (plain_sync pf) rfuel (length (conns w)) stall (s, w) =
      (Inr (), (s\<lparr>poll_impl := Some (Select_impl ins outs k)\<rparr>, w')) \<and> served_all ins outs ds (conns w) w w'"
proof -
  let ?w = "record_call pf (Sys_select (k + 1) i t stall r) w" and ?s = "s\<lparr>poll_impl := Some (Select_impl ins outs k)\<rparr>"
  have same: "conns ?w = conns w" "heap ?w = heap w" by (simp_all add: record_call_def)
  have "net_inv B {} (s, ?w)" using assms(1) by (rule net_inv_record) simp
  then have st: "standing B (conns w) (?s, ?w)"
    using same by (simp add: standing_def net_inv_def held_def is_valid_def)
  then have "table_ok {} ?w" by (simp add: standing_def net_inv_def)
  then have ok: "smap_ok (conns w)" using table_okD(1) same by metis
  have "\<forall>(fd, i)\<in>set (conns w). smap_get (conns w) fd = Some i \<and> can_serve pf rfuel ins outs ds fd i ?w"
    using assms(8) ok can_serve_record [of pf rfuel ins outs ds _ _ w "Sys_select (k + 1) i t stall r"]
    by (fastforce simp: smap_get_set)
  from serve_each_reported [OF st _ this] ok
  obtain w' where e: "serve_each pf conn_table rfuel (conns w) (?s, ?w) = (Inr (), (?s, w'))"
    "served_all ins outs ds (conns w) ?w w'"
    by (auto simp: smap_ok_def strict_sorted_iff)
  have "iterate_connections pf conn_table rfuel (length (conns w)) (first_of (conns w)) (?s, ?w) = (Inr (), (?s, w'))"
    using iterate_each [of B "[]" "conns w" ?s ?w pf rfuel] st e(1) by simp
  moreover have "server_valid ?s" using assms(2) by (simp add: server_valid_def is_valid_def)
  moreover have "sv_conn (plain_sync pf) = conn_table" by (simp add: plain_sync_def)
  ultimately have "select_poll pf (plain_sync pf) rfuel (length (conns w)) stall (s, w) = (Inr (), (?s, w'))"
    using assms(2-7) same by (simp add: select_poll_def get_select_def put_select_def guard_fd_def prog_simps)
  moreover have "served_all ins outs ds (conns w) w w'" using e(2) same unfolding served_all_def by simp
  ultimately show ?thesis by blast
qed

text \<open>Two connections: one has something to read, the other something to send.\<close>

definition busy_conn :: "socket_fd \<Rightarrow> byte list \<Rightarrow> buffered" where
  "busy_conn fd out = (buffered_of_raw fd local_addr)\<lparr>non_blocking := True, listeners := [Some 0], outBuffer := out\<rparr>"

lemma busy_conn_simps [simp]:
  "raw_sock (busy_conn fd out) = fd" "ssl (busy_conn fd out) = None" "non_blocking (busy_conn fd out)"
  "listeners (busy_conn fd out) = [Some 0]" "outBuffer (busy_conn fd out) = out" "inBuffer (busy_conn fd out) = []"
  by (simp_all add: busy_conn_def buffered_of_raw_def socket_of_raw_def socket.defs)

definition busy_net :: net where
  "busy_net = net0\<lparr>trace := [Sys_socket AF_INET 1 6 4, Sys_accept 4 9, Sys_accept 4 10], conns := [(9, 0), (10, 1)],
     heap := [(0, busy_conn 9 []), (1, busy_conn 10 [33])], next_id := 2\<rparr>"

lemma busy_net_simps [simp]:
  "trace busy_net = [Sys_socket AF_INET 1 6 4, Sys_accept 4 9, Sys_accept 4 10]" "conns busy_net = [(9, 0), (10, 1)]"
  "heap busy_net = [(0, busy_conn 9 []), (1, busy_conn 10 [33])]" "next_id busy_net = 2"
  by (simp_all add: busy_net_def net0_def world.defs)

lemma busy_net_inv: "net_inv {#} {} (listening p, busy_net)"
  by (simp add: net_inv_def table_ok_def held_def is_valid_def held_by_def smap_get_def INVALID_def smap_ok_def
      open_fds_def conn_plain_def) (intro exI [of _ 9], simp)

definition two_ready :: platform where
  "two_ready = granting\<lparr>
     os_select := (\<lambda>_ _ _ _. (2, {9}, {9, 10})),
     os_recv := (\<lambda>tr fd _ _. if reads_of fd tr = [] then (2, [104, 105]) else (-1, [])),
     os_errno := (\<lambda>_ _. EAGAIN)\<rparr>"

lemma two_ready_serves:
  "can_serve two_ready 3 {9} {9, 10} (\<lambda>_. [[104, 105]]) 9 0 busy_net" "can_serve two_ready 3 {9} {9, 10} (\<lambda>_. [[104, 105]]) 10 1 busy_net"
  by (auto simp: can_serve_def smap_get_def is_valid_def INVALID_def fd_ok_def FD_SETSIZE_def waiting_def takes_all_def
      two_ready_def granting_def MAXRECV_def would_block_def reads_of_def)

lemma poll_serves_reported_witness:
  "\<exists>w'. select_poll two_ready (plain_sync two_ready) 3 (Suc (Suc 0)) None (listening (Select_impl {4, 9} {10} 10), busy_net) =
      (Inr (), (listening (Select_impl {9} {9, 10} 10), w')) \<and>
    smap_get (heap w') 0 = Some ((busy_conn 9 [])\<lparr>inBuffer := [104, 105], outBuffer := []\<rparr>) \<and> wire 10 (trace w') = [33]"
proof -
  let ?s = "listening (Select_impl {4, 9} {10} 10)"
  have a: "server_valid ?s" "poll_impl ?s = Some (Select_impl {4, 9} {10} 10)" by simp_all
  have k: "os_select two_ready (trace busy_net) {4, 9} {10} None = (2, {9}, {9, 10})" by (simp add: two_ready_def)
  have l: "fd_ok (raw_sock ?s)" "raw_sock ?s \<notin> {9}" by (simp_all add: fd_ok_def FD_SETSIZE_def)
  have c: "\<forall>(fd, i)\<in>set (conns busy_net). can_serve two_ready 3 {9} {9, 10} (\<lambda>_. [[104, 105]]) fd i busy_net"
    using two_ready_serves by simp
  have n: "?s\<lparr>poll_impl := Some (Select_impl {9} {9, 10} 10)\<rparr> = listening (Select_impl {9} {9, 10} 10)"
    by (simp add: listening_def sync_default_def server_default_def server.defs socket.defs)
  obtain w' where p: "select_poll two_ready (plain_sync two_ready) 3 (length (conns busy_net)) None (?s, busy_net) =
      (Inr (), (listening (Select_impl {9} {9, 10} 10), w'))"
    and d: "served_all {9} {9, 10} (\<lambda>_. [[104, 105]]) (conns busy_net) busy_net w'"
    using poll_serves_reported [OF busy_net_inv a k _ l c] unfolding n by auto
  from d have "smap_get (heap w') 0 = Some (served {9} {9, 10} [[104, 105]] 9 (busy_conn 9 []))"
    "wire 10 (trace w') = wire 10 (trace busy_net) @ [33]"
    by (simp_all add: served_all_def smap_get_def)
  with p show ?thesis by (intro exI [of _ w']) (simp add: served_def)
qed

end
