(* ===== verification/Async.thy ===== *)
theory Async
  imports Poll_Facts
begin

section \<open>The asynchronous server and client (\<open>async/server.cpp\<close>, \<open>async/client.cpp\<close>)\<close>

text \<open>
  \<open>async::default_client\<close> serves its connection in a thread that \<open>on_connect\<close> starts and the
  destructor joins; \<open>async::server\<close> accepts in a loop. The model runs a client's thread where it
  is joined: until then the accepting thread does nothing that the client could see. The thread
  runs on the object that started it, so the thread of a client that was moved serves the
  moved-from object, which has no socket. A thread that is dropped without being joined ends the
  process, and so does an exception that leaves the function of a thread.
\<close>

datatype client_thread = No_thread | Own_thread | Moved_thread

record default_client = buffered +
  thread :: client_thread

definition client_of_base :: "buffered \<Rightarrow> default_client" where
  "client_of_base b = buffered.extend b \<lparr>thread = No_thread\<rparr>"

definition client_default :: default_client where
  "client_default = client_of_base buffered_default"

definition client_of_raw :: "socket_fd \<Rightarrow> sockaddr \<Rightarrow> default_client" where
  "client_of_raw fd a = client_of_base (buffered_of_raw fd a)"

text \<open>\<open>default_client(host, port)\<close> connects in the base class: no thread is started.\<close>

definition client_open ::
  "platform \<Rightarrow> string \<Rightarrow> int \<Rightarrow> 'w world_scheme \<Rightarrow> (exn + default_client) \<times> 'w world_scheme" where
  "client_open pf host port w =
     (case buffered_open pf host port w of
        (Inl e, w') \<Rightarrow> (Inl e, w')
      | (Inr b, w') \<Rightarrow> (Inr (client_of_base b), w'))"

definition client_on_connect :: "('a default_client_ext, 'w, unit) bprog" where
  "client_on_connect =
     pbind (obj thread) (\<lambda>t.
     if t \<noteq> No_thread then praise Aborted else upd (\<lambda>c. c\<lparr>thread := Own_thread\<rparr>))"

definition moved_thread :: "client_thread \<Rightarrow> client_thread" where
  "moved_thread t = (if t = No_thread then No_thread else Moved_thread)"

definition client_move :: "'a default_client_scheme \<Rightarrow> default_client \<times> 'a default_client_scheme" where
  "client_move other =
     (case buf_move other of (base, other') \<Rightarrow>
        (buffered.extend base \<lparr>thread = moved_thread (thread other)\<rparr>, other'\<lparr>thread := No_thread\<rparr>))"

definition default_client_move_assign ::
  "platform \<Rightarrow> ('a default_client_ext, 'w) vtable \<Rightarrow> 'b default_client_scheme \<Rightarrow>
     ('a default_client_ext, 'w, 'b default_client_scheme) bprog" where
  "default_client_move_assign pf vt other =
     pbind (buf_move_assign pf vt other) (\<lambda>other'.
     pbind (obj thread) (\<lambda>t.
     if t \<noteq> No_thread then praise Aborted
     else pthen (upd (\<lambda>c. c\<lparr>thread := moved_thread (thread other)\<rparr>))
            (pret (other'\<lparr>thread := No_thread\<rparr>))))"

text \<open>\<open>run\<close>.\<close>

fun client_run :: "platform \<Rightarrow> ('a, 'w) vtable \<Rightarrow> nat \<Rightarrow> nat \<Rightarrow> ('a, 'w, unit) bprog" where
  "client_run pf vt rfuel 0 = praise Out_of_fuel"
| "client_run pf vt rfuel (Suc n) =
     pbind (obj is_valid) (\<lambda>v.
     if \<not> v then pret ()
     else
       pbind (write_from_buffer pf vt) (\<lambda>sent.
       if \<not> sent then buf_close pf vt
       else
         pbind (obj is_valid) (\<lambda>v.
         if \<not> v then pret ()
         else
           pbind (read_to_buffer pf vt rfuel) (\<lambda>got.
           if \<not> got then buf_close pf vt else client_run pf vt rfuel n))))"

text \<open>The destructor joins the thread, then the base classes go.\<close>

definition client_destroy ::
  "platform \<Rightarrow> ('a default_client_ext, 'w) vtable \<Rightarrow> nat \<Rightarrow> nat \<Rightarrow> ('a default_client_ext, 'w, unit) bprog" where
  "client_destroy pf vt rfuel n =
     pthen (pbind (obj thread) (\<lambda>t. if t = Own_thread then pnoexcept (client_run pf vt rfuel n) else pret ()))
       (socket_destroy pf)"

subsection \<open>The server\<close>

definition async_default :: server where
  "async_default = server_default"

definition async_move :: "'a server_scheme \<Rightarrow> server \<times> 'a server_scheme" where
  "async_move other = server_move other"

definition async_on_start :: "platform \<Rightarrow> ('a, 'w, unit) srv_prog" where
  "async_on_start pf = set_non_blocking pf False"

text \<open>
  Move assignment calls itself on the same arguments; \<open>None\<close> is a call that does not return.
\<close>

partial_function (option) async_move_assign ::
  "'a server_scheme \<Rightarrow> 'b server_scheme \<Rightarrow> ('a server_scheme \<times> 'b server_scheme) option" where
  "async_move_assign this other = async_move_assign this other"

text \<open>
  The loop of \<open>run\<close> with a factory of \<open>default_client\<close>s that keeps no pointer: the pointer that
  \<open>on_accept\<close> returns is the last one, and dropping it destroys the client.
\<close>

definition serve_client ::
  "platform \<Rightarrow> (unit default_client_ext, 'w) vtable \<Rightarrow> nat \<Rightarrow> nat \<Rightarrow> socket_fd \<Rightarrow> sockaddr \<Rightarrow> ('o \<times> 'w world_scheme, unit) prog"
where
  "serve_client pf vt rfuel n fd a = (\<lambda>(s, w).
     case pthen client_on_connect (client_destroy pf vt rfuel n) (client_of_raw fd a, w) of
       (r, (c, w')) \<Rightarrow> (r, (s, w')))"

fun async_run ::
  "platform \<Rightarrow> (unit default_client_ext, 'w) vtable \<Rightarrow> nat \<Rightarrow> nat \<Rightarrow> nat \<Rightarrow>
     ('a server_scheme \<times> 'w world_scheme, unit) prog" where
  "async_run pf vt rfuel n 0 = praise Out_of_fuel"
| "async_run pf vt rfuel n (Suc k) =
     pbind (obj server_valid) (\<lambda>v.
     if \<not> v then pret ()
     else
       pbind (socket_accept pf) (\<lambda>(sys_sock, a).
       if sys_sock = INVALID then async_run pf vt rfuel n k
       else pthen (serve_client pf vt rfuel n sys_sock a) (async_run pf vt rfuel n k)))"

subsection \<open>Facts\<close>

text \<open>Assigning to an asynchronous server never returns: the operator calls itself.\<close>

theorem async_move_assign_diverges: "async_move_assign this other = None"
proof -
  have no: False if "async_move_assign this other = Some y" for y
    by (rule async_move_assign.raw_induct [where P = "\<lambda>_ _ _. False", OF _ that]) blast
  then show ?thesis by (cases "async_move_assign this other") auto
qed

text \<open>A peer that has closed the connection: every read of the descriptor returns 0.\<close>

definition at_eof :: "platform \<Rightarrow> socket_fd \<Rightarrow> bool" where
  "at_eof pf fd \<longleftrightarrow> (\<forall>tr. os_recv pf tr fd MAXRECV 0 = (0, []))"

lemma read_at_eof:
  assumes "is_valid s" and "ssl s = None" and "listeners s = []" and "at_eof pf (raw_sock s)"
  shows "read_to_buffer pf idle_vtable rfuel (s, w) =
    (Inr True, (s, record_call pf (Sys_recv (raw_sock s) MAXRECV 0 0) w))"
proof -
  have "os_recv pf (trace w) (raw_sock s) MAXRECV 0 = (0, [])" using assms(4) by (simp add: at_eof_def)
  with read_chunk_eof [OF assms(1,2) this] assms(3) show ?thesis
    by (simp add: read_to_buffer_def prog_simps notify_idle)
qed

text \<open>
  A client whose peer has closed the connection never stops: nothing to read is success, so
  the loop spins, one read of the closed connection per turn, for as many turns as it is given,
  and the connection is not closed.
\<close>

lemma client_run_spins:
  assumes "is_valid s" and "ssl s = None" and "listeners s = []" and "outBuffer s = []"
    and "at_eof pf (raw_sock s)"
  shows "\<exists>w'. client_run pf idle_vtable rfuel n (s, w) = (Inl Out_of_fuel, (s, w')) \<and>
    trace w' = trace w @ replicate n (Sys_recv (raw_sock s) MAXRECV 0 0)"
proof (induction n arbitrary: w)
  case 0
  show ?case by (simp add: prog_simps)
next
  case (Suc n)
  let ?w = "record_call pf (Sys_recv (raw_sock s) MAXRECV 0 0) w"
  have wr: "write_from_buffer pf idle_vtable (s, w) = (Inr True, (s, w))"
    using assms by (simp add: write_from_buffer_def prog_simps)
  have "client_run pf idle_vtable rfuel (Suc n) (s, w) = client_run pf idle_vtable rfuel n (s, ?w)"
    using assms(1) wr read_at_eof [OF assms(1-3,5), of rfuel w] by (simp add: prog_simps)
  with Suc.IH [of ?w] show ?case by simp
qed

lemma client_of_raw_simps [simp]:
  "raw_sock (client_of_raw fd a) = fd" "ssl (client_of_raw fd a) = None"
  "listeners (client_of_raw fd a) = []" "outBuffer (client_of_raw fd a) = []"
  "thread (client_of_raw fd a) = No_thread"
  by (simp_all add: client_of_raw_def client_of_base_def buffered.defs buffered_of_raw_def socket.defs socket_of_raw_def)

text \<open>
  The asynchronous server serves one client at a time: dropping the accepted client joins
  its thread, so while the first client's loop has not ended - here because its peer is gone -
  the server makes no second \<open>accept\<close>, however many turns both loops are given.
\<close>

theorem async_server_serves_one:
  assumes "server_valid s" and "os_accept pf (trace w) (raw_sock s) = (fd, a)" and "fd \<noteq> INVALID"
    and "at_eof pf fd" and "0 < k"
  shows "\<exists>w'. async_run pf idle_vtable rfuel n k (s, w) = (Inl Out_of_fuel, (s, w')) \<and>
    trace w' = trace w @ Sys_accept (raw_sock s) fd # replicate n (Sys_recv fd MAXRECV 0 0)"
proof -
  obtain k' where k: "k = Suc k'" using assms(5) by (cases k) auto
  let ?c = "(client_of_raw fd a)\<lparr>thread := Own_thread\<rparr>"
  let ?w = "record_call pf (Sys_accept (raw_sock s) fd) w"
  have c: "is_valid ?c" "ssl ?c = None" "listeners ?c = []" "outBuffer ?c = []" "raw_sock ?c = fd"
    using assms(3) by (simp_all add: is_valid_def)
  obtain w' where r: "client_run pf idle_vtable rfuel n (?c, ?w) = (Inl Out_of_fuel, (?c, w'))"
    "trace w' = trace ?w @ replicate n (Sys_recv fd MAXRECV 0 0)"
    using client_run_spins [OF c(1-4), of pf rfuel n ?w] assms(4) c(5) by auto
  have "async_run pf idle_vtable rfuel n k (s, w) = (Inl Out_of_fuel, (s, w'))"
    using assms(1-3) r(1) k
    by (simp add: prog_simps socket_accept_def serve_client_def client_on_connect_def client_destroy_def)
  with r(2) show ?thesis by auto
qed

lemma async_server_serves_one_witness:
  "\<exists>w'. async_run granting idle_vtable 1 2 5 (listening epoll_new, world0) =
      (Inl Out_of_fuel, (listening epoll_new, w')) \<and>
    trace w' = Sys_accept 4 9 # replicate 2 (Sys_recv 9 500 0 0)"
  using async_server_serves_one [of "listening epoll_new" granting world0 9 local_addr 5 1 2]
  by (simp add: granting_def at_eof_def world0_def MAXRECV_def INVALID_def)

text \<open>The calls that \<open>set_non_blocking\<close> makes.\<close>

definition fcntl_call :: "socket_fd \<Rightarrow> sysev \<Rightarrow> bool" where
  "fcntl_call fd e \<longleftrightarrow> (case e of Sys_fcntl_get f _ \<Rightarrow> f = fd | Sys_fcntl_set f _ \<Rightarrow> f = fd | _ \<Rightarrow> False)"

lemma default_create_calls:
  "\<exists>c w1 evs. default_create pf fd a (s, w) = (Inr c, (s, w1)) \<and> raw_sock c = fd \<and> ssl c = None \<and>
     listeners c = [] \<and> trace w1 = trace w @ evs \<and> (\<forall>e\<in>set evs. fcntl_call fd e)"
  by (auto simp: default_create_def set_non_blocking_def prog_simps Let_def buffered_of_raw_def socket.defs
      socket_of_raw_def fcntl_call_def)

text \<open>
  with the default factory a server that runs the accepting loop drops every connection: the
  connection it has just accepted is shut down and closed before the next one is waited for, and
  nothing is read from it.
\<close>

theorem accept_loop_drops:
  fixes w :: "'w net_scheme"
  assumes "server_valid s" and "os_accept pf (trace w) (raw_sock s) = (fd, a)" and "fd \<noteq> INVALID"
    and "sv_create vt = (\<lambda>_. default_create pf)" and "sv_conn vt = idle_vtable"
  shows "\<exists>w' evs. accept_loop pf vt (Suc k) (s, w) = accept_loop pf vt k (s, w') \<and>
    trace w' = trace w @ Sys_accept (raw_sock s) fd # evs @ [Sys_shutdown fd, Sys_close fd] \<and>
    (\<forall>e\<in>set evs. fcntl_call fd e)"
proof -
  let ?w1 = "record_call pf (Sys_accept (raw_sock s) fd) w"
  obtain c w2 evs where cr: "default_create pf fd a (s, ?w1) = (Inr c, (s, w2))"
    and c: "raw_sock c = fd" "ssl c = None" "listeners c = []"
    and evs: "trace w2 = trace ?w1 @ evs" "\<forall>e\<in>set evs. fcntl_call fd e"
    using default_create_calls by blast
  let ?i = "next_id w2"
  let ?w3 = "w2\<lparr>heap := smap_put ?i c (heap w2), next_id := Suc ?i\<rparr>"
  let ?w4 = "?w3\<lparr>heap := smap_put ?i c (heap ?w3)\<rparr>"
  have "has_factory s" using assms(1) by (simp add: server_valid_def)
  then have acc: "server_on_accept vt fd a (s, ?w1) = (Inr ?i, (s, ?w4))"
    using cr assms(4,5) c(3) by (auto simp: server_on_accept_def prog_simps new_conn_def on_conn_def notify_idle)
  obtain c' w5 where d: "socket_destroy pf (c, ?w4) = (Inr (), (c', w5))"
    "trace w5 = trace ?w4 @ [Sys_shutdown fd, Sys_close fd]"
    using c assms(3) by (auto simp: socket_destroy_def socket_close_def set_ssl_def prog_simps)
  obtain w6 where w6: "drop_conn pf ?i (s, ?w4) = (Inr (), (s, w6))" "trace w6 = trace w5"
    using d(1) by (simp add: drop_conn_def on_conn_def prog_simps)
  have "accept_loop pf vt (Suc k) (s, w) = accept_loop pf vt k (s, w6)"
    using assms(1-3) acc w6(1) by (simp add: prog_simps socket_accept_def)
  moreover have "trace w6 = trace w @ Sys_accept (raw_sock s) fd # evs @ [Sys_shutdown fd, Sys_close fd]"
    using w6(2) d(2) evs(1) by simp
  ultimately show ?thesis using evs(2) by blast
qed

lemma accept_loop_drops_witness:
  "\<exists>w' evs. accept_loop granting ((plain_sync granting)\<lparr>sv_conn := idle_vtable\<rparr>) 3 (listening epoll_new, net0) =
      accept_loop granting ((plain_sync granting)\<lparr>sv_conn := idle_vtable\<rparr>) 2 (listening epoll_new, w') \<and>
    trace w' = Sys_accept 4 9 # evs @ [Sys_shutdown 9, Sys_close 9] \<and> (\<forall>e\<in>set evs. fcntl_call 9 e)"
proof -
  have "server_valid (listening epoll_new)" by simp
  moreover have "os_accept granting (trace net0) (raw_sock (listening epoll_new)) = (9, local_addr)"
    by (simp add: granting_def)
  moreover have "(9 :: int) \<noteq> INVALID" by (simp add: INVALID_def)
  moreover have "sv_create ((plain_sync granting)\<lparr>sv_conn := idle_vtable\<rparr>) = (\<lambda>_. default_create granting)"
    by (simp add: plain_sync_def)
  ultimately have "\<exists>w' evs. accept_loop granting ((plain_sync granting)\<lparr>sv_conn := idle_vtable\<rparr>) (Suc 2)
        (listening epoll_new, net0) =
      accept_loop granting ((plain_sync granting)\<lparr>sv_conn := idle_vtable\<rparr>) 2 (listening epoll_new, w') \<and>
    trace w' = trace net0 @ Sys_accept (raw_sock (listening epoll_new)) 9 # evs @ [Sys_shutdown 9, Sys_close 9] \<and>
    (\<forall>e\<in>set evs. fcntl_call 9 e)"
    by (rule accept_loop_drops) simp
  moreover have "trace net0 = []" by (simp add: net0_def world.defs world0_def)
  ultimately show ?thesis by (simp only: listening_simps append_Nil eval_nat_numeral)
qed

end
