(* ===== verification/Background.thy ===== *)
theory Background
  imports Sync_Lifetime Async
begin

section \<open>Stopping a server that polls in the background (\<open>start_in_background\<close>, \<open>stop\<close>)\<close>

text \<open>
  \<open>start_in_background\<close> runs the polling loop in a thread, and another thread calls \<open>stop\<close>, which
  closes the socket and waits for the loop to end. Here the two threads take turns in any order.
  A place in a thread is a value of \<open>spot\<close>, \<open>gate\<close> or \<open>phase\<close>; an action is one access to the socket that
  both share, one system call, or a stretch of code that touches nothing the other thread uses:
  it accepts a connection, serves one event, or walks over the connections under their lock. The
  actions are the operations of the sequential model, and a thread that is left alone computes what
  that model computes. The close of the socket and the assignment after it are one action: in
  between, the polling thread can only make calls on a descriptor that is closed.
\<close>

type_synonym clock = "(int \<times> int) option"

subsection \<open>Actions\<close>

text \<open>
  A thread is at one of its places, has left its function, or was ended by an exception. An action
  runs a program and goes where its result says, or where its exception does.
\<close>

datatype 'p place = Going 'p | Left | Died exn

definition does :: "(exn \<Rightarrow> 'p) \<Rightarrow> ('s, 'x) prog \<Rightarrow> ('x \<Rightarrow> 'p) \<Rightarrow> 's \<Rightarrow> 'p \<times> 's" where
  "does dies m k s = (case m s of (Inl e, s') \<Rightarrow> (dies e, s') | (Inr x, s') \<Rightarrow> (k x, s'))"

subsection \<open>The polling thread\<close>

datatype spot =
    At_loop clock
  | At_poll clock
  | At_wait poller clock
  | At_impl poller clock clock
  | At_sock clock clock
  | At_select socket_fd clock clock
  | At_isset socket_fd "socket_fd set" clock
  | At_accept clock
  | At_accepted socket_fd sockaddr clock
  | At_iterate clock
  | At_connections clock
  | At_epoll socket_fd clock clock
  | At_events "(socket_fd \<times> nat) list" clock
  | At_notify clock

definition select_wait :: "platform \<Rightarrow> clock \<Rightarrow> ('a, 'w, socket_fd set) sync_prog" where
  "select_wait pf stall =
     pbind get_select (\<lambda>(i, t, m).
     pbind (ask pf (\<lambda>tr. os_select pf tr i t stall) (\<lambda>(r, _). Sys_select (m + 1) i t stall r)) (\<lambda>(r, i', t').
     pthen (put_select i' t' m)
    (pbind (wget errno) (\<lambda>err.
     if r < 0 \<and> err \<noteq> EINTR then praise (Socket_exception (os_strerror pf err)) else pret i'))))"

definition select_take ::
  "platform \<Rightarrow> ('a sync_server_ext, 'w) server_vtable \<Rightarrow> socket_fd \<Rightarrow> sockaddr \<Rightarrow> ('a, 'w, unit) sync_prog" where
  "select_take pf vt sock a =
     pthen (accept_conn pf vt sock a)
    (pbind get_select (\<lambda>(i, t, m).
     pthen (guard_fd sock) (put_select (insert sock i) (insert sock t) (max m sock))))"

definition epoll_wait ::
  "platform \<Rightarrow> socket_fd \<Rightarrow> clock \<Rightarrow> ('a, 'w, (socket_fd \<times> nat) list) sync_prog" where
  "epoll_wait pf ep stall =
     pbind (ask pf (\<lambda>tr. os_epoll_wait pf tr ep (epoll_timeout stall))
              (\<lambda>(n, _). Sys_epoll_wait ep (epoll_timeout stall) n)) (\<lambda>(n, events).
     pbind (wget errno) (\<lambda>err.
     if n = INVALID then praise (Socket_exception (os_strerror pf err))
     else pret (take (min (nat n) MAXEVENTS) events)))"

fun act ::
  "platform \<Rightarrow> ('a sync_server_ext, 'w) server_vtable \<Rightarrow> nat \<Rightarrow> nat \<Rightarrow> spot \<Rightarrow>
     'a sync_server_scheme \<times> 'w net_scheme \<Rightarrow> spot place \<times> ('a sync_server_scheme \<times> 'w net_scheme)" where
  "act pf vt rfuel n (At_loop since) =
     does Died (obj server_valid) (\<lambda>v. if v then Going (At_poll since) else Left)"
| "act pf vt rfuel n (At_poll since) =
     does Died (obj id) (\<lambda>s. Going
       (if \<not> server_valid s then At_loop since
        else case poll_impl s of None \<Rightarrow> At_loop since | Some impl \<Rightarrow> At_wait impl since))"
| "act pf vt rfuel n (At_wait impl since) =
     does Died (wait_time pf since) (\<lambda>(stall, since'). Going (At_impl impl stall since'))"
| "act pf vt rfuel n (At_impl (Select_impl i t m) stall since) =
     does Died (obj server_valid) (\<lambda>v. Going (if v then At_sock stall since else At_notify since))"
| "act pf vt rfuel n (At_impl (Epoll_impl ep) stall since) =
     does Died (obj server_valid) (\<lambda>v. Going
       (if \<not> v \<and> ep \<noteq> INVALID then At_notify since else At_epoll ep stall since))"
| "act pf vt rfuel n (At_sock stall since) =
     does Died (obj raw_sock) (\<lambda>fd. Going (At_select fd stall since))"
| "act pf vt rfuel n (At_select fd stall since) =
     does Died (select_wait pf stall) (\<lambda>ready. Going (At_isset fd ready since))"
| "act pf vt rfuel n (At_isset fd ready since) =
     does Died (guard_fd fd) (\<lambda>_. Going (if fd \<in> ready then At_accept since else At_iterate since))"
| "act pf vt rfuel n (At_accept since) =
     does Died (socket_accept pf)
       (\<lambda>(sock, a). Going (if sock = INVALID then At_iterate since else At_accepted sock a since))"
| "act pf vt rfuel n (At_accepted sock a since) =
     does Died (select_take pf vt sock a) (\<lambda>_. Going (At_iterate since))"
| "act pf vt rfuel n (At_iterate since) =
     does Died (obj server_valid) (\<lambda>v. Going (if v then At_connections since else At_notify since))"
| "act pf vt rfuel n (At_connections since) =
     does Died (pbind (wget (\<lambda>w. case conns w of [] \<Rightarrow> None | x # _ \<Rightarrow> Some x))
       (iterate_connections pf (sv_conn vt) rfuel n)) (\<lambda>_. Going (At_notify since))"
| "act pf vt rfuel n (At_epoll ep stall since) =
     does Died (epoll_wait pf ep stall) (\<lambda>events. Going (At_events events since))"
| "act pf vt rfuel n (At_events [] since) = does Died (pret ()) (\<lambda>_. Going (At_notify since))"
| "act pf vt rfuel n (At_events (x # xs) since) =
     does Died (epoll_event pf vt rfuel x) (\<lambda>_. Going (At_events xs since))"
| "act pf vt rfuel n (At_notify since) = does Died (sync_notify_poll vt) (\<lambda>_. Going (At_loop since))"

subsection \<open>The accepting thread\<close>

text \<open>
  The loop of \<open>socket_server::run\<close> and \<open>async::server::run\<close>. What \<open>on_accept\<close> and the end of the
  pointer it returns do to a new connection is the program \<open>serve\<close>; it is one action, since nothing
  else refers to that connection.
\<close>

datatype gate = Gate_loop | Gate_accept | Gate_waiting socket_fd | Gate_accepted socket_fd sockaddr

text \<open>\<open>accept\<close> reads the descriptor and then waits in the call with what it has read.\<close>

definition accept_on :: "platform \<Rightarrow> socket_fd \<Rightarrow> ('a, 'w, socket_fd \<times> sockaddr) sprog" where
  "accept_on pf fd = ask pf (\<lambda>tr. os_accept pf tr fd) (\<lambda>(r, _). Sys_accept fd r)"

fun gate_act ::
  "platform \<Rightarrow> (socket_fd \<Rightarrow> sockaddr \<Rightarrow> ('a, 'w, unit) srv_prog) \<Rightarrow> gate \<Rightarrow>
     'a server_scheme \<times> 'w net_scheme \<Rightarrow> gate place \<times> ('a server_scheme \<times> 'w net_scheme)" where
  "gate_act pf serve Gate_loop = does Died (obj server_valid) (\<lambda>v. if v then Going Gate_accept else Left)"
| "gate_act pf serve Gate_accept = does Died (obj raw_sock) (\<lambda>fd. Going (Gate_waiting fd))"
| "gate_act pf serve (Gate_waiting fd) =
     does Died (accept_on pf fd)
       (\<lambda>(sock, a). Going (if sock = INVALID then Gate_loop else Gate_accepted sock a))"
| "gate_act pf serve (Gate_accepted sock a) = does Died (serve sock a) (\<lambda>_. Going Gate_loop)"

text \<open>The two programs: an object of the factory, dropped at once, and a client with a thread.\<close>

definition drop_served ::
  "platform \<Rightarrow> ('a, 'w) server_vtable \<Rightarrow> socket_fd \<Rightarrow> sockaddr \<Rightarrow> ('a, 'w, unit) srv_prog" where
  "drop_served pf vt sock a = pbind (server_on_accept vt sock a) (drop_conn pf)"

subsection \<open>The thread that calls \<open>stop\<close>\<close>

datatype phase =
    P_test
  | P_notify
  | P_ssl
  | P_shutdown
  | P_close socket_fd
  | P_flag
  | P_join
  | P_clear
  | Returned
  | Threw exn

text \<open>What a derived class does after the \<open>stop\<close> of the base class is the program \<open>after\<close>.\<close>

fun stop_act ::
  "platform \<Rightarrow> ('a, 'w) server_vtable \<Rightarrow> ('a, 'w, unit) srv_prog \<Rightarrow> phase \<Rightarrow>
     'a server_scheme \<times> 'w net_scheme \<Rightarrow> phase \<times> ('a server_scheme \<times> 'w net_scheme)" where
  "stop_act pf vt after P_test = does Threw (obj server_valid) (\<lambda>v. if v then P_notify else P_ssl)"
| "stop_act pf vt after P_notify = does Threw (server_notify vt On_stop) (\<lambda>_. P_ssl)"
| "stop_act pf vt after P_ssl =
     does Threw (pbind (obj ssl) (\<lambda>l. if l = None then pret () else on_ssl (layer_shutdown pf))) (\<lambda>_. P_shutdown)"
| "stop_act pf vt after P_shutdown =
     does Threw (pbind (obj raw_sock) (\<lambda>fd. if fd \<noteq> INVALID then pthen (call pf (Sys_shutdown fd)) (pret fd) else pret fd))
       (\<lambda>fd. if fd \<noteq> INVALID then P_close fd else P_flag)"
| "stop_act pf vt after (P_close fd) =
     does Threw (pthen (call pf (Sys_close fd)) (upd (\<lambda>s. s\<lparr>raw_sock := INVALID\<rparr>))) (\<lambda>_. P_flag)"
| "stop_act pf vt after P_flag = does Threw (upd (\<lambda>s. s\<lparr>non_blocking := False\<rparr>)) (\<lambda>_. P_join)"
| "stop_act pf vt after P_join = does Threw (upd (\<lambda>s. s\<lparr>background := False\<rparr>)) (\<lambda>_. P_clear)"
| "stop_act pf vt after P_clear = does Threw after (\<lambda>_. Returned)"
| "stop_act pf vt after Returned = does Threw (pret ()) (\<lambda>_. Returned)"
| "stop_act pf vt after (Threw e) = does Threw (pret ()) (\<lambda>_. Threw e)"

subsection \<open>The two threads\<close>

text \<open>
  An exception that leaves the thread ends the process. \<open>P_join\<close> waits until the thread has left its
  function.
\<close>

definition dead :: "'p place \<Rightarrow> bool" where
  "dead sp \<longleftrightarrow> (case sp of Died _ \<Rightarrow> True | _ \<Rightarrow> False)"

definition over :: "phase \<Rightarrow> bool" where
  "over ph \<longleftrightarrow> (case ph of Returned \<Rightarrow> True | Threw _ \<Rightarrow> True | _ \<Rightarrow> False)"

inductive threads ::
  "('p \<Rightarrow> 's \<Rightarrow> 'p place \<times> 's) \<Rightarrow> (phase \<Rightarrow> 's \<Rightarrow> phase \<times> 's) \<Rightarrow>
     'p place \<times> phase \<times> 's \<Rightarrow> 'p place \<times> phase \<times> 's \<Rightarrow> bool"
  for body stop where
  working: "body p s = (sp, s') \<Longrightarrow> threads body stop (Going p, ph, s) (sp, ph, s')"
| stopping: "\<not> dead sp \<Longrightarrow> \<not> over ph \<Longrightarrow> (ph = P_join \<longrightarrow> sp = Left) \<Longrightarrow> stop ph s = (ph', s') \<Longrightarrow>
    threads body stop (sp, ph, s) (sp, ph', s')"

inductive_simps threads_simps: "threads body stop (sp, ph, s) st"

inductive_cases threadsE: "threads body stop (sp, ph, s) st"

definition at_place :: "'b \<Rightarrow> ('p \<Rightarrow> 'b) \<Rightarrow> 'p place \<Rightarrow> 'b" where
  "at_place d f sp = (case sp of Going p \<Rightarrow> f p | _ \<Rightarrow> d)"

lemma at_place_simps [simp]:
  "at_place d f (Going p) = f p" "at_place d f Left = d" "at_place d f (Died e) = d"
  by (simp_all add: at_place_def)

text \<open>
  A system call need not return: \<open>accept\<close> waits for a client, \<open>epoll_wait\<close> and \<open>select\<close> without a
  time limit for an event. In \<open>threads\<close> a thread that waits is one whose action does not come,
  so that what holds of all its runs holds whether the calls return or not. That something
  happens at all takes more: \<open>blk p s\<close> says that in the state \<open>s\<close> the call made at the place \<open>p\<close>
  does not return, and then the thread, whose place changes with each of its actions, does not
  move.
\<close>

definition unblocked ::
  "('p \<Rightarrow> 's \<Rightarrow> bool) \<Rightarrow> ('p place \<times> 'h \<times> 's \<Rightarrow> 'p place \<times> 'h \<times> 's \<Rightarrow> bool) \<Rightarrow>
     'p place \<times> 'h \<times> 's \<Rightarrow> 'p place \<times> 'h \<times> 's \<Rightarrow> bool"
where
  "unblocked blk R st st' \<longleftrightarrow>
     R st st' \<and> (fst st' = fst st \<or> \<not> at_place False (\<lambda>p. blk p (snd (snd st))) (fst st))"

lemma unblocked_none [simp]: "unblocked (\<lambda>_ _. False) R = R"
  by (simp add: fun_eq_iff unblocked_def at_place_def split: place.split)

lemma unblocked_runs:
  "(unblocked blk R ^^ m) st st' \<Longrightarrow> (R ^^ m) st st'"
  by (erule relpowp_mono [rotated]) (simp add: unblocked_def)

lemma act_moves: "act pf vt rfuel n p sw = (sp, sw') \<Longrightarrow> sp \<noteq> Going p"
  by (cases "(pf, vt, rfuel, n, p)" rule: act.cases)
    (auto simp: does_def split: prod.splits sum.splits if_splits option.splits)

lemma gate_moves: "gate_act pf serve p sw = (sp, sw') \<Longrightarrow> sp \<noteq> Going p"
  by (cases p) (auto simp: does_def split: prod.splits sum.splits if_splits)

text \<open>
  The three servers: the synchronous one, and the accepting loop with the default factory and with
  that of the asynchronous clients.
\<close>

abbreviation sync_threads where
  "sync_threads pf vt rfuel n \<equiv> threads (act pf vt rfuel n) (stop_act pf vt (clear_sockets pf))"

abbreviation accept_threads where
  "accept_threads pf vt \<equiv> threads (gate_act pf (drop_served pf vt)) (stop_act pf vt (pret ()))"

abbreviation async_threads where
  "async_threads pf vt cvt rfuel n \<equiv> threads (gate_act pf (serve_client pf cvt rfuel n)) (stop_act pf vt (pret ()))"

end
