(* ===== verification/Background_Stop.thy ===== *)
theory Background_Stop
  imports Background
begin

section \<open>\<open>stop\<close> against any thread of a server\<close>

text \<open>
  What \<open>stop\<close> relies on: the thread of the server keeps the account of descriptors and the socket
  of the server, and once the socket is closed every action brings it nearer to the end of its
  function. The interface \<open>stoppable\<close> states this of the actions of a thread, with what the derived
  class does after the base class has joined the thread. Every interleaving with \<open>stop\<close> is then
  safe and ends.
\<close>

subsection \<open>The actions of \<open>stop\<close>\<close>

definition closed :: "phase \<Rightarrow> bool" where
  "closed ph \<longleftrightarrow> (case ph of P_flag \<Rightarrow> True | P_join \<Rightarrow> True | P_clear \<Rightarrow> True | Returned \<Rightarrow> True | _ \<Rightarrow> False)"

definition joined :: "phase \<Rightarrow> bool" where
  "joined ph \<longleftrightarrow> (case ph of P_clear \<Rightarrow> True | Returned \<Rightarrow> True | _ \<Rightarrow> False)"

text \<open>What is known of the server when \<open>stop\<close> has come as far as \<open>ph\<close>.\<close>

definition progress :: "phase \<Rightarrow> 'a server_scheme \<times> 'w net_scheme \<Rightarrow> bool" where
  "progress ph = (\<lambda>(s, w).
     (case ph of P_close fd \<Rightarrow> raw_sock s = fd \<and> fd \<noteq> INVALID | Threw _ \<Rightarrow> False
       | Returned \<Rightarrow> conns w = [] | _ \<Rightarrow> True) \<and>
     (closed ph \<longrightarrow> \<not> is_valid s) \<and> (joined ph \<longrightarrow> \<not> background s))"

lemmas progress_defs = progress_def closed_def joined_def

lemma shutdown_ssl_step:
  assumes "net_inv B T (s, w)"
  shows "\<exists>l w'. stop_act pf vt after P_ssl (s, w) = (P_shutdown, (s\<lparr>ssl := l\<rparr>, w')) \<and> net_inv B T (s\<lparr>ssl := l\<rparr>, w') \<and>
    conns w' = conns w"
proof (cases "ssl s")
  case None
  have "stop_act pf vt after P_ssl (s, w) = (P_shutdown, (s, w))" using None by (simp add: does_def prog_simps)
  moreover have "s = s\<lparr>ssl := None\<rparr>" using None by (cases s) simp
  ultimately show ?thesis using assms by metis
next
  case (Some l)
  obtain w' where r: "layer_shutdown pf (l, w) = (Inr (), (null_layer, w'))" "open_fds (trace w') = open_fds (trace w)"
    using layer_shutdown_result by blast
  have "conns w' = conns w" "heap w' = heap w" "next_id w' = next_id w"
    using keeps_snd [OF layer_rest(1) [of "conns w" "heap w" "next_id w" pf], of "(l, w)"] r(1) by simp_all
  with assms r Some show ?thesis
    by (intro exI [of _ "Some null_layer"] exI [of _ w'])
      (simp add: does_def on_ssl_def prog_simps net_inv_def table_ok_world [of w' w] held_def is_valid_def)
qed

lemma close_step:
  assumes "net_inv B T (s, w)" and "raw_sock s = fd" "fd \<noteq> INVALID"
  shows "\<exists>s' w'. stop_act pf vt after (P_close fd) (s, w) = (P_flag, (s', w')) \<and> net_inv B T (s', w') \<and> \<not> is_valid s' \<and>
    conns w' = conns w"
proof -
  let ?w = "record_call pf (Sys_close fd) w"
  have same: "conns ?w = conns w" "heap ?w = heap w" "next_id ?w = next_id w" by (simp_all add: record_call_def)
  with assms have "net_inv B T (s\<lparr>raw_sock := INVALID\<rparr>, ?w)"
    by (simp add: net_inv_def table_ok_world [of ?w w] held_def is_valid_def)
  with same show ?thesis by (simp add: does_def prog_simps is_valid_def)
qed

fun remaining :: "phase \<Rightarrow> nat" where
  "remaining P_flag = 3"
| "remaining P_join = 2"
| "remaining P_clear = 1"
| "remaining _ = 0"

text \<open>An empty table keeps no object alive.\<close>

lemma table_heap_empty:
  assumes "table_ok {} w" and "conns w = []"
  shows "heap w = []"
proof -
  have "smap_get (heap w) i = None" for i
    using table_okD(7) [OF assms(1), of i] assms(2) by (cases "smap_get (heap w) i") (auto simp: smap_get_def)
  then show ?thesis by (cases "heap w") (auto simp: smap_get_def, metis option.distinct(1))
qed

subsection \<open>The interface\<close>

text \<open>
  \<open>hand\<close> is what the thread holds besides the server and its table, \<open>fit\<close> what is known at a place,
  \<open>weight\<close> how far it is from the end; \<open>calm_table\<close> is kept of the table of connections. Where an
  exception has ended the process nothing is claimed.
\<close>

locale stoppable =
  fixes pf :: platform and vt :: "('a, 'w) server_vtable"
    and body :: "'p \<Rightarrow> 'a server_scheme \<times> 'w net_scheme \<Rightarrow> 'p place \<times> ('a server_scheme \<times> 'w net_scheme)"
    and after :: "('a, 'w, unit) srv_prog"
    and hand :: "'p \<Rightarrow> socket_fd multiset" and fit :: "'p \<Rightarrow> bool"
    and calm_table :: "(socket_fd, conn_id) smap \<Rightarrow> bool"
    and weight :: "'p \<Rightarrow> nat" and bound :: nat
  assumes body_keeps: "net_inv (B + hand p) {} (s, w) \<Longrightarrow> fit p \<Longrightarrow> calm_table (conns w) \<Longrightarrow>
      body p (s, w) = (sp, (s', w')) \<Longrightarrow> \<not> dead sp \<Longrightarrow>
      net_inv (B + at_place {#} hand sp) {} (s', w') \<and> at_place True fit sp \<and> calm_table (conns w')"
    and body_socket: "body p (s, w) = (sp, (s', w')) \<Longrightarrow> raw_sock s' = raw_sock s \<and> background s' = background s"
    and body_nearer: "body p (s, w) = (sp, sw') \<Longrightarrow> \<not> server_valid s \<Longrightarrow> at_place 0 weight sp < weight p"
    and body_bounded: "body p (s, w) = (sp, sw') \<Longrightarrow> weight p \<le> bound \<Longrightarrow> at_place 0 weight sp \<le> bound"
    and quiet_hook: "sv_hook vt On_stop = pret ()"
    and quiet_listener: "sv_listener vt i On_stop = pret ()"
    and after_clears: "net_inv B {} (s, w) \<Longrightarrow> \<not> is_valid s \<Longrightarrow> calm_table (conns w) \<Longrightarrow>
      \<exists>w'. after (s, w) = (Inr (), (s, w')) \<and> net_inv B {} (s, w') \<and> conns w' = [] \<and> calm_table []"
begin

definition threads_ok :: "socket_fd multiset \<Rightarrow> 'p place \<times> phase \<times> ('a server_scheme \<times> 'w net_scheme) \<Rightarrow> bool" where
  "threads_ok B = (\<lambda>(sp, ph, (s, w)). dead sp \<and> \<not> joined ph \<or>
     net_inv (B + at_place {#} hand sp) {} (s, w) \<and> at_place True fit sp \<and> calm_table (conns w) \<and>
     progress ph (s, w) \<and> (joined ph \<longrightarrow> sp = Left))"

lemma stop_act_inv:
  assumes "net_inv B {} (s, w)" and "progress ph (s, w)" and "\<not> over ph" and "calm_table (conns w)"
    and "stop_act pf vt after ph (s, w) = (ph', (s', w'))"
  shows "net_inv B {} (s', w') \<and> progress ph' (s', w') \<and> calm_table (conns w')"
proof (cases ph)
  case P_notify
  have "server_notify vt On_stop (s, w) = (Inr (), (s, w))"
    using assms(1) by (intro quiet_stop_notify quiet_hook quiet_listener) (simp add: net_inv_def)
  with P_notify assms show ?thesis by (auto simp: does_def progress_defs)
next
  case P_ssl
  with shutdown_ssl_step [OF assms(1), of pf vt after] assms(4,5) show ?thesis
    by (auto simp: progress_defs)
next
  case P_shutdown
  let ?w = "record_call pf (Sys_shutdown (raw_sock s)) w"
  have "net_inv B {} (s, ?w)" using assms(1) by (rule net_inv_record) simp
  moreover have "conns ?w = conns w" by (simp add: record_call_def)
  ultimately show ?thesis
    using P_shutdown assms by (auto simp: does_def prog_simps progress_defs is_valid_def split: if_splits)
next
  case (P_close fd)
  with close_step [OF assms(1), of fd pf vt after] assms(2,4,5) show ?thesis
    by (auto simp: progress_defs)
next
  case P_clear
  then have "\<not> is_valid s" using assms(2) by (simp add: progress_defs)
  from after_clears [OF assms(1) this assms(4)] P_clear assms(2,5) show ?thesis
    by (auto simp: does_def progress_defs)
qed (use assms in \<open>auto simp: does_def prog_simps progress_defs net_inv_def held_def is_valid_def over_def split: if_splits\<close>)

lemma threads_ok_step:
  assumes "threads body (stop_act pf vt after) st st'" and "threads_ok B st"
  shows "threads_ok B st'"
  using assms
proof (cases rule: threads.cases)
  case (working p sw sp sw' ph)
  obtain s w s' w' where sw: "sw = (s, w)" "sw' = (s', w')" by (cases sw; cases sw')
  have "raw_sock s' = raw_sock s" "background s' = background s" "\<not> joined ph"
    using body_socket working assms(2) sw by (auto simp: threads_ok_def dead_def)
  then have "progress ph (s', w')"
    using assms(2) working(1) sw by (auto simp: threads_ok_def progress_defs is_valid_def dead_def split: phase.splits)
  with \<open>\<not> joined ph\<close> body_keeps [of B p s w sp s' w'] assms(2) working sw show ?thesis
    by (auto simp: threads_ok_def dead_def)
next
  case (stopping sp ph sw ph' sw')
  obtain s w s' w' where sw: "sw = (s, w)" "sw' = (s', w')" by (cases sw; cases sw')
  have "net_inv (B + at_place {#} hand sp) {} (s', w') \<and> progress ph' (s', w') \<and> calm_table (conns w')"
    using stop_act_inv [of "B + at_place {#} hand sp" s w ph ph' s' w'] assms(2) stopping sw by (simp add: threads_ok_def)
  moreover have "joined ph' \<Longrightarrow> sp = Left"
    using stopping assms(2) sw
    by (cases ph) (auto simp: threads_ok_def joined_def over_def does_def split: prod.splits sum.splits if_splits)
  ultimately show ?thesis using assms(2) stopping sw by (auto simp: threads_ok_def)
qed

lemma threads_ok_reach:
  "(threads body (stop_act pf vt after))\<^sup>*\<^sup>* st st' \<Longrightarrow> threads_ok B st \<Longrightarrow> threads_ok B st'"
  by (induction rule: rtranclp_induct) (auto intro: threads_ok_step)

lemma threads_ok_start:
  "net_inv B {} (s, w) \<Longrightarrow> calm_table (conns w) \<Longrightarrow> hand p = {#} \<Longrightarrow> fit p \<Longrightarrow> threads_ok B (Going p, P_test, (s, w))"
  by (simp add: threads_ok_def progress_defs)

text \<open>When \<open>stop\<close> has returned everything is given back.\<close>

lemma released:
  assumes "threads_ok B st" and "(threads body (stop_act pf vt after))\<^sup>*\<^sup>* st (sp, Returned, (s', w'))"
  shows "sp = Left \<and> \<not> server_valid s' \<and> \<not> background s' \<and> conns w' = [] \<and> heap w' = [] \<and> open_fds (trace w') = B"
proof -
  have ok: "threads_ok B (sp, Returned, (s', w'))" using threads_ok_reach assms by blast
  then have alive: "\<not> dead sp" by (auto simp: threads_ok_def joined_def dead_def)
  with ok have "heap w' = []" by (intro table_heap_empty) (auto simp: threads_ok_def progress_defs net_inv_def)
  with ok alive show ?thesis
    by (auto simp: threads_ok_def progress_defs net_inv_def held_by_def server_valid_def)
qed

lemma closing_step:
  assumes "threads body (stop_act pf vt after) (sp, ph, sw) (sp', ph', sw')" and "threads_ok B (sp, ph, sw)" and "closed ph"
  shows "closed ph' \<and> at_place 0 weight sp' + remaining ph' < at_place 0 weight sp + remaining ph"
  using assms(1)
proof cases
  case (working p)
  have "\<not> server_valid (fst sw)"
    using assms(2,3) working by (auto simp: threads_ok_def progress_defs server_valid_def dead_def split: prod.splits phase.splits)
  with body_nearer [of p "fst sw" "snd sw" sp' sw'] working assms(3) show ?thesis by simp
next
  case stopping
  obtain s w s' w' where sw: "sw = (s, w)" "sw' = (s', w')" by (cases sw; cases sw')
  have "progress ph' (s', w')"
    using stop_act_inv [of "B + at_place {#} hand sp" s w ph ph' s' w'] assms(2) stopping sw by (simp add: threads_ok_def)
  with stopping assms(3) sw show ?thesis
    by (cases ph) (auto simp: does_def progress_defs over_def split: prod.splits sum.splits)
qed

lemma closing_steps:
  assumes "(threads body (stop_act pf vt after) ^^ m) (sp, ph, sw) (sp', ph', sw')" and "threads_ok B (sp, ph, sw)" and "closed ph"
  shows "closed ph' \<and> threads_ok B (sp', ph', sw') \<and>
    m + at_place 0 weight sp' + remaining ph' \<le> at_place 0 weight sp + remaining ph"
  using assms
proof (induction m arbitrary: sp' ph' sw')
  case (Suc m)
  obtain sp1 ph1 sw1 where s: "(threads body (stop_act pf vt after) ^^ m) (sp, ph, sw) (sp1, ph1, sw1)"
    "threads body (stop_act pf vt after) (sp1, ph1, sw1) (sp', ph', sw')"
    using Suc.prems(1) by (metis (no_types) relpowp_Suc_E surj_pair)
  note ih = Suc.IH [OF s(1) Suc.prems(2,3)]
  then have "threads_ok B (sp', ph', sw')" using threads_ok_step [OF s(2)] by blast
  with closing_step [OF s(2)] ih show ?case by fastforce
qed auto

lemma reach_bounded:
  assumes "(threads body (stop_act pf vt after))\<^sup>*\<^sup>* st st'" and "at_place 0 weight (fst st) \<le> bound"
  shows "at_place 0 weight (fst st') \<le> bound"
  using assms by (induction rule: rtranclp_induct) (auto elim!: threads.cases dest: body_bounded)

text \<open>
  A \<open>stop\<close> that has closed the socket makes few more actions, and where none is left it has
  returned, the process has ended, or it waits for a thread that is blocked in a call.
\<close>

lemma open_to_act:
  assumes "threads_ok B (sp, ph, sw)" and "closed ph" and "\<nexists>st. unblocked blk (threads body (stop_act pf vt after)) (sp, ph, sw) st"
  shows "dead sp \<or> ph = Returned \<or> ph = P_join \<and> at_place False (\<lambda>p. blk p sw) sp"
proof -
  obtain ph2 sw2 where ph2: "stop_act pf vt after ph sw = (ph2, sw2)" by (cases "stop_act pf vt after ph sw")
  have can_stop: "dead sp \<or> over ph \<or> ph = P_join \<and> sp \<noteq> Left"
  proof (rule ccontr)
    assume "\<not> ?thesis"
    with ph2 have "threads body (stop_act pf vt after) (sp, ph, sw) (sp, ph2, sw2)" by (intro threads.stopping) auto
    then have "unblocked blk (threads body (stop_act pf vt after)) (sp, ph, sw) (sp, ph2, sw2)"
      by (simp add: unblocked_def)
    with assms(3) show False by blast
  qed
  have can_work: "at_place False (\<lambda>p. blk p sw) sp" if "sp = Going p" for p
  proof (rule ccontr)
    assume free: "\<not> ?thesis"
    obtain sp2 sw1 where "body p sw = (sp2, sw1)" by (cases "body p sw")
    then have "threads body (stop_act pf vt after) (Going p, ph, sw) (sp2, ph, sw1)" by (rule threads.working)
    with that free have "unblocked blk (threads body (stop_act pf vt after)) (sp, ph, sw) (sp2, ph, sw1)"
      by (simp add: unblocked_def)
    with assms(3) show False by blast
  qed
  have "over ph \<Longrightarrow> ph = Returned" using assms(2) by (cases ph) (auto simp: over_def closed_def)
  with can_stop can_work show ?thesis by (cases sp) (auto simp: dead_def)
qed

lemma returns:
  assumes "threads_ok B st" and "at_place 0 weight (fst st) \<le> bound"
    and "(threads body (stop_act pf vt after))\<^sup>*\<^sup>* st (sp, ph, sw)" and "closed ph"
    and "(threads body (stop_act pf vt after) ^^ m) (sp, ph, sw) (sp', ph', sw')"
  shows "m \<le> bound + 3 \<and> ((\<nexists>st. unblocked blk (threads body (stop_act pf vt after)) (sp', ph', sw') st) \<longrightarrow>
    dead sp' \<or> ph' = Returned \<or> ph' = P_join \<and> at_place False (\<lambda>p. blk p sw') sp')"
proof (intro conjI impI)
  have ok: "threads_ok B (sp, ph, sw)" using threads_ok_reach assms by blast
  note c = closing_steps [OF assms(5) ok assms(4)]
  have "at_place 0 weight sp \<le> bound" using reach_bounded [OF assms(3,2)] by simp
  moreover have "remaining ph \<le> 3" by (cases ph) simp_all
  ultimately show "m \<le> bound + 3" using c by linarith
  show "dead sp' \<or> ph' = Returned \<or> ph' = P_join \<and> at_place False (\<lambda>p. blk p sw') sp'"
    if "\<nexists>st. unblocked blk (threads body (stop_act pf vt after)) (sp', ph', sw') st"
    using c that by (intro open_to_act) auto
qed

text \<open>\<open>stop\<close> gets to the joining of the thread without the thread acting at all.\<close>

lemma stop_reaches_join_blocked:
  assumes "net_inv B T (s, w)" and "\<not> dead sp"
  shows "\<exists>l w'. (unblocked blk (threads body (stop_act pf vt after)))\<^sup>*\<^sup>* (sp, P_test, (s, w))
      (sp, P_join, (s\<lparr>ssl := l, raw_sock := INVALID, non_blocking := False\<rparr>, w'))"
proof -
  let ?T = "unblocked blk (threads body (stop_act pf vt after))"
  have step: "?T\<^sup>*\<^sup>* x (sp, ph, sw) \<Longrightarrow> stop_act pf vt after ph sw = (ph', sw') \<Longrightarrow>
      \<not> over ph \<Longrightarrow> ph \<noteq> P_join \<Longrightarrow> ?T\<^sup>*\<^sup>* x (sp, ph', sw')" for x ph sw ph' sw'
    using threads.stopping [OF assms(2), of ph "stop_act pf vt after" sw ph' sw' body]
    by (auto simp: unblocked_def intro: rtranclp.rtrancl_into_rtrancl)
  have "server_notify vt On_stop (s, w) = (Inr (), (s, w))"
    using assms(1) by (intro quiet_stop_notify quiet_hook quiet_listener) (simp add: net_inv_def)
  then have "?T\<^sup>*\<^sup>* (sp, P_test, (s, w)) (sp, P_ssl, (s, w))"
    using step [OF rtranclp.rtrancl_refl, of P_test "(s, w)" "if server_valid s then P_notify else P_ssl" "(s, w)"]
      step [of "(sp, P_test, (s, w))" P_notify "(s, w)" P_ssl "(s, w)"]
    by (auto simp: does_def prog_simps over_def split: if_splits)
  moreover obtain l w1 where "stop_act pf vt after P_ssl (s, w) = (P_shutdown, (s\<lparr>ssl := l\<rparr>, w1))"
    using shutdown_ssl_step [OF assms(1)] by blast
  ultimately have sh: "?T\<^sup>*\<^sup>* (sp, P_test, (s, w)) (sp, P_shutdown, (s\<lparr>ssl := l\<rparr>, w1))"
    by (rule step) (simp_all add: over_def)
  have "\<exists>w'. ?T\<^sup>*\<^sup>* (sp, P_test, (s, w)) (sp, P_flag, (s\<lparr>ssl := l, raw_sock := INVALID\<rparr>, w'))"
  proof (cases "raw_sock s = INVALID")
    case True
    then have "stop_act pf vt after P_shutdown (s\<lparr>ssl := l\<rparr>, w1) = (P_flag, (s\<lparr>ssl := l, raw_sock := INVALID\<rparr>, w1))"
      by (cases s) (simp add: does_def prog_simps)
    from step [OF sh this] show ?thesis by (auto simp: over_def)
  next
    case False
    let ?w2 = "record_call pf (Sys_shutdown (raw_sock s)) w1"
    have "stop_act pf vt after P_shutdown (s\<lparr>ssl := l\<rparr>, w1) = (P_close (raw_sock s), (s\<lparr>ssl := l\<rparr>, ?w2))"
      using False by (simp add: does_def prog_simps)
    from step [OF sh this] have "?T\<^sup>*\<^sup>* (sp, P_test, (s, w)) (sp, P_close (raw_sock s), (s\<lparr>ssl := l\<rparr>, ?w2))"
      by (simp add: over_def)
    from step [OF this, of P_flag "(s\<lparr>ssl := l, raw_sock := INVALID\<rparr>, record_call pf (Sys_close (raw_sock s)) ?w2)"]
    show ?thesis by (auto simp: over_def does_def prog_simps)
  qed
  then obtain w2 where "?T\<^sup>*\<^sup>* (sp, P_test, (s, w)) (sp, P_flag, (s\<lparr>ssl := l, raw_sock := INVALID\<rparr>, w2))" by blast
  from step [OF this, of P_join "(s\<lparr>ssl := l, raw_sock := INVALID, non_blocking := False\<rparr>, w2)"] show ?thesis
    by (auto simp: over_def does_def prog_simps)
qed

lemmas stop_reaches_join = stop_reaches_join_blocked [where blk = "\<lambda>_ _. False", unfolded unblocked_none]

text \<open>From a place that leaves the function of a closed server, a run in which \<open>stop\<close> returns.\<close>

lemma can_return:
  assumes "net_inv B {} (s, w)" and "calm_table (conns w)" and "hand p = {#}" and "fit p"
    and leave: "\<And>s w. \<not> server_valid s \<Longrightarrow> body p (s, w) = (Left, (s, w))"
  shows "\<exists>sw1 sw2. (threads body (stop_act pf vt after))\<^sup>*\<^sup>* (Going p, P_test, (s, w)) (Going p, P_join, sw1) \<and>
    (threads body (stop_act pf vt after) ^^ 3) (Going p, P_join, sw1) (Left, Returned, sw2)"
proof -
  let ?T = "threads body (stop_act pf vt after)"
  obtain l w1 where r: "?T\<^sup>*\<^sup>* (Going p, P_test, (s, w))
      (Going p, P_join, (s\<lparr>ssl := l, raw_sock := INVALID, non_blocking := False\<rparr>, w1))"
    using stop_reaches_join [OF assms(1), of "Going p"] by (auto simp: dead_def)
  let ?s1 = "s\<lparr>ssl := l, raw_sock := INVALID, non_blocking := False\<rparr>" let ?s = "?s1\<lparr>background := False\<rparr>"
  have inv: "net_inv B {} (?s1, w1)" "calm_table (conns w1)" "\<not> server_valid ?s1" "\<not> is_valid ?s1"
    using threads_ok_reach [OF r threads_ok_start [OF assms(1-4)]] assms(3)
    by (auto simp: threads_ok_def dead_def server_valid_def is_valid_def)
  have 1: "?T (Going p, P_join, (?s1, w1)) (Left, P_join, (?s1, w1))"
    by (rule threads.working) (rule leave [OF inv(3)])
  have 2: "?T (Left, P_join, (?s1, w1)) (Left, P_clear, (?s, w1))"
    by (rule threads.stopping) (simp_all add: does_def prog_simps dead_def over_def)
  have "net_inv B {} (?s, w1)" using inv(1) by (simp add: net_inv_def held_def is_valid_def)
  then obtain w' where "after (?s, w1) = (Inr (), (?s, w'))"
    using after_clears [of B ?s w1] inv(2,4) by (auto simp: is_valid_def)
  then have 3: "?T (Left, P_clear, (?s, w1)) (Left, Returned, (?s, w'))"
    by (intro threads.stopping) (simp_all add: does_def dead_def over_def)
  have "(?T ^^ Suc (Suc (Suc 0))) (Going p, P_join, (?s1, w1)) (Left, Returned, (?s, w'))"
    by (rule relpowp_Suc_I [where P = ?T, OF _ 3], rule relpowp_Suc_I [where P = ?T, OF _ 2],
        rule relpowp_Suc_I [where P = ?T, OF _ 1]) simp
  with r show ?thesis unfolding numeral_3_eq_3 by blast
qed

end

end
