(* ===== verification/Background_Facts.thy ===== *)
theory Background_Facts
  imports Background_Stop
begin

section \<open>Stopping a synchronous server in the background\<close>

text \<open>
  The polling thread of a plain synchronous server fulfils the interface \<open>stoppable\<close>. Whatever the
  order of the actions, a \<open>stop\<close> that returns has joined the thread and given every descriptor back,
  and from the moment the socket is closed nothing but an exception of the polling thread can keep
  it from returning. With \<open>select\<close> there is an order in which the thread does throw.
\<close>

subsection \<open>What the polling thread keeps\<close>

text \<open>The polling thread writes neither the socket nor the thread of the server.\<close>

definition settled :: "socket_fd \<Rightarrow> bool \<Rightarrow> 'a sync_server_scheme \<Rightarrow> bool" where
  "settled fd b s \<longleftrightarrow> raw_sock s = fd \<and> background s = b"

lemma settled_put_select [hoare_rules]: "keeps (\<lambda>(s, w). settled fd b s) (put_select i t m)"
  unfolding put_select_def by (rule keeps_upd) (simp add: settled_def)

lemma settled_clear [hoare_rules]: "keeps (\<lambda>(s, w). settled fd b s) (select_clear c)"
  unfolding select_clear_def by (auto intro!: hoare_rules split: prod.split)

lemma keeps_server_parts [hoare_rules]:
  "keeps (\<lambda>(s, w). Q s) (select_serve pf vt rfuel i)" "keeps (\<lambda>(s, w). Q s) (wait_time pf since)"
  "keeps (\<lambda>(s, w). Q s) (socket_accept pf)" "keeps (\<lambda>(s, w). Q s) (epoll_wait pf ep stall)"
  "keeps (\<lambda>(s, w). Q s) (epoll_write pf vtc sock)"
  unfolding select_serve_def socket_accept_def epoll_wait_def epoll_write_def close_conn_def
  by (intro hoare_rules wait_time_keeps keeps_cases)+

lemma keeps_accept_conn [hoare_rules]: "keeps (\<lambda>(s, w). Q s) (accept_conn pf (plain_sync pf) sock a)"
proof -
  have c: "keeps (\<lambda>(s, w). Q s) (sv_create (plain_sync pf) k sock a)" for k
    by (rule keeps_pairI) (simp add: plain_sync_def default_create_def split: prod.split sum.split)
  show ?thesis
    unfolding accept_conn_def sync_on_accept_def server_on_accept_def add_socket_def new_conn_def
    by (auto intro!: hoare_rules c split: option.split)
qed

lemma keeps_epoll_event [hoare_rules]: "keeps (\<lambda>(s, w). Q s) (epoll_event pf (plain_sync pf) rfuel x)"
  unfolding epoll_event_def close_conn_def by (intro hoare_rules keeps_cases)

lemma settled_iterate [hoare_rules]: "keeps (\<lambda>(s, w). settled fd b s) (iterate_connections pf vt rfuel n x)"
proof (induction n arbitrary: x)
  case 0
  show ?case by (cases x) (auto intro: hoare_rules)
next
  case (Suc n)
  show ?case
  proof (cases x)
    case None
    then show ?thesis by (simp add: hoare_rules)
  next
    case (Some y)
    then show ?thesis
      by (cases y) (simp, intro hoare_rules keeps_cases Suc.IH)
  qed
qed

lemma settled_select [hoare_rules]:
  "keeps (\<lambda>(s, w). settled fd b s) (select_wait pf stall)"
  "keeps (\<lambda>(s, w). settled fd b s) (select_take pf (plain_sync pf) sock a)"
  unfolding select_wait_def select_take_def by (intro hoare_rules keeps_cases)+

lemma does_keeps:
  assumes "keeps P m" and "P sw"
  shows "P (snd (does dies m k sw))"
  using keeps_snd [OF assms] by (cases "fst (m sw)"; cases "m sw") (simp_all add: does_def)

text \<open>An action keeps what its program keeps.\<close>

lemma act_keeps_settled:
  assumes "(\<lambda>(s, w). settled fd b s) sw"
  shows "(\<lambda>(s, w). settled fd b s) (snd (act pf (plain_sync pf) rfuel n sp sw))"
proof -
  note step = does_keeps [where P = "\<lambda>(s, w). settled fd b s", OF _ assms]
  show ?thesis
  proof (cases sp)
    case (At_impl impl stall since)
    then show ?thesis
      by (cases impl) (simp only: act.simps, rule step, intro hoare_rules)+
  next
    case (At_events xs since)
    then show ?thesis
      by (cases xs) (simp only: act.simps, rule step, intro hoare_rules)+
  qed (simp only: act.simps, rule step, intro hoare_rules plain_notify_keeps)+
qed

lemma act_settled:
  assumes "act pf (plain_sync pf) rfuel n sp (s, w) = (sp', (s', w'))"
  shows "raw_sock s' = raw_sock s \<and> background s' = background s"
  using act_keeps_settled [of "raw_sock s" "background s" "(s, w)" pf rfuel n sp] assms
  by (simp add: settled_def)

text \<open>
  Between the call of \<open>accept\<close> and the object for the connection the thread itself holds a
  descriptor.
\<close>

definition hand :: "spot \<Rightarrow> socket_fd multiset" where
  "hand sp = (case sp of At_accepted sock _ _ \<Rightarrow> {#sock#} | _ \<Rightarrow> {#})"

definition hand_ok :: "spot \<Rightarrow> bool" where
  "hand_ok sp \<longleftrightarrow> (case sp of At_accepted sock _ _ \<Rightarrow> sock \<noteq> INVALID | _ \<Rightarrow> True)"

lemmas hand_defs = hand_def hand_ok_def

lemma act_empty_handed:
  assumes "act pf vt rfuel n p sw = (sp, sw')" and "\<And>since. p \<noteq> At_accept since"
  shows "at_place {#} hand sp = {#} \<and> at_place True hand_ok sp"
proof (cases p)
  case (At_impl impl stall since)
  with assms show ?thesis
    by (cases impl) (auto simp: does_def hand_defs split: prod.splits sum.splits if_splits)
next
  case (At_events xs since)
  with assms show ?thesis
    by (cases xs) (auto simp: does_def hand_defs split: prod.splits sum.splits)
qed (use assms in \<open>auto simp: does_def hand_defs split: prod.splits sum.splits if_splits option.splits\<close>)

lemma select_wait_inv: "keeps (net_inv B T) (select_wait pf stall)"
  unfolding select_wait_def put_select_def
  by (auto split: prod.split intro!: net_inv_rules net_inv_ask)

lemma epoll_wait_inv: "keeps (net_inv B T) (epoll_wait pf ep stall)"
  unfolding epoll_wait_def by (auto split: prod.split intro!: net_inv_rules net_inv_ask)

lemma select_take_inv:
  assumes "net_inv (B + {#sock#}) T (s, w)" and "sock \<noteq> INVALID"
  shows "net_inv B T (snd (select_take pf (plain_sync pf) sock a (s, w)))"
proof -
  obtain r w1 where r: "accept_conn pf (plain_sync pf) sock a (s, w) = (r, (s, w1))" "net_inv B T (s, w1)"
    using accept_conn_inv [OF assms] by blast
  let ?k = "pbind get_select (\<lambda>(i, t, m). pthen (guard_fd sock) (put_select (insert sock i) (insert sock t) (max m sock)))"
  have "keeps (net_inv B T) ?k"
    unfolding put_select_def by (auto split: prod.split intro!: net_inv_rules)
  from keeps_snd [OF this r(2)] r show ?thesis
    by (cases r) (simp_all add: select_take_def pthen_Inl pthen_Inr)
qed

lemma snd_does: "snd (does dies m k sw) = snd (m sw)"
  by (cases "fst (m sw)"; cases "m sw") (simp_all add: does_def)

lemma act_keeps_inv:
  assumes "net_inv B T sw" and "hand sp = {#}" and "\<And>since. sp \<noteq> At_accept since"
  shows "net_inv B T (snd (act pf (plain_sync pf) rfuel n sp sw))"
proof -
  note step = does_keeps [where P = "net_inv B T", OF _ assms(1)]
  note rules = net_inv_rules wait_time_inv select_wait_inv epoll_wait_inv epoll_event_inv iterate_inv plain_notify_keeps
  show ?thesis
  proof (cases sp)
    case (At_impl impl stall since)
    then show ?thesis by (cases impl) (simp only: act.simps, rule step, intro rules)+
  next
    case (At_events xs since)
    then show ?thesis by (cases xs) (simp only: act.simps, rule step, intro rules)+
  next
    case (At_accepted sock a since)
    with assms(2) show ?thesis by (simp add: hand_def)
  next
    case (At_accept since)
    with assms(3) show ?thesis by blast
  qed (simp only: act.simps plain_sync_conn, rule step, intro rules)+
qed

lemma act_inv:
  assumes "net_inv (B + hand p) {} (s, w)" and "hand_ok p"
    and "act pf (plain_sync pf) rfuel n p (s, w) = (sp, sw')"
  shows "net_inv (B + at_place {#} hand sp) {} sw' \<and> at_place True hand_ok sp"
proof (cases "\<exists>since. p = At_accept since")
  case True
  then obtain since where p: "p = At_accept since" by blast
  then have "net_inv B {} (s, w)" using assms(1) by (simp add: hand_def)
  then obtain sock a w' where "socket_accept pf (s, w) = (Inr (sock, a), (s, w'))"
    "if sock = INVALID then net_inv B {} (s, w') else net_inv (B + {#sock#}) {} (s, w')"
    using socket_accept_inv by blast
  with assms(3) p show ?thesis by (auto simp: does_def hand_defs)
next
  case False
  then have e: "at_place {#} hand sp = {#}" "at_place True hand_ok sp"
    using act_empty_handed [OF assms(3)] by blast+
  show ?thesis
  proof (cases "hand p = {#}")
    case True
    then show ?thesis using act_keeps_inv [of B "{}" "(s, w)" p pf rfuel n] assms False e by auto
  next
    case False
    then obtain sock a since where p: "p = At_accepted sock a since"
      by (cases p) (simp_all add: hand_def)
    then have "net_inv B {} (snd (select_take pf (plain_sync pf) sock a (s, w)))"
      using assms(1,2) by (intro select_take_inv) (simp_all add: hand_defs)
    moreover have "sw' = snd (select_take pf (plain_sync pf) sock a (s, w))"
      using assms(3) p snd_does [of Died "select_take pf (plain_sync pf) sock a" "\<lambda>_. Going (At_iterate since)" "(s, w)"]
      by simp
    ultimately show ?thesis using e by simp
  qed
qed

subsection \<open>How far the polling thread is from the end\<close>

fun weight :: "spot \<Rightarrow> nat" where
  "weight (At_poll _) = 71"
| "weight (At_wait _ _) = 70"
| "weight (At_impl _ _ _) = 69"
| "weight (At_epoll _ _ _) = 68"
| "weight (At_events xs _) = 3 + length xs"
| "weight (At_sock _ _) = 9"
| "weight (At_select _ _ _) = 8"
| "weight (At_isset _ _ _) = 7"
| "weight (At_accept _) = 6"
| "weight (At_accepted _ _ _) = 5"
| "weight (At_iterate _) = 4"
| "weight (At_connections _) = 3"
| "weight (At_notify _) = 2"
| "weight (At_loop _) = 1"

text \<open>Once the socket is closed every action brings the thread nearer to the end of its loop.\<close>

lemma act_weight:
  assumes "act pf vt rfuel n p (s, w) = (sp, sw')" and "\<not> server_valid s"
  shows "at_place 0 weight sp < weight p"
proof (cases p)
  case (At_impl impl stall since)
  with assms show ?thesis by (cases impl) (auto simp: does_def prog_simps split: if_splits)
next
  case (At_events xs since)
  with assms show ?thesis by (cases xs) (auto simp: does_def split: prod.splits sum.splits)
next
  case (At_epoll ep stall since)
  with assms show ?thesis
    by (auto simp: does_def epoll_wait_def MAXEVENTS_def prog_simps split: prod.splits sum.splits if_splits)
qed (use assms in \<open>auto simp: does_def prog_simps split: prod.splits sum.splits if_splits option.splits\<close>)

lemma act_bounded:
  assumes "act pf vt rfuel n p (s, w) = (sp, sw')" and "weight p \<le> 71"
  shows "at_place 0 weight sp \<le> 71"
proof (cases p)
  case (At_impl impl stall since)
  with assms show ?thesis by (cases impl) (auto simp: does_def split: prod.splits sum.splits if_splits)
next
  case (At_events xs since)
  with assms show ?thesis by (cases xs) (auto simp: does_def split: prod.splits sum.splits)
next
  case (At_epoll ep stall since)
  with assms show ?thesis
    by (auto simp: does_def epoll_wait_def MAXEVENTS_def prog_simps split: prod.splits sum.splits if_splits)
qed (use assms in \<open>auto simp: does_def split: prod.splits sum.splits if_splits option.splits\<close>)

lemma clear_sockets_clears:
  assumes "net_inv B {} (s, w)"
  shows "\<exists>w'. clear_sockets pf (s, w) = (Inr (), (s, w')) \<and> net_inv B {} (s, w') \<and> conns w' = []"
  using clear_sockets_inv [OF assms, of pf] assms
  by (auto simp: net_inv_def table_ok_def smap_get_def smap_ok_def held_by_def)

interpretation polling: stoppable pf "plain_sync pf" "act pf (plain_sync pf) rfuel n" "clear_sockets pf"
  hand hand_ok "\<lambda>_. True" weight 71 for pf rfuel n
proof (unfold_locales, goal_cases)
  case (1 B p s w sp s' w')
  from act_inv [OF this(1,2,4)] show ?case by simp
next
  case (2 p s w sp s' w')
  from act_settled [OF this] show ?case .
next
  case (3 p s w sp sw')
  from act_weight [OF this] show ?case .
next
  case (4 p s w sp sw')
  from act_bounded [OF this] show ?case .
next
  case (7 B s w)
  from clear_sockets_clears [OF this(1)] show ?case by blast
qed (simp_all add: plain_sync_def)

subsection \<open>\<open>stop\<close> gives everything back\<close>

text \<open>
  C7: stopping a synchronous server in the background, with the default factory and without
  listeners or hooks of a user: whatever the kernel answers and however the two threads take turns,
  when \<open>stop\<close> has returned the polling thread has left its loop, the server is closed and holds no
  thread, its table is empty and no connection object is left. Of the descriptors of the process
  just those of \<open>B\<close> remain, all those it held besides the listening one and the connections; the
  descriptor of the \<open>epoll\<close> instance is among them, since \<open>stop\<close> leaves it to the destructor of the
  polling object.
\<close>

theorem background_stop_releases:
  assumes "net_inv B {} (s, w)"
    and "(sync_threads pf (plain_sync pf) rfuel n)\<^sup>*\<^sup>* (Going (At_loop since), P_test, (s, w)) (sp, Returned, (s', w'))"
  shows "sp = Left \<and> \<not> server_valid s' \<and> \<not> background s' \<and> conns w' = [] \<and> heap w' = [] \<and> open_fds (trace w') = B"
  using polling.released [OF polling.threads_ok_start assms(2)] assms(1) by (simp add: hand_defs)

lemma sync_stop_can_return:
  assumes "net_inv B {} (s, w)"
  shows "\<exists>sw1 sw2. (sync_threads pf (plain_sync pf) rfuel n)\<^sup>*\<^sup>* (Going (At_loop since), P_test, (s, w)) (Going (At_loop since), P_join, sw1) \<and>
    (sync_threads pf (plain_sync pf) rfuel n ^^ 3) (Going (At_loop since), P_join, sw1) (Left, Returned, sw2)"
  using assms by (intro polling.can_return) (simp_all add: hand_defs does_def prog_simps)

text \<open>A server that listens on descriptor 4 and has the \<open>epoll\<close> instance 3.\<close>

definition epoll_listening :: net where
  "epoll_listening = net0\<lparr>trace := [Sys_epoll_create 3, Sys_socket AF_INET 1 6 4]\<rparr>"

lemma epoll_listening_inv: "net_inv {#3#} {} (listening p, epoll_listening)"
  by (simp add: net_inv_def table_ok_def epoll_listening_def net0_def world.defs held_def is_valid_def held_by_def
      smap_get_def INVALID_def smap_ok_def open_fds_def)

lemma background_stop_releases_witness:
  "\<exists>s' w'. (sync_threads two_peers (plain_sync two_peers) 1 3)\<^sup>*\<^sup>*
      (Going (At_loop None), P_test, (listening (Epoll_impl 3), epoll_listening)) (Left, Returned, (s', w')) \<and> open_fds (trace w') = {#3#}"
proof -
  obtain sw1 s' w' where "(sync_threads two_peers (plain_sync two_peers) 1 3)\<^sup>*\<^sup>*
      (Going (At_loop None), P_test, (listening (Epoll_impl 3), epoll_listening)) (Going (At_loop None), P_join, sw1)"
    "(sync_threads two_peers (plain_sync two_peers) 1 3 ^^ 3) (Going (At_loop None), P_join, sw1) (Left, Returned, (s', w'))"
    using sync_stop_can_return [OF epoll_listening_inv] by (metis surj_pair)
  then have "(sync_threads two_peers (plain_sync two_peers) 1 3)\<^sup>*\<^sup>*
      (Going (At_loop None), P_test, (listening (Epoll_impl 3), epoll_listening)) (Left, Returned, (s', w'))"
    by (meson relpowp_imp_rtranclp rtranclp_trans)
  with background_stop_releases [OF epoll_listening_inv this] show ?thesis by blast
qed

subsection \<open>When \<open>stop\<close> returns\<close>

text \<open>
  C8: after \<open>stop\<close> has closed the socket both threads together make at most 74 more actions, however
  they take turns, and what can keep \<open>stop\<close> from returning is named: whichever system calls do not
  return (\<open>blk\<close>), when no action is left that can happen, then \<open>stop\<close> has returned, or the polling
  thread reads a connection for ever, so that its fuel was used up, or an exception has left the
  polling thread and ended the process, or \<open>stop\<close> waits in \<open>join\<close> for a polling thread that is
  blocked in a call. The server has the default factory and no listeners of a user.
\<close>

theorem background_stop_returns:
  assumes "net_inv B {} (s, w)"
    and "(sync_threads pf (plain_sync pf) rfuel n)\<^sup>*\<^sup>* (Going (At_loop since), P_test, (s, w)) (sp, ph, sw)" and "closed ph"
    and "(sync_threads pf (plain_sync pf) rfuel n ^^ m) (sp, ph, sw) (sp', ph', sw')"
  shows "m \<le> 74 \<and> ((\<nexists>st. unblocked blk (sync_threads pf (plain_sync pf) rfuel n) (sp', ph', sw') st) \<longrightarrow>
    ph' = Returned \<or> sp' = Died Out_of_fuel \<or> (\<exists>e. sp' = Died e \<and> e \<noteq> Out_of_fuel) \<or>
    ph' = P_join \<and> (\<exists>p. sp' = Going p \<and> blk p sw'))"
  using polling.returns [OF polling.threads_ok_start _ assms(2-4), of B blk] assms(1)
  by (auto simp: hand_defs at_place_def dead_def split: place.splits)

lemma background_stop_returns_witness:
  "\<exists>(sw1 :: sync_server \<times> net) sw2. (sync_threads two_peers (plain_sync two_peers) 1 3 ^^ 3)
     (Going (At_loop None), P_join, sw1) (Left, Returned, sw2) \<and> (3::nat) \<le> 74"
proof -
  obtain sw1 sw2 where r: "(sync_threads two_peers (plain_sync two_peers) 1 3)\<^sup>*\<^sup>*
      (Going (At_loop None), P_test, (listening (Epoll_impl 3), epoll_listening)) (Going (At_loop None), P_join, sw1)"
    "(sync_threads two_peers (plain_sync two_peers) 1 3 ^^ 3) (Going (At_loop None), P_join, sw1) (Left, Returned, sw2)"
    using sync_stop_can_return [OF epoll_listening_inv] by blast
  from background_stop_returns [OF epoll_listening_inv r(1) _ r(2)] have "(3::nat) \<le> 74" by (simp add: closed_def)
  with r(2) show ?thesis by blast
qed

subsection \<open>Where \<open>stop\<close> does not return\<close>

text \<open>A kernel that has nothing to report: \<open>epoll_wait\<close> without a time limit does not return.\<close>

fun nothing_to_report :: "spot \<Rightarrow> 's \<Rightarrow> bool" where
  "nothing_to_report (At_epoll ep stall since) sw = (stall = None)"
| "nothing_to_report _ sw = False"

text \<open>
  C9: \<open>stop\<close> can hang: a server that polls with \<open>epoll\<close> and has frequency 0 calls \<open>epoll_wait\<close>
  without a time limit. If the thread is on its way into that call when \<open>stop\<close> closes the
  socket, and the kernel has nothing to report for the other descriptors, then \<open>stop\<close> waits for the
  thread and the thread for the kernel, and no thread can act any more.
\<close>

theorem epoll_stop_hangs:
  assumes "net_inv B {} (s, w)" and "server_valid s" and "poll_impl s = Some (Epoll_impl ep)" and "frequency s = 0"
  shows "\<exists>sw'. (unblocked nothing_to_report (sync_threads pf (plain_sync pf) rfuel n))\<^sup>*\<^sup>*
      (Going (At_loop since), P_test, (s, w)) (Going (At_epoll ep None since), P_join, sw') \<and>
    (\<nexists>st. unblocked nothing_to_report (sync_threads pf (plain_sync pf) rfuel n) (Going (At_epoll ep None since), P_join, sw') st)"
proof -
  let ?U = "unblocked nothing_to_report (sync_threads pf (plain_sync pf) rfuel n)"
  have step: "?U\<^sup>*\<^sup>* x (Going p, P_test, (s, w)) \<Longrightarrow> act pf (plain_sync pf) rfuel n p (s, w) = (sp, (s, w)) \<Longrightarrow>
      \<not> nothing_to_report p (s, w) \<Longrightarrow> ?U\<^sup>*\<^sup>* x (sp, P_test, (s, w))" for x p sp
    by (rule rtranclp.rtrancl_into_rtrancl, assumption) (auto simp: unblocked_def intro: threads.working)
  let ?start = "(Going (At_loop since), P_test, (s, w))" and ?at = "Going (At_epoll ep None since)"
  have "?U\<^sup>*\<^sup>* ?start (Going (At_poll since), P_test, (s, w))"
    by (rule step [OF rtranclp.rtrancl_refl]) (use assms(2) in \<open>simp_all add: does_def prog_simps\<close>)
  then have "?U\<^sup>*\<^sup>* ?start (Going (At_wait (Epoll_impl ep) since), P_test, (s, w))"
    by (rule step) (use assms(2,3) in \<open>simp_all add: does_def prog_simps\<close>)
  then have "?U\<^sup>*\<^sup>* ?start (Going (At_impl (Epoll_impl ep) None since), P_test, (s, w))"
    by (rule step) (cases since; simp add: does_def prog_simps wait_time_def assms(4))+
  then have "?U\<^sup>*\<^sup>* ?start (?at, P_test, (s, w))"
    by (rule step) (use assms(2) in \<open>simp_all add: does_def prog_simps\<close>)
  moreover obtain sw' where "?U\<^sup>*\<^sup>* (?at, P_test, (s, w)) (?at, P_join, sw')"
    using polling.stop_reaches_join_blocked [OF assms(1), of ?at nothing_to_report pf rfuel n] by (auto simp: dead_def)
  moreover have "\<not> ?U (?at, P_join, sw') st" for st
    by (auto simp: unblocked_def dest: act_moves elim!: threadsE)
  ultimately show ?thesis by (meson rtranclp_trans)
qed

lemma epoll_stop_hangs_witness:
  "\<exists>sw'. (unblocked nothing_to_report (sync_threads two_peers (plain_sync two_peers) 1 3))\<^sup>*\<^sup>*
      (Going (At_loop (Some (0, 0))), P_test, ((listening (Epoll_impl 3))\<lparr>frequency := 0\<rparr>, epoll_listening))
      (Going (At_epoll 3 None (Some (0, 0))), P_join, sw')"
proof -
  let ?s = "(listening (Epoll_impl 3))\<lparr>frequency := 0\<rparr>"
  have inv: "net_inv {#3#} {} (?s, epoll_listening)"
    using epoll_listening_inv [of "Epoll_impl 3"] by (simp add: net_inv_def held_def is_valid_def)
  have "server_valid ?s" "poll_impl ?s = Some (Epoll_impl 3)" "frequency ?s = 0"
    using listening_simps(2,3) [of "Epoll_impl 3"] by (simp_all add: server_valid_def is_valid_def)
  from epoll_stop_hangs [OF inv this] show ?thesis by blast
qed

subsection \<open>The race that ends the process\<close>

lemma wait_time_run:
  assumes "net_inv B T (s, w)"
  shows "\<exists>stall since' w'. wait_time pf since (s, w) = (Inr (stall, since'), (s, w')) \<and> net_inv B T (s, w')"
proof -
  have "net_inv B T (snd (wait_time pf since (s, w)))" using keeps_snd [OF wait_time_inv assms] .
  then show ?thesis
    by (cases since) (auto simp: wait_time_def prog_simps split: if_splits)
qed

text \<open>
  C35: with \<open>select\<close>, stopping a background server can end the process: whatever the kernel answers,
  there is an order of the actions in which \<open>stop\<close> closes the socket between the test of
  \<open>is_valid\<close> in \<open>impl::poll\<close> and the reading of the descriptor after it, and then the polling thread
  either throws, as \<open>select\<close> reports an error, or tests bit \<open>-1\<close> of a descriptor set.
\<close>

theorem select_stop_race:
  assumes "net_inv B {} (s, w)" and "server_valid s" and "poll_impl s = Some (Select_impl i t m)"
  shows "\<exists>e sw'. (sync_threads pf (plain_sync pf) rfuel n)\<^sup>*\<^sup>* (Going (At_loop since), P_test, (s, w)) (Died e, P_join, sw') \<and>
    (e = Undefined_behaviour \<or> (\<exists>msg. e = Socket_exception msg))"
proof -
  let ?T = "sync_threads pf (plain_sync pf) rfuel n"
  have step: "?T\<^sup>*\<^sup>* x (Going p, ph, sw) \<Longrightarrow> act pf (plain_sync pf) rfuel n p sw = (sp', sw') \<Longrightarrow> ?T\<^sup>*\<^sup>* x (sp', ph, sw')"
    for x p ph sw sp' sw'
    by (rule rtranclp.rtrancl_into_rtrancl, assumption, rule threads.working)
  let ?st = "(Going (At_loop since), P_test, (s, w))"
  obtain stall since' w1 where w1: "wait_time pf since (s, w) = (Inr (stall, since'), (s, w1))" "net_inv B {} (s, w1)"
    using wait_time_run [OF assms(1)] by blast
  let ?impl = "Select_impl i t m"
  have "?T\<^sup>*\<^sup>* ?st (Going (At_poll since), P_test, (s, w))"
    by (rule step [OF rtranclp.rtrancl_refl]) (use assms(2) in \<open>simp add: does_def prog_simps\<close>)
  then have "?T\<^sup>*\<^sup>* ?st (Going (At_wait ?impl since), P_test, (s, w))"
    by (rule step) (use assms(2,3) in \<open>simp add: does_def prog_simps\<close>)
  then have "?T\<^sup>*\<^sup>* ?st (Going (At_impl ?impl stall since'), P_test, (s, w1))"
    by (rule step) (use w1 in \<open>simp add: does_def prog_simps\<close>)
  then have at: "?T\<^sup>*\<^sup>* ?st (Going (At_sock stall since'), P_test, (s, w1))"
    by (rule step) (use assms(2) in \<open>simp add: does_def prog_simps\<close>)
  obtain l w2 where j: "?T\<^sup>*\<^sup>* (Going (At_sock stall since'), P_test, (s, w1))
      (Going (At_sock stall since'), P_join, (s\<lparr>ssl := l, raw_sock := INVALID, non_blocking := False\<rparr>, w2))"
    using polling.stop_reaches_join [OF w1(2), of "Going (At_sock stall since')" pf rfuel n] by (auto simp: dead_def)
  let ?s2 = "s\<lparr>ssl := l, raw_sock := INVALID, non_blocking := False\<rparr>"
  have sel: "?T\<^sup>*\<^sup>* ?st (Going (At_select INVALID stall since'), P_join, (?s2, w2))"
    by (rule step [OF rtranclp_trans [OF at j]]) (simp add: does_def prog_simps)
  obtain r i' t' where o: "os_select pf (trace w2) i t stall = (r, i', t')"
    by (cases "os_select pf (trace w2) i t stall")
  let ?w3 = "record_call pf (Sys_select (m + 1) i t stall r) w2"
  let ?s3 = "?s2\<lparr>poll_impl := Some (Select_impl i' t' m)\<rparr>"
  have run: "select_wait pf stall (?s2, w2) =
      (if r < 0 \<and> errno ?w3 \<noteq> EINTR then Inl (Socket_exception (os_strerror pf (errno ?w3))) else Inr i', (?s3, ?w3))"
    using assms(3) o by (simp add: select_wait_def get_select_def put_select_def prog_simps)
  show ?thesis
  proof (cases "r < 0 \<and> errno ?w3 \<noteq> EINTR")
    case True
    then have "act pf (plain_sync pf) rfuel n (At_select INVALID stall since') (?s2, w2) =
        (Died (Socket_exception (os_strerror pf (errno ?w3))), (?s3, ?w3))"
      using run by (simp add: does_def)
    from step [OF sel this] show ?thesis by blast
  next
    case False
    then have "act pf (plain_sync pf) rfuel n (At_select INVALID stall since') (?s2, w2) =
        (Going (At_isset INVALID i' since'), (?s3, ?w3))"
      using run by (auto simp: does_def)
    from step [OF sel this] have "?T\<^sup>*\<^sup>* ?st (Going (At_isset INVALID i' since'), P_join, (?s3, ?w3))" .
    from step [OF this, of "Died Undefined_behaviour" "(?s3, ?w3)"] show ?thesis
      by (auto simp: does_def guard_fd_def fd_ok_def INVALID_def prog_simps)
  qed
qed

lemma select_stop_race_witness:
  "\<exists>e sw'. (sync_threads two_peers (plain_sync two_peers) 1 3)\<^sup>*\<^sup>*
      (Going (At_loop None), P_test, (listening (Select_impl {4} {} 4), net_listening)) (Died e, P_join, sw')"
proof -
  have "server_valid (listening (Select_impl {4} {} 4))"
    "poll_impl (listening (Select_impl {4} {} 4)) = Some (Select_impl {4} {} 4)"
    by simp_all
  from select_stop_race [OF net_listening_inv this] show ?thesis by blast
qed

end
