(* ===== verification/Background_Accept.thy ===== *)
theory Background_Accept
  imports Background_Stop
begin

section \<open>Stopping a server that accepts in the background\<close>

text \<open>
  The accepting loop of \<open>socket_server\<close> and of the asynchronous server, under \<open>stop\<close>. What becomes
  of a new connection is a program that the loop does not look into: the interface \<open>serving\<close> says
  that it ends with the descriptor of the connection closed and leaves the server alone. The loop
  then fulfils the interface \<open>stoppable\<close>, over the default factory as over that of the clients.
\<close>

definition gate_hand :: "gate \<Rightarrow> socket_fd multiset" where
  "gate_hand p = (case p of Gate_accepted sock _ \<Rightarrow> {#sock#} | _ \<Rightarrow> {#})"

definition gate_fit :: "gate \<Rightarrow> bool" where
  "gate_fit p \<longleftrightarrow> (case p of Gate_accepted sock _ \<Rightarrow> sock \<noteq> INVALID | _ \<Rightarrow> True)"

fun gate_weight :: "gate \<Rightarrow> nat" where
  "gate_weight Gate_accept = 4"
| "gate_weight (Gate_waiting _) = 3"
| "gate_weight (Gate_accepted _ _) = 2"
| "gate_weight Gate_loop = 1"

lemmas gate_defs = gate_hand_def gate_fit_def

lemma accept_on_inv:
  assumes "net_inv B T (s, w)"
  shows "\<exists>sock a w'. accept_on pf fd (s, w) = (Inr (sock, a), (s, w')) \<and> conns w' = conns w \<and>
    (if sock = INVALID then net_inv B T (s, w') else net_inv (B + {#sock#}) T (s, w'))"
proof -
  obtain sock a where o: "os_accept pf (trace w) fd = (sock, a)" by (cases "os_accept pf (trace w) fd")
  let ?w = "record_call pf (Sys_accept fd sock) w"
  have same: "conns ?w = conns w" "heap ?w = heap w" "next_id ?w = next_id w" by (simp_all add: record_call_def)
  from same have "table_ok T ?w = table_ok T w" by (rule table_ok_world)
  with assms o same show ?thesis by (auto simp: accept_on_def prog_simps net_inv_def)
qed

locale serving =
  fixes pf :: platform and serve :: "socket_fd \<Rightarrow> sockaddr \<Rightarrow> ('a, 'w, unit) srv_prog"
  assumes serve_releases: "net_inv (B + {#sock#}) {} (s, w) \<Longrightarrow> sock \<noteq> INVALID \<Longrightarrow> conns w = [] \<Longrightarrow>
      serve sock a (s, w) = (Inr (), (s', w')) \<Longrightarrow> net_inv B {} (s', w') \<and> conns w' = []"
    and serve_server: "serve sock a (s, w) = (r, (s', w')) \<Longrightarrow> s' = s"
begin

lemma gate_keeps:
  assumes "net_inv (B + gate_hand p) {} (s, w)" and "gate_fit p" and "conns w = []"
    and "gate_act pf serve p (s, w) = (sp, (s', w'))" and "\<not> dead sp"
  shows "net_inv (B + at_place {#} gate_hand sp) {} (s', w') \<and> at_place True gate_fit sp \<and> conns w' = []"
proof (cases p)
  case Gate_loop
  with assms show ?thesis by (auto simp: does_def prog_simps gate_defs split: if_splits)
next
  case Gate_accept
  with assms show ?thesis by (auto simp: does_def prog_simps gate_defs)
next
  case (Gate_waiting fd)
  then have "net_inv B {} (s, w)" using assms(1) by (simp add: gate_hand_def)
  then obtain sock a w1 where a: "accept_on pf fd (s, w) = (Inr (sock, a), (s, w1))" "conns w1 = conns w"
    "if sock = INVALID then net_inv B {} (s, w1) else net_inv (B + {#sock#}) {} (s, w1)"
    using accept_on_inv by blast
  with assms(3,4) Gate_waiting show ?thesis by (auto simp: does_def gate_defs split: if_splits)
next
  case (Gate_accepted sock a)
  with assms(4,5) have "serve sock a (s, w) = (Inr (), (s', w'))" "sp = Going Gate_loop"
    by (auto simp: does_def dead_def split: prod.splits sum.splits)
  with serve_releases [of B sock s w a s' w'] assms(1-3) Gate_accepted show ?thesis by (simp add: gate_defs)
qed

lemma gate_socket:
  assumes "gate_act pf serve p (s, w) = (sp, (s', w'))"
  shows "raw_sock s' = raw_sock s \<and> background s' = background s"
proof (cases p)
  case (Gate_accepted sock a)
  with assms serve_server [of sock a s w] show ?thesis
    by (fastforce simp: does_def split: prod.splits sum.splits)
qed (use assms in \<open>auto simp: does_def accept_on_def prog_simps split: prod.splits if_splits\<close>)

lemma gate_nearer:
  "gate_act pf serve p (s, w) = (sp, sw') \<Longrightarrow> \<not> server_valid s \<Longrightarrow> at_place 0 gate_weight sp < gate_weight p"
  by (cases p) (auto simp: does_def prog_simps split: prod.splits sum.splits if_splits)

lemma gate_bounded: "gate_act pf serve p (s, w) = (sp, sw') \<Longrightarrow> at_place 0 gate_weight sp \<le> 4"
  by (cases sp; simp) (rename_tac q; case_tac q; simp)

end

locale accepting = serving pf serve
  for pf and serve :: "socket_fd \<Rightarrow> sockaddr \<Rightarrow> ('a, 'w, unit) srv_prog" +
  fixes vt :: "('a, 'w) server_vtable"
  assumes quiet: "sv_hook vt On_stop = pret ()" "sv_listener vt i On_stop = pret ()"

sublocale accepting \<subseteq> gate: stoppable pf vt "gate_act pf serve" "pret ()" gate_hand gate_fit "\<lambda>m. m = []" gate_weight 4
proof (unfold_locales, goal_cases)
  case (1 B p s w sp s' w')
  from gate_keeps [OF this] show ?case .
next
  case (2 p s w sp s' w')
  from gate_socket [OF this] show ?case .
next
  case (3 p s w sp sw')
  from gate_nearer [OF this] show ?case .
next
  case (4 p s w sp sw')
  from gate_bounded [OF this(1)] show ?case .
qed (simp_all add: quiet prog_simps)


subsection \<open>The default factory\<close>

text \<open>A server that overrides nothing and has only connections without virtual functions.\<close>

definition plain_accept :: "platform \<Rightarrow> ('a, 'w) server_vtable" where
  "plain_accept pf = \<lparr>sv_hook = \<lambda>_. pret (), sv_listener = \<lambda>_ _. pret (), sv_create = (\<lambda>_. default_create pf), sv_conn = idle_vtable\<rparr>"

lemma plain_accept_simps [simp]:
  "sv_hook (plain_accept pf) ev = pret ()" "sv_listener (plain_accept pf) i ev = pret ()"
  "sv_create (plain_accept pf) = (\<lambda>_. default_create pf)" "v_hook (sv_conn (plain_accept pf)) hook = pret ()"
  by (simp_all add: plain_accept_def idle_vtable_def)

lemma plain_accept_served:
  assumes "net_inv (B + {#sock#}) {} (s, w)" and "sock \<noteq> INVALID"
  shows "\<exists>w'. drop_served pf (plain_accept pf) sock a (s, w) = (Inr (), (s, w')) \<and> net_inv B {} (s, w') \<and> conns w' = conns w"
proof -
  obtain i w1 c where i: "server_on_accept (plain_accept pf) sock a (s, w) = (Inr i, (s, w1))" "conns w1 = conns w"
    "net_inv B (insert i {}) (s, w1)" "smap_get (heap w1) i = Some c" "\<And>fd. smap_get (conns w1) fd \<noteq> Some i"
    using on_accept_inv [OF assms, of "plain_accept pf" pf a] by auto
  from drop_conn_inv [OF i(3,5), of pf] i show ?thesis by (auto simp: drop_served_def prog_simps)
qed

lemma drop_served_server:
  assumes "drop_served pf (plain_accept pf) sock a (s, w) = (r, (s', w'))"
  shows "s' = s"
proof -
  have create: "keeps (\<lambda>(s', w). s' = s) (sv_create (plain_accept pf) k sock a)" for k
    by (rule keeps_pairI) (simp add: default_create_def split: prod.split sum.split)
  have "keeps (\<lambda>(s', w). s' = s) (drop_served pf (plain_accept pf) sock a)"
    unfolding drop_served_def server_on_accept_def new_conn_def
    by (auto split: option.split intro!: hoare_rules create [simplified])
  from keeps_snd [OF this, of "(s, w)"] assms show ?thesis by simp
qed

interpretation dropping: accepting pf "drop_served pf (plain_accept pf)" "plain_accept pf" for pf
proof (unfold_locales, goal_cases)
  case (1 B sock s w a s' w')
  with plain_accept_served [of B sock s w pf a] show ?case by auto
next
  case (2 sock a s w r s' w')
  from drop_served_server [OF this] show ?case .
qed simp_all

subsection \<open>Clients with a thread\<close>

text \<open>
  A client object is not in the table: its own programs leave the table, the heap and the
  count of objects as they are.
\<close>

definition apart :: "(socket_fd, conn_id) smap \<times> (conn_id, buffered) smap \<times> conn_id \<Rightarrow> 'a socket_scheme \<times> 'w net_scheme \<Rightarrow> bool" where
  "apart x = (\<lambda>(c, w). ssl c = None \<and> (conns w, heap w, next_id w) = x)"

lemma apart_upd: "(\<And>c. ssl (f c) = ssl c) \<Longrightarrow> keeps (apart x) (upd f)"
  by (rule keeps_upd) (simp add: apart_def)

lemma apart_calls:
  "keeps (apart x) (call pf ev)" "keeps (apart x) (ask pf g evr)"
  by (rule keeps_call keeps_ask; simp add: apart_def record_call_def)+

lemma apart_on_ssl: "keeps (apart x) (on_ssl m)"
  by (rule keeps_pairI) (simp add: on_ssl_def apart_def)

lemmas apart_rules = hoare_rules apart_calls apart_on_ssl

lemma apart_notify: "keeps (apart x) (notify idle_vtable ev)"
  unfolding notify_def call_listener_def by (auto simp: idle_vtable_def split: option.split intro!: hoare_rules)

lemma apart_fields:
  "keeps (apart x) (upd (\<lambda>s. s\<lparr>inBuffer := f s\<rparr>))" "keeps (apart x) (upd (\<lambda>s. s\<lparr>outBuffer := f s\<rparr>))"
  "keeps (apart x) (upd (\<lambda>s. s\<lparr>raw_sock := fd\<rparr>))" "keeps (apart x) (upd (\<lambda>s. s\<lparr>non_blocking := b\<rparr>))"
  "keeps (apart x) (upd (\<lambda>s. s\<lparr>thread := t\<rparr>))" "keeps (apart x) (upd (\<lambda>s. s\<lparr>ssl := None\<rparr>))"
  by (rule keeps_upd; simp add: apart_def)+

lemma apart_close: "keeps (apart x) (socket_close pf)"
  unfolding socket_close_def by (auto intro!: apart_rules apart_fields)

lemma apart_write: "keeps (apart x) (write_from_buffer pf idle_vtable)"
  unfolding write_from_buffer_def send_buffer_def socket_send_def Let_def
  by (auto intro!: apart_rules apart_fields apart_notify)

lemma apart_buf_close: "keeps (apart x) (buf_close pf idle_vtable)"
  unfolding buf_close_def buf_flush_def by (auto intro!: apart_rules apart_notify apart_write apart_close)

lemma apart_read_chunk: "keeps (apart x) (read_chunk pf idle_vtable chunk)"
  unfolding read_chunk_def socket_recv_def Let_def
  by (auto simp: idle_vtable_def socket_on_recv_def intro!: apart_rules)

lemma apart_read: "keeps (apart x) (read_to_buffer pf idle_vtable rfuel)"
proof -
  have "keeps (apart x) (read_loop pf idle_vtable fuel chunk)" for fuel chunk
    by (induction fuel arbitrary: chunk) (auto intro!: apart_rules apart_fields apart_read_chunk)
  then show ?thesis unfolding read_to_buffer_def by (auto intro!: apart_rules apart_notify apart_read_chunk)
qed

lemma apart_run: "keeps (apart x) (client_run pf idle_vtable rfuel n)"
  by (induction n) (auto intro!: apart_rules apart_write apart_buf_close apart_read)

lemma apart_destroy: "keeps (apart x) (socket_destroy pf)"
  unfolding socket_destroy_def set_ssl_def by (auto intro!: apart_rules apart_fields apart_close)

lemma client_run_owns: "keeps (owns B) (client_run pf idle_vtable rfuel n)"
  by (induction n)
    (auto intro!: hoare_rules idle.write_from_buffer_keeps idle.buf.keeps_vclose idle.read_to_buffer_keeps)

lemma serve_client_releases:
  assumes I: "net_inv (B + {#sock#}) {} (s, w)" and sock: "sock \<noteq> INVALID"
    and run: "serve_client pf idle_vtable rfuel n sock a (s, w) = (Inr (), (s', w'))"
  shows "net_inv B {} (s', w') \<and> conns w' = conns w"
proof -
  let ?c = "(client_of_raw sock a)\<lparr>thread := Own_thread\<rparr>"
  let ?x = "(conns w, heap w, next_id w)" and ?B = "B + held s + held_by (heap w)"
  obtain c1 w1 where r: "client_run pf idle_vtable rfuel n (?c, w) = (Inr (), (c1, w1))"
    "snd (snd (socket_destroy pf (c1, w1))) = w'" "s' = s"
    using run by (auto simp: serve_client_def client_on_connect_def client_destroy_def prog_simps
        split: prod.splits sum.splits)
  have "owns ?B (?c, w)" using I sock by (simp add: owns_def net_inv_def is_valid_def)
  then have "owns ?B (c1, w1)" using keeps_snd [OF client_run_owns, of ?B "(?c, w)" pf rfuel n] r(1) by simp
  then have fds: "open_fds (trace w') = ?B" using destroy_releases [of ?B "(c1, w1)" pf] r(2) by simp
  have "apart ?x (?c, w)" by (simp add: apart_def)
  then have "apart ?x (c1, w1)" using keeps_snd [OF apart_run, of ?x "(?c, w)" pf rfuel n] r(1) by simp
  then have "apart ?x (snd (socket_destroy pf (c1, w1)))" by (rule keeps_snd [OF apart_destroy])
  then have w': "conns w' = conns w" "heap w' = heap w" "next_id w' = next_id w"
    using r(2) by (auto simp: apart_def split: prod.splits)
  with I fds table_ok_world [OF w'] r(3) show ?thesis by (simp add: net_inv_def)
qed

interpretation clients: accepting pf "serve_client pf idle_vtable rfuel n" "plain_accept pf" for pf rfuel n
proof (unfold_locales, goal_cases)
  case (1 B sock s w a s' w')
  from serve_client_releases [OF 1(1,2,4)] 1(3) show ?case by simp
next
  case (2 sock a s w r s' w')
  then show ?case by (auto simp: serve_client_def split: prod.splits)
qed simp_all

subsection \<open>\<open>stop\<close> in every interleaving\<close>

text \<open>
  A server that overrides nothing, running \<open>socket_server::run\<close> in the background: in every
  interleaving a \<open>stop\<close> that has returned has joined the thread, closed the server and left the
  process with the descriptors it held outside the server, the connection the thread had at hand
  included.
\<close>

theorem accepting_stop_releases:
  assumes "net_inv B {} (s, w)" and "conns w = []"
    and "(accept_threads pf (plain_accept pf))\<^sup>*\<^sup>* (Going Gate_loop, P_test, (s, w)) (sp, Returned, (s', w'))"
  shows "sp = Left \<and> \<not> server_valid s' \<and> \<not> background s' \<and> heap w' = [] \<and> open_fds (trace w') = B"
  using dropping.gate.released [OF dropping.gate.threads_ok_start assms(3)] assms(1,2) by (simp add: gate_defs)

lemma accept_stop_can_return:
  assumes "net_inv B {} (s, w)" and "conns w = []"
  shows "\<exists>sw1 sw2. (accept_threads pf (plain_accept pf))\<^sup>*\<^sup>* (Going Gate_loop, P_test, (s, w)) (Going Gate_loop, P_join, sw1) \<and>
    (accept_threads pf (plain_accept pf) ^^ 3) (Going Gate_loop, P_join, sw1) (Left, Returned, sw2)"
  using assms by (intro dropping.gate.can_return) (simp_all add: gate_defs does_def prog_simps)

lemma accepting_stop_releases_witness:
  "\<exists>s' w'. (accept_threads two_peers (plain_accept two_peers))\<^sup>*\<^sup>*
      (Going Gate_loop, P_test, (listening epoll_new, net_listening)) (Left, Returned, (s', w')) \<and> open_fds (trace w') = {#}"
proof -
  let ?T = "accept_threads two_peers (plain_accept two_peers)"
  have empty: "conns net_listening = []" by (simp add: net_listening_def net0_def world.defs)
  obtain sw1 s' w' where "?T\<^sup>*\<^sup>* (Going Gate_loop, P_test, (listening epoll_new, net_listening)) (Going Gate_loop, P_join, sw1)"
    "(?T ^^ 3) (Going Gate_loop, P_join, sw1) (Left, Returned, (s', w'))"
    using accept_stop_can_return [OF net_listening_inv empty] by (metis surj_pair)
  then have "?T\<^sup>*\<^sup>* (Going Gate_loop, P_test, (listening epoll_new, net_listening)) (Left, Returned, (s', w'))"
    by (meson relpowp_imp_rtranclp rtranclp_trans)
  with accepting_stop_releases [OF net_listening_inv empty this] show ?thesis by blast
qed

text \<open>
  From the moment it has closed the socket, both threads make at most seven more actions, and where
  none is left \<open>stop\<close> has returned, an exception has ended the accepting thread and with it the
  process, or the thread is in a call that does not return, as \<open>accept\<close> on a descriptor that it
  read before the close.
\<close>

theorem accepting_stop_returns:
  assumes "net_inv B {} (s, w)" and "conns w = []"
    and "(accept_threads pf (plain_accept pf))\<^sup>*\<^sup>* (Going Gate_loop, P_test, (s, w)) (sp, ph, sw)" and "closed ph"
    and "(accept_threads pf (plain_accept pf) ^^ m) (sp, ph, sw) (sp', ph', sw')"
  shows "m \<le> 7 \<and> ((\<nexists>st. unblocked blk (accept_threads pf (plain_accept pf)) (sp', ph', sw') st) \<longrightarrow>
    dead sp' \<or> ph' = Returned \<or> ph' = P_join \<and> (\<exists>p. sp' = Going p \<and> blk p sw'))"
  using dropping.gate.returns [OF dropping.gate.threads_ok_start _ assms(3-5), of B blk] assms(1,2)
  by (auto simp: gate_defs at_place_def split: place.splits)

text \<open>
  The asynchronous server with a factory that keeps no pointer: the same, whatever its clients do,
  when the \<open>run\<close> of every client it has served has ended.
\<close>

theorem async_stop_releases:
  assumes "net_inv B {} (s, w)" and "conns w = []"
    and "(async_threads pf (plain_accept pf) idle_vtable rfuel n)\<^sup>*\<^sup>* (Going Gate_loop, P_test, (s, w)) (sp, Returned, (s', w'))"
  shows "sp = Left \<and> \<not> server_valid s' \<and> \<not> background s' \<and> heap w' = [] \<and> open_fds (trace w') = B"
  using clients.gate.released [OF clients.gate.threads_ok_start assms(3)] assms(1,2) by (simp add: gate_defs)

text \<open>
  C38: with a factory that makes asynchronous clients and keeps no pointer to them, \<open>stop\<close> of an
  asynchronous server need not return: the pointer that \<open>on_accept\<close> returns is dropped, the
  destructor of the client waits for its thread, and a client whose peer has closed the connection
  is never done, so that the accepting thread never sees that the server is closed. However many
  turns the client is given, no order of the actions lets \<open>stop\<close> return.
\<close>

theorem async_stop_waits_for_client:
  assumes "at_eof pf fd" and "fd \<noteq> INVALID" and "\<not> joined ph"
    and "(async_threads pf vt idle_vtable rfuel n)\<^sup>*\<^sup>* (Going (Gate_accepted fd a), ph, sw) (sp', ph', sw')"
  shows "\<not> joined ph' \<and> sp' \<noteq> Left"
proof -
  let ?st = "\<lambda>(sp, ph, sw). (sp = Going (Gate_accepted fd a) \<or> dead sp) \<and> \<not> joined ph"
  have spin: "dead (fst (does Died (serve_client pf idle_vtable rfuel n fd a) k sw))" for k and sw :: "'a server_scheme \<times> 'b net_scheme"
  proof (cases sw)
    case (Pair s w)
    let ?c = "(client_of_raw fd a)\<lparr>thread := Own_thread\<rparr>"
    have "is_valid ?c" "ssl ?c = None" "listeners ?c = []" "outBuffer ?c = []" "raw_sock ?c = fd"
      using assms(2) by (simp_all add: is_valid_def)
    then obtain w' where "client_run pf idle_vtable rfuel n (?c, w) = (Inl Out_of_fuel, (?c, w'))"
      using client_run_spins [of ?c pf rfuel n w] assms(1) by auto
    then show ?thesis
      by (simp add: Pair serve_client_def client_on_connect_def client_destroy_def prog_simps does_def dead_def)
  qed
  have "?st (sp', ph', sw')"
    using assms(4)
  proof (induction "(sp', ph', sw')" arbitrary: sp' ph' sw' rule: rtranclp_induct)
    case base
    show ?case using assms(3) by simp
  next
    case (step st)
    obtain sp1 ph1 sw1 where st: "st = (sp1, ph1, sw1)" by (metis surj_pair)
    from step(2) show ?case unfolding st
    proof cases
      case (working p)
      have "p = Gate_accepted fd a" using working(1) step(3) [OF st] by (simp add: dead_def)
      with working(3) have "dead sp'" using spin [of "\<lambda>_. Going Gate_loop" sw1] by simp
      with step(3) [OF st] working(2) show ?thesis by simp
    next
      case stopping
      with step(3) [OF st] show ?thesis
        by (cases ph1) (auto simp: does_def joined_def over_def dead_def split: prod.splits sum.splits if_splits)
    qed
  qed
  then show ?thesis by (auto simp: dead_def)
qed

lemma async_stop_waits_for_client_witness:
  "\<exists>sw. (async_threads granting (plain_accept granting) idle_vtable 2 5)\<^sup>*\<^sup>*
      (Going (Gate_accepted 9 local_addr), P_test, (listening epoll_new, net_listening))
      (Going (Gate_accepted 9 local_addr), P_join, sw) \<and> \<not> joined P_join"
proof -
  let ?p = "Going (Gate_accepted 9 local_addr)"
  have "\<not> dead ?p" by (simp add: dead_def)
  from clients.gate.stop_reaches_join [OF net_listening_inv this]
  obtain sw where sw: "(async_threads granting (plain_accept granting) idle_vtable 2 5)\<^sup>*\<^sup>*
      (?p, P_test, (listening epoll_new, net_listening)) (?p, P_join, sw)" by blast
  have "at_eof granting 9" "(9 :: int) \<noteq> INVALID" "\<not> joined P_test"
    by (simp_all add: granting_def at_eof_def INVALID_def joined_def)
  from async_stop_waits_for_client [OF this sw] sw show ?thesis by blast
qed

end
