(* ===== verification/Background_Alone.thy ===== *)
theory Background_Alone
  imports Background
begin

section \<open>One thread alone\<close>

text \<open>
  A thread that is left alone computes what the sequential model computes: the polling loop, the
  two accepting loops, and \<open>stop\<close>.
\<close>

definition go :: "('p \<Rightarrow> 's \<Rightarrow> 'p place \<times> 's) \<Rightarrow> 'p place \<Rightarrow> 's \<Rightarrow> 'p place \<times> 's" where
  "go body sp = (case sp of Going p \<Rightarrow> body p | _ \<Rightarrow> Pair sp)"

lemma go_simps [simp]: "go body (Going p) = body p" "go body Left = Pair Left" "go body (Died e) = Pair (Died e)"
  by (simp_all add: go_def)

subsection \<open>Runs of actions and programs\<close>

definition leads ::
  "('p \<Rightarrow> 's \<Rightarrow> 'p \<times> 's) \<Rightarrow> (exn \<Rightarrow> 'p) \<Rightarrow> 'p \<Rightarrow> ('s, 'x) prog \<Rightarrow> ('x \<Rightarrow> 'p) \<Rightarrow> bool" where
  "leads f dies p m k \<longleftrightarrow> (\<forall>s. \<exists>j. ((\<lambda>(p, s). f p s) ^^ j) (p, s) = does dies m k s)"

lemma leads_pret: "p = k x \<Longrightarrow> leads f dies p (pret x) k"
  unfolding leads_def by (auto intro!: exI [of _ 0] simp: does_def prog_simps)

lemma leads_praise: "f p = does dies (praise e) g \<Longrightarrow> leads f dies p (praise e) k"
  unfolding leads_def by (auto intro!: exI [of _ "Suc 0"] simp: does_def prog_simps)

lemma leads_one: "f p = does dies m k \<Longrightarrow> leads f dies p m k"
  unfolding leads_def by (intro allI exI [of _ "Suc 0"]) simp

lemma leads_seq:
  assumes "leads f dies p m g" and "\<And>x. leads f dies (g x) (h x) k"
  shows "leads f dies p (pbind m h) k"
  unfolding leads_def
proof
  fix s
  let ?f = "\<lambda>(p, s). f p s"
  obtain i where i: "(?f ^^ i) (p, s) = does dies m g s" using assms(1) by (auto simp: leads_def)
  show "\<exists>j. (?f ^^ j) (p, s) = does dies (pbind m h) k s"
  proof (cases "fst (m s)")
    case (Inl e)
    with i show ?thesis
      by (cases "m s") (auto intro!: exI [of _ i] simp: does_def prog_simps)
  next
    case (Inr x)
    obtain j where "(?f ^^ j) (g x, snd (m s)) = does dies (h x) k (snd (m s))"
      using assms(2) [of x] unfolding leads_def by blast
    with i Inr have "(?f ^^ (j + i)) (p, s) = does dies (pbind m h) k s"
      by (cases "m s") (simp add: does_def prog_simps funpow_add)
    then show ?thesis by blast
  qed
qed

lemma leads_then:
  "leads f dies p m g \<Longrightarrow> (\<And>x. leads f dies (g x) h k) \<Longrightarrow> leads f dies p (pthen m h) k"
  unfolding pthen_def by (rule leads_seq)

lemmas leads_act = leads_seq [OF leads_one] leads_then [OF leads_one]

lemma leads_eq: "leads f dies p m k \<Longrightarrow> m' = m \<Longrightarrow> leads f dies p m' k"
  by simp

lemma pbind_pthen: "pbind (pthen m n) f = pthen m (pbind n f)"
  by (simp add: pthen_def pbind_assoc)

lemma pbind_if: "pbind (if b then m else n) f = (if b then pbind m f else pbind n f)"
  by simp

lemma pbind_case_prod: "pbind (case p of (x, y) \<Rightarrow> g x y) f = (case p of (x, y) \<Rightarrow> pbind (g x y) f)"
  by (simp split: prod.split)

lemma pbind_obj_id:
  "pbind (obj id) (\<lambda>s. if \<not> p s then pret x else h (q s)) =
   pbind (obj p) (\<lambda>v. if \<not> v then pret x else pbind (obj q) h)"
  by (rule ext) (auto simp: prog_simps split: prod.split)

text \<open>The places of a poll, from the last to the first.\<close>

lemma leads_events:
  "leads (go (act pf vt rfuel n)) Died (Going (At_events xs since)) (piter (epoll_event pf vt rfuel) xs) (\<lambda>_. Going (At_notify since))"
proof (induction xs)
  case Nil
  show ?case by (auto intro: leads_one)
next
  case (Cons x xs)
  then show ?case by (auto intro: leads_act)
qed

lemma leads_epoll_poll:
  "leads (go (act pf vt rfuel n)) Died (Going (At_impl (Epoll_impl ep) stall since)) (epoll_poll pf vt rfuel ep stall)
     (\<lambda>_. Going (At_notify since))"
proof -
  let ?rest = "\<lambda>v. if \<not> v \<and> ep \<noteq> INVALID then pret ()
    else pbind (epoll_wait pf ep stall) (piter (epoll_event pf vt rfuel))"
  have "leads (go (act pf vt rfuel n)) Died (Going (At_impl (Epoll_impl ep) stall since)) (pbind (obj server_valid) ?rest)
      (\<lambda>_. Going (At_notify since))"
    by (rule leads_act(1)) (auto intro: leads_pret leads_act(1) leads_events)
  moreover have "epoll_poll pf vt rfuel ep stall = pbind (obj server_valid) ?rest"
    by (rule ext) (auto simp: epoll_poll_def epoll_wait_def prog_simps split: prod.split)
  ultimately show ?thesis by simp
qed

lemma leads_select_poll:
  "leads (go (act pf vt rfuel n)) Died (Going (At_impl (Select_impl i t m) stall since)) (select_poll pf vt rfuel n stall)
     (\<lambda>_. Going (At_notify since))"
proof -
  let ?conns = "pbind (obj server_valid) (\<lambda>v. if \<not> v then pret ()
    else pbind (wget (\<lambda>w. case conns w of [] \<Rightarrow> None | x # _ \<Rightarrow> Some x)) (iterate_connections pf (sv_conn vt) rfuel n))"
  let ?new = "pbind (socket_accept pf) (\<lambda>(sock, a). if sock = INVALID then pret () else select_take pf vt sock a)"
  let ?rest = "\<lambda>v. if \<not> v then pret () else pbind (obj raw_sock) (\<lambda>fd. pbind (select_wait pf stall) (\<lambda>ready.
    pthen (guard_fd fd) (pthen (if fd \<in> ready then ?new else pret ()) ?conns)))"
  have c: "leads (go (act pf vt rfuel n)) Died (Going (At_iterate since)) ?conns (\<lambda>_. Going (At_notify since))"
    by (rule leads_act(1)) (auto intro: leads_pret leads_one)
  have a: "leads (go (act pf vt rfuel n)) Died (Going (At_accept since)) ?new (\<lambda>_. Going (At_iterate since))"
    by (rule leads_act(1)) (auto intro!: leads_pret simp: leads_one)
  have r: "leads (go (act pf vt rfuel n)) Died (Going (At_isset fd ready since))
      (pthen (guard_fd fd) (pthen (if fd \<in> ready then ?new else pret ()) ?conns)) (\<lambda>_. Going (At_notify since))" for fd ready
    by (rule leads_act(2)) (auto intro!: leads_then [OF a] leads_then [OF leads_pret [of _ "\<lambda>_. Going (At_iterate since)"]] c)
  have "leads (go (act pf vt rfuel n)) Died (Going (At_impl (Select_impl i t m) stall since)) (pbind (obj server_valid) ?rest)
      (\<lambda>_. Going (At_notify since))"
    by (rule leads_act(1)) (auto intro!: leads_pret leads_act(1) r)
  moreover have "select_poll pf vt rfuel n stall = pbind (obj id) (\<lambda>s. if \<not> server_valid s then pret ()
      else pbind (select_wait pf stall) (\<lambda>ready. pthen (guard_fd (raw_sock s))
        (pthen (if raw_sock s \<in> ready then ?new else pret ()) ?conns)))"
    unfolding select_poll_def select_accept_def select_wait_def select_take_def
    by (simp add: pbind_assoc pbind_pthen pbind_if pbind_case_prod cong: if_cong)
  moreover have "\<dots> = pbind (obj server_valid) ?rest"
    by (rule pbind_obj_id)
  ultimately show ?thesis by simp
qed

lemma leads_poll:
  "leads (go (act pf vt rfuel n)) Died (Going (At_poll since)) (sync_poll pf vt rfuel n since) (\<lambda>x. Going (At_loop x))"
proof -
  let ?body = "\<lambda>impl (stall, since'). pthen (case impl of
        Select_impl _ _ _ \<Rightarrow> select_poll pf vt rfuel n stall
      | Epoll_impl ep \<Rightarrow> epoll_poll pf vt rfuel ep stall) (pthen (sync_notify_poll vt) (pret since'))"
  have b: "leads (go (act pf vt rfuel n)) Died (Going (At_impl impl stall since')) (?body impl (stall, since')) (\<lambda>x. Going (At_loop x))"
    for impl stall since'
    by (cases impl) (auto intro!: leads_then [OF leads_select_poll] leads_then [OF leads_epoll_poll] leads_act(2) leads_pret)
  have w: "leads (go (act pf vt rfuel n)) Died (Going (At_wait impl since)) (pbind (wait_time pf since) (?body impl)) (\<lambda>x. Going (At_loop x))" for impl
    by (rule leads_act(1)) (use b in \<open>auto split: prod.split\<close>)
  show ?thesis
    unfolding sync_poll_def
    by (rule leads_act(1)) (auto intro!: leads_pret w split: option.split)
qed

text \<open>
  A loop with fuel against the thread that is at \<open>test x\<close> when the loop tests its condition: if the
  fuel is not enough for the loop, the thread is at such a test.
\<close>

lemma loop_alone:
  assumes zero: "\<And>x. loop 0 x = praise Out_of_fuel"
    and suc: "\<And>k x. loop (Suc k) x = pbind (once x) (\<lambda>r. case r of None \<Rightarrow> pret () | Some y \<Rightarrow> loop k y)"
    and once: "\<And>x. leads (go body) Died (Going (test x)) (once x) (\<lambda>r. case r of None \<Rightarrow> Left | Some y \<Rightarrow> Going (test y))"
  shows "\<exists>j. case loop k x s of
      (Inr _, s') \<Rightarrow> ((\<lambda>(sp, s). go body sp s) ^^ j) (Going (test x), s) = (Left, s')
    | (Inl e, s') \<Rightarrow> ((\<lambda>(sp, s). go body sp s) ^^ j) (Going (test x), s) = (Died e, s') \<or>
        e = Out_of_fuel \<and> (\<exists>y. ((\<lambda>(sp, s). go body sp s) ^^ j) (Going (test x), s) = (Going (test y), s'))"
  (is "\<exists>j. ?ends j k x s")
proof (induction k arbitrary: x s)
  case 0
  show ?case by (rule exI [of _ 0]) (auto simp: zero praise_apply)
next
  case (Suc k)
  let ?f = "\<lambda>(sp, s). go body sp s"
  let ?at = "\<lambda>r. case r of None \<Rightarrow> Left | Some y \<Rightarrow> Going (test y)"
  obtain i where i: "(?f ^^ i) (Going (test x), s) = does Died (once x) ?at s"
    using once [of x] unfolding leads_def by blast
  obtain r s1 where p: "once x s = (r, s1)" by (rule prod.exhaust)
  show ?case
  proof (cases "\<exists>y. r = Inr (Some y)")
    case True
    then obtain y where r: "r = Inr (Some y)" by blast
    obtain j where j: "?ends j k y s1" by (rule exE [OF Suc.IH])
    have go: "(?f ^^ (j + i)) (Going (test x), s) = (?f ^^ j) (Going (test y), s1)"
      using i p r by (simp add: does_def funpow_add)
    have l: "loop (Suc k) x s = loop k y s1" using p r by (simp add: suc prog_simps)
    show ?thesis
      by (rule exI [of _ "j + i"]) (use j in \<open>simp only: l go\<close>)
  next
    case False
    then have "r = Inr None \<or> (\<exists>e. r = Inl e)" by (cases r) auto
    then show ?thesis
      using i p by (intro exI [of _ i]) (auto simp: does_def suc prog_simps)
  qed
qed

subsection \<open>The threads\<close>

text \<open>
  The polling thread refines the sequential loop: left alone it makes, one action after the
  other, the calls of \<open>run\<close> in its order; where the loop ends it ends in the same state, and an
  exception ends it where it ends the loop. If \<open>k\<close> turns are not enough for the loop, the thread
  is at the test of the loop after them.
\<close>

theorem polling_thread_alone:
  "\<exists>j. case poll_loop pf vt rfuel n k since sw of
      (Inr _, sw') \<Rightarrow> ((\<lambda>(sp, sw). go (act pf vt rfuel n) sp sw) ^^ j) (Going (At_loop since), sw) = (Left, sw')
    | (Inl e, sw') \<Rightarrow> ((\<lambda>(sp, sw). go (act pf vt rfuel n) sp sw) ^^ j) (Going (At_loop since), sw) = (Died e, sw') \<or>
        e = Out_of_fuel \<and> (\<exists>since'. ((\<lambda>(sp, sw). go (act pf vt rfuel n) sp sw) ^^ j) (Going (At_loop since), sw) =
          (Going (At_loop since'), sw'))"
proof -
  let ?once = "\<lambda>since. pbind (obj server_valid) (\<lambda>v. if \<not> v then pret None
    else pbind (sync_poll pf vt rfuel n since) (\<lambda>since'. pret (Some since')))"
  have "poll_loop pf vt rfuel n (Suc k) x = pbind (?once x) (\<lambda>r. case r of None \<Rightarrow> pret () | Some y \<Rightarrow> poll_loop pf vt rfuel n k y)" for k x
    by (simp add: pbind_assoc pbind_if cong: if_cong)
  moreover have "leads (go (act pf vt rfuel n)) Died (Going (At_loop x)) (?once x)
      (\<lambda>r. case r of None \<Rightarrow> Left | Some y \<Rightarrow> Going (At_loop y))" for x
    by (rule leads_act(1)) (auto intro!: leads_pret leads_seq [OF leads_poll])
  ultimately show ?thesis
    by (intro loop_alone [where loop = "poll_loop pf vt rfuel n" and once = ?once and test = At_loop]) simp_all
qed

text \<open>The same for the two accepting loops.\<close>

definition gate_once ::
  "platform \<Rightarrow> (socket_fd \<Rightarrow> sockaddr \<Rightarrow> ('a, 'w, unit) srv_prog) \<Rightarrow> unit \<Rightarrow> ('a, 'w, unit option) srv_prog" where
  "gate_once pf serve _ =
     pbind (obj server_valid) (\<lambda>v. if \<not> v then pret None
     else pbind (socket_accept pf) (\<lambda>(sock, a). if sock = INVALID then pret (Some ())
       else pthen (serve sock a) (pret (Some ()))))"

lemma leads_accept:
  "leads (go (gate_act pf serve)) Died (Going Gate_accept) (socket_accept pf)
     (\<lambda>(sock, a). Going (if sock = INVALID then Gate_loop else Gate_accepted sock a))"
  unfolding socket_accept_def accept_on_def [symmetric]
  by (rule leads_act(1)) (auto intro!: leads_one)

lemma leads_gate:
  "leads (go (gate_act pf serve)) Died (Going Gate_loop) (gate_once pf serve x)
     (\<lambda>r. case r of None \<Rightarrow> Left | Some _ \<Rightarrow> Going Gate_loop)"
  unfolding gate_once_def
  by (rule leads_act(1)) (auto intro!: leads_pret leads_seq [OF leads_accept] leads_then [OF leads_one [where k = "\<lambda>_. Going Gate_loop"]])

lemma gate_alone:
  assumes "\<And>x. loop 0 x = praise Out_of_fuel"
    and "\<And>k x. loop (Suc k) x = pbind (gate_once pf serve x) (\<lambda>r. case r of None \<Rightarrow> pret () | Some y \<Rightarrow> loop k y)"
  shows "\<exists>j. case loop k () sw of
      (Inr _, sw') \<Rightarrow> ((\<lambda>(sp, sw). go (gate_act pf serve) sp sw) ^^ j) (Going Gate_loop, sw) = (Left, sw')
    | (Inl e, sw') \<Rightarrow> ((\<lambda>(sp, sw). go (gate_act pf serve) sp sw) ^^ j) (Going Gate_loop, sw) = (Died e, sw') \<or>
        e = Out_of_fuel \<and> ((\<lambda>(sp, sw). go (gate_act pf serve) sp sw) ^^ j) (Going Gate_loop, sw) = (Going Gate_loop, sw')"
  using loop_alone [where loop = loop and once = "gate_once pf serve" and test = "\<lambda>_. Gate_loop" and body = "gate_act pf serve",
      OF assms leads_gate, where k = k and s = sw] unfolding simp_thms .

lemma accepting_thread_alone:
  "\<exists>j. case accept_loop pf vt k sw of
      (Inr _, sw') \<Rightarrow> ((\<lambda>(sp, sw). go (gate_act pf (drop_served pf vt)) sp sw) ^^ j) (Going Gate_loop, sw) = (Left, sw')
    | (Inl e, sw') \<Rightarrow> ((\<lambda>(sp, sw). go (gate_act pf (drop_served pf vt)) sp sw) ^^ j) (Going Gate_loop, sw) = (Died e, sw') \<or>
        e = Out_of_fuel \<and>
        ((\<lambda>(sp, sw). go (gate_act pf (drop_served pf vt)) sp sw) ^^ j) (Going Gate_loop, sw) = (Going Gate_loop, sw')"
proof (rule gate_alone [where loop = "\<lambda>k _. accept_loop pf vt k"])
  show "accept_loop pf vt (Suc k) = pbind (gate_once pf (drop_served pf vt) x)
      (\<lambda>r. case r of None \<Rightarrow> pret () | Some y \<Rightarrow> accept_loop pf vt k)" for k x
    by (simp add: gate_once_def drop_served_def pthen_def pbind_assoc pbind_if pbind_case_prod cong: if_cong)
qed simp

lemma async_thread_alone:
  "\<exists>j. case async_run pf vt rfuel n k sw of
      (Inr _, sw') \<Rightarrow> ((\<lambda>(sp, sw). go (gate_act pf (serve_client pf vt rfuel n)) sp sw) ^^ j) (Going Gate_loop, sw) = (Left, sw')
    | (Inl e, sw') \<Rightarrow> ((\<lambda>(sp, sw). go (gate_act pf (serve_client pf vt rfuel n)) sp sw) ^^ j) (Going Gate_loop, sw) = (Died e, sw') \<or>
        e = Out_of_fuel \<and>
        ((\<lambda>(sp, sw). go (gate_act pf (serve_client pf vt rfuel n)) sp sw) ^^ j) (Going Gate_loop, sw) = (Going Gate_loop, sw')"
proof (rule gate_alone [where loop = "\<lambda>k _. async_run pf vt rfuel n k"])
  show "async_run pf vt rfuel n (Suc k) = pbind (gate_once pf (serve_client pf vt rfuel n) x)
      (\<lambda>r. case r of None \<Rightarrow> pret () | Some y \<Rightarrow> async_run pf vt rfuel n k)" for k x
    by (simp add: gate_once_def pthen_def pbind_assoc pbind_if pbind_case_prod cong: if_cong)
qed simp

lemma pthen_assoc: "pthen (pthen m n) k = pthen m (pthen n k)"
  by (simp add: pthen_def pbind_assoc)

lemma stop_alone: "leads (stop_act pf vt after) Threw P_test (pthen (server_stop pf vt) after) (\<lambda>_. Returned)"
proof -
  let ?sys = "pbind (obj raw_sock) (\<lambda>fd. if fd \<noteq> INVALID then pthen (call pf (Sys_shutdown fd)) (pret fd) else pret fd)"
  let ?close = "\<lambda>fd. if fd \<noteq> INVALID then pthen (call pf (Sys_close fd)) (upd (\<lambda>s. s\<lparr>raw_sock := INVALID\<rparr>)) else pret ()"
  let ?test = "pbind (obj server_valid) (\<lambda>v. if v then server_notify vt On_stop else pret ())"
  let ?ssl = "pbind (obj ssl) (\<lambda>l. if l = None then pret () else on_ssl (layer_shutdown pf))"
  have t: "leads (stop_act pf vt after) Threw P_test ?test (\<lambda>_. P_ssl)"
    by (rule leads_act(1)) (auto intro!: leads_pret simp: leads_one)
  have c: "leads (stop_act pf vt after) Threw P_shutdown (pbind ?sys ?close) (\<lambda>_. P_flag)"
    by (rule leads_act(1)) (auto intro!: leads_pret simp: leads_one)
  have e: "pbind (obj raw_sock) (\<lambda>fd. if fd \<noteq> INVALID then pthen (call pf (Sys_shutdown fd))
      (pthen (call pf (Sys_close fd)) (upd (\<lambda>s. s\<lparr>raw_sock := INVALID\<rparr>))) else pret ()) = pbind ?sys ?close"
  proof (rule ext, goal_cases)
    case (1 sw)
    show ?case by (cases sw) (simp add: prog_simps)
  qed
  have "leads (stop_act pf vt after) Threw P_test
      (pthen ?test (pthen ?ssl (pthen (pbind ?sys ?close) (pthen (upd (\<lambda>s. s\<lparr>non_blocking := False\<rparr>))
        (pthen (upd (\<lambda>s. s\<lparr>background := False\<rparr>)) after))))) (\<lambda>_. Returned)"
    by (rule leads_then [OF t] leads_then [OF c] leads_act(2) leads_one; simp)+
  then show ?thesis
    unfolding server_stop_def socket_close_def e by (simp only: pthen_assoc)
qed

end
