(* ===== verification/Background_Changes.thy ===== *)
theory Background_Changes
  imports Background_Alone Background_Accept
begin

section \<open>Changing a server that runs in the background\<close>

text \<open>
  \<open>set_frequency\<close> and \<open>set_socket_factory\<close> change members of a server that its thread reads without a
  lock. Here a second thread makes the calls of a list, one after the other, anywhere between the
  actions of the first. The life of a factory is not modelled: one that is replaced while it makes
  a connection may be freed under the call.
\<close>

inductive changing ::
  "('p \<Rightarrow> 's \<Rightarrow> 'p place \<times> 's) \<Rightarrow> ('v \<Rightarrow> ('s, unit) prog) \<Rightarrow> 'p place \<times> 'v list \<times> 's \<Rightarrow> 'p place \<times> 'v list \<times> 's \<Rightarrow> bool"
  for body change where
  acting: "body p s = (sp, s') \<Longrightarrow> changing body change (Going p, vs, s) (sp, vs, s')"
| setting: "\<not> dead sp \<Longrightarrow> change v s = (Inr (), s') \<Longrightarrow> changing body change (sp, v # vs, s) (sp, vs, s')"

inductive_cases changingE: "changing body change (sp, vs, s) st"

text \<open>An invariant of both threads.\<close>

lemma changing_invariant:
  assumes "(changing body change)\<^sup>*\<^sup>* x y" and "I x"
    and "\<And>p vs s sp s'. I (Going p, vs, s) \<Longrightarrow> body p s = (sp, s') \<Longrightarrow> I (sp, vs, s')"
    and "\<And>sp v vs s s'. I (sp, v # vs, s) \<Longrightarrow> change v s = (Inr (), s') \<Longrightarrow> I (sp, vs, s')"
  shows "I y"
  using assms(1,2) by (induction rule: rtranclp_induct) (auto elim!: changing.cases intro: assms(3,4))

text \<open>The second thread alone, as far as a value \<open>v\<close>; a change sets the member to the value.\<close>

lemma changes:
  assumes "\<And>v s. change v s = (Inr (), f v s)" and "\<And>u v s. f v (f u s) = f v s" and "v \<in> set vs"
  shows "\<exists>vs'. (changing body change)\<^sup>*\<^sup>* (Going p, vs, s) (Going p, vs', f v s)"
  using assms(3)
proof (induction vs arbitrary: s)
  case (Cons u us)
  have step: "changing body change (Going p, u # us, s) (Going p, us, f u s)"
    by (rule changing.setting) (simp_all add: dead_def assms(1))
  show ?case
  proof (cases "u = v")
    case True
    with step show ?thesis by blast
  next
    case False
    with Cons obtain vs' where "(changing body change)\<^sup>*\<^sup>* (Going p, us, f u s) (Going p, vs', f v (f u s))" by fastforce
    with step show ?thesis by (metis assms(2) converse_rtranclp_into_rtranclp)
  qed
qed simp

subsection \<open>The frequency of a server that polls\<close>

text \<open>
  \<open>wait_time\<close> reads the frequency twice: it tests it, asks for the time, and divides by it, while
  another thread may call \<open>set_frequency\<close>; the member is a plain \<open>unsigned\<close>. The actions of
  \<open>wait_time\<close> here end at the places where the frequency or the clock is read, and the calls of
  \<open>set_frequency\<close> fall anywhere between them.
\<close>

datatype tick = T_test | T_time | T_divide "int \<times> int" | T_store "int \<times> int" | T_result "clock \<times> clock"

fun tick_act ::
  "platform \<Rightarrow> clock \<Rightarrow> tick \<Rightarrow> 'a sync_server_scheme \<times> 'w net_scheme \<Rightarrow> tick place \<times> ('a sync_server_scheme \<times> 'w net_scheme)" where
  "tick_act pf since T_test =
     does Died (obj frequency) (\<lambda>freq. Going (case since of None \<Rightarrow> T_result (None, None)
       | Some t \<Rightarrow> if freq = 0 then T_result (None, Some t) else T_time))"
| "tick_act pf since T_time =
     does Died (ask pf (os_time pf) (\<lambda>_. Sys_gettimeofday)) (\<lambda>now. Going (T_divide now))"
| "tick_act pf since (T_divide now) =
     does Died (pbind (obj frequency) (\<lambda>freq.
         if freq = 0 then praise Undefined_behaviour else pret (stall_time (the since) now freq))) (\<lambda>stall. Going (T_store stall))"
| "tick_act pf since (T_store stall) =
     does Died (ask pf (os_time pf) (\<lambda>_. Sys_gettimeofday)) (\<lambda>now. Going (T_result (Some stall, Some now)))"
| "tick_act pf since (T_result r) = does Died (pret ()) (\<lambda>_. Going (T_result r))"

abbreviation tuning where
  "tuning pf since \<equiv> changing (tick_act pf since) set_frequency"

text \<open>Left alone the actions compute \<open>wait_time\<close>.\<close>

lemma ticks_alone:
  "\<exists>j r sw'. wait_time pf since sw = (Inr r, sw') \<and>
    ((\<lambda>(sp, sw). go (tick_act pf since) sp sw) ^^ j) (Going T_test, sw) = (Going (T_result r), sw')"
proof -
  obtain s w where sw: "sw = (s, w)" by (cases sw)
  let ?f = "\<lambda>(sp, sw). go (tick_act pf since) sp sw"
  show ?thesis
  proof (cases "since = None \<or> frequency s = 0")
    case True
    then have "\<exists>r sw'. wait_time pf since sw = (Inr r, sw') \<and> (?f ^^ 1) (Going T_test, sw) = (Going (T_result r), sw')"
      by (cases since) (auto simp: sw wait_time_def does_def prog_simps go_def)
    then show ?thesis by blast
  next
    case False
    then have "\<exists>r sw'. wait_time pf since sw = (Inr r, sw') \<and> (?f ^^ 4) (Going T_test, sw) = (Going (T_result r), sw')"
      by (cases since) (auto simp: sw wait_time_def does_def prog_simps go_def eval_nat_numeral)
    then show ?thesis by blast
  qed
qed

definition never_zero :: "tick place \<times> nat list \<times> ('a sync_server_scheme \<times> 'w net_scheme) \<Rightarrow> bool" where
  "never_zero = (\<lambda>(sp, vs, (s, w)). 0 \<notin> set vs \<and> frequency s \<noteq> 0 \<and> \<not> dead sp)"

lemma set_frequency_run: "set_frequency v sw = (Inr (), (case sw of (s, w) \<Rightarrow> (s\<lparr>frequency := v\<rparr>, w)))"
  by (cases sw) (simp add: set_frequency_def prog_simps)

lemma frequency_changes:
  "v \<in> set vs \<Longrightarrow> \<exists>vs'. (changing body set_frequency)\<^sup>*\<^sup>* (Going p, vs, (s, w)) (Going p, vs', (s\<lparr>frequency := v\<rparr>, w))"
  using changes [where change = set_frequency and f = "\<lambda>v (s, w). (s\<lparr>frequency := v\<rparr>, w)" and s = "(s, w)", OF set_frequency_run]
  by auto

text \<open>
  C37: a server that polls with a frequency divides by zero exactly if another thread sets the
  frequency to 0: the test of \<open>wait_time\<close> does not protect its division, since the value can change
  in between; and as long as no value is 0 no order of the actions gets there.
\<close>

theorem frequency_race:
  assumes "frequency s \<noteq> 0"
  shows "(\<exists>vs' sw'. (tuning pf (Some t))\<^sup>*\<^sup>* (Going T_test, vs, (s, w)) (Died Undefined_behaviour, vs', sw')) \<longleftrightarrow> 0 \<in> set vs"
proof
  assume "\<exists>vs' sw'. (tuning pf (Some t))\<^sup>*\<^sup>* (Going T_test, vs, (s, w)) (Died Undefined_behaviour, vs', sw')"
  then obtain vs' sw' where run: "(tuning pf (Some t))\<^sup>*\<^sup>* (Going T_test, vs, (s, w)) (Died Undefined_behaviour, vs', sw')" by blast
  show "0 \<in> set vs"
  proof (rule ccontr)
    assume "0 \<notin> set vs"
    then have start: "never_zero (Going T_test, vs, (s, w))" using assms by (simp add: never_zero_def dead_def)
    have "never_zero (Died Undefined_behaviour, vs', sw')"
    proof (rule changing_invariant [where I = never_zero, OF run start])
      fix p us sp and sw sw' :: "'a sync_server_scheme \<times> 'b net_scheme"
      assume "never_zero (Going p, us, sw)" "tick_act pf (Some t) p sw = (sp, sw')"
      then show "never_zero (sp, us, sw')" by (cases p; cases sw) (auto simp: never_zero_def does_def prog_simps dead_def)
    qed (auto simp: never_zero_def set_frequency_run split: prod.splits)
    then show False by (simp add: never_zero_def dead_def split: prod.splits)
  qed
next
  assume "0 \<in> set vs"
  let ?T = "tuning pf (Some t)" and ?now = "os_time pf (trace w)" and ?w = "record_call pf Sys_gettimeofday w"
  have 1: "?T (Going T_test, vs, (s, w)) (Going T_time, vs, (s, w))"
    by (rule changing.acting) (simp add: does_def prog_simps assms)
  have 2: "?T (Going T_time, vs, (s, w)) (Going (T_divide ?now), vs, (s, ?w))"
    by (rule changing.acting) (simp add: does_def prog_simps)
  obtain vs' where 3: "?T\<^sup>*\<^sup>* (Going (T_divide ?now), vs, (s, ?w)) (Going (T_divide ?now), vs', (s\<lparr>frequency := 0\<rparr>, ?w))"
    using frequency_changes [where p = "T_divide ?now" and s = s and w = ?w, OF \<open>0 \<in> set vs\<close>] by blast
  have 4: "?T (Going (T_divide ?now), vs', (s\<lparr>frequency := 0\<rparr>, ?w)) (Died Undefined_behaviour, vs', (s\<lparr>frequency := 0\<rparr>, ?w))"
    by (rule changing.acting) (simp add: does_def prog_simps)
  from converse_rtranclp_into_rtranclp [OF 1 converse_rtranclp_into_rtranclp [OF 2 rtranclp.rtrancl_into_rtrancl [OF 3 4]]]
  show "\<exists>vs' sw'. ?T\<^sup>*\<^sup>* (Going T_test, vs, (s, w)) (Died Undefined_behaviour, vs', sw')" by blast
qed

lemma frequency_race_witness:
  "(\<exists>vs' sw'. (tuning granting (Some (0, 0)))\<^sup>*\<^sup>* (Going T_test, [2, 0], (listening epoll_new, net0)) (Died Undefined_behaviour, vs', sw')) \<and>
   \<not> (\<exists>vs' sw'. (tuning granting (Some (0, 0)))\<^sup>*\<^sup>* (Going T_test, [2, 1], (listening epoll_new, net0)) (Died Undefined_behaviour, vs', sw'))"
proof -
  have "frequency (listening epoll_new) \<noteq> 0"
    by (simp add: listening_def sync_default_def server_default_def server.defs socket.defs DEFAULT_FREQUENCY_def)
  note race = frequency_race [OF this, of granting "(0, 0)" _ net0]
  show ?thesis unfolding race by simp
qed

subsection \<open>The factory of a server that accepts\<close>

abbreviation refitting where
  "refitting pf \<equiv> changing (gate_act pf (drop_served pf (plain_accept pf))) set_socket_factory"

lemma set_factory_run: "set_socket_factory v sw = (Inr (), (case sw of (s, w) \<Rightarrow> (s\<lparr>factory := v\<rparr>, w)))"
  by (cases sw) (simp add: set_socket_factory_def prog_simps)

lemma factory_changes:
  "v \<in> set vs \<Longrightarrow> \<exists>vs'. (changing body set_socket_factory)\<^sup>*\<^sup>* (Going p, vs, (s, w)) (Going p, vs', (s\<lparr>factory := v\<rparr>, w))"
  using changes [where change = set_socket_factory and f = "\<lambda>v (s, w). (s\<lparr>factory := v\<rparr>, w)" and s = "(s, w)", OF set_factory_run]
  by auto

text \<open>
  C36: an accepting server can be ended by taking its factory away: the loop tests the factory,
  \<open>on_accept\<close> calls it later, and in between another thread may call \<open>set_socket_factory\<close> with a null
  pointer, even if it sets another factory afterwards. If the next \<open>accept\<close> returns a connection,
  there is an order of the actions in which the loop makes the connection through the null pointer.
\<close>

theorem factory_race:
  assumes "server_valid s" and "fst (os_accept pf (trace w) (raw_sock s)) \<noteq> INVALID" and "None \<in> set vs"
  shows "\<exists>vs' sw'. (refitting pf)\<^sup>*\<^sup>* (Going Gate_loop, vs, (s, w)) (Died Undefined_behaviour, vs', sw')"
proof -
  let ?T = "refitting pf" and ?s = "s\<lparr>factory := None\<rparr>"
  obtain fd a where acc: "os_accept pf (trace w) (raw_sock s) = (fd, a)" "fd \<noteq> INVALID"
    using assms(2) by (metis fst_conv surj_pair)
  let ?w = "record_call pf (Sys_accept (raw_sock s) fd) w"
  have 1: "?T (Going Gate_loop, vs, (s, w)) (Going Gate_accept, vs, (s, w))"
    by (rule changing.acting) (simp add: does_def prog_simps assms(1))
  have 2: "?T (Going Gate_accept, vs, (s, w)) (Going (Gate_waiting (raw_sock s)), vs, (s, w))"
    by (rule changing.acting) (simp add: does_def prog_simps)
  have 3: "?T (Going (Gate_waiting (raw_sock s)), vs, (s, w)) (Going (Gate_accepted fd a), vs, (s, ?w))"
    using acc by (intro changing.acting) (simp add: does_def prog_simps accept_on_def)
  obtain vs' where 4: "?T\<^sup>*\<^sup>* (Going (Gate_accepted fd a), vs, (s, ?w)) (Going (Gate_accepted fd a), vs', (?s, ?w))"
    using factory_changes [where p = "Gate_accepted fd a" and s = s and w = ?w, OF assms(3)] by blast
  have 5: "?T (Going (Gate_accepted fd a), vs', (?s, ?w)) (Died Undefined_behaviour, vs', (?s, ?w))"
    by (rule changing.acting) (simp add: does_def prog_simps drop_served_def server_on_accept_def)
  note rtranclp.rtrancl_into_rtrancl [OF 4 5]
  with 1 2 3 show ?thesis by (meson converse_rtranclp_into_rtranclp)
qed

lemma factory_race_witness:
  "\<exists>vs' sw'. (refitting two_peers)\<^sup>*\<^sup>* (Going Gate_loop, [Some 1, None, Some 0], (listening epoll_new, net_listening))
     (Died Undefined_behaviour, vs', sw')"
  by (rule factory_race)
    (simp_all add: two_peers_def net_listening_def net0_def world.defs INVALID_def)

end
