(* ===== verification/Client_Thread.thy ===== *)
theory Client_Thread
  imports Background_Alone Output_Queue
begin

section \<open>The thread of an asynchronous client (\<open>async/client.cpp\<close>) and a thread that writes\<close>

text \<open>
  \<open>default_client\<close> sends and receives in a thread of its own, and the program that holds the client
  writes into its output buffer; nothing guards the buffer. Here the actions of \<open>run\<close> and the
  calls of \<open>write\<close> take turns in any order. An action reads or writes the buffer once, or is a
  stretch of code that does not touch it. Left alone the thread computes \<open>client_run\<close>. What is
  written while the thread is not between sending the buffer and clearing it reaches the peer
  exactly once; what is written in between is lost, or sent twice.
\<close>

text \<open>
  The flag tells the \<open>write_from_buffer\<close> in the flush of \<open>close\<close> from that of the loop. The operands
  of the comparison in \<open>write_from_buffer\<close> are evaluated from left to right.
\<close>

datatype client_spot =
    C_loop
  | C_write bool
  | C_send bool
  | C_compare bool int
  | C_clear bool
  | C_valid
  | C_read
  | C_close
  | C_shut

definition written :: "bool \<Rightarrow> bool \<Rightarrow> client_spot place" where
  "written flushing sent = Going (if flushing then C_shut else if sent then C_valid else C_close)"

definition write_begin :: "('a, 'w) vtable \<Rightarrow> ('a, 'w, bool option) bprog" where
  "write_begin vt =
     pbind (obj id) (\<lambda>s.
     if \<not> is_valid s then pret (Some False)
     else if outBuffer s = [] then pret (Some True)
     else pthen (notify vt Will_write) (pret None))"

fun client_act ::
  "platform \<Rightarrow> ('a, 'w) vtable \<Rightarrow> nat \<Rightarrow> client_spot \<Rightarrow> ('a, 'w) bstate \<Rightarrow> client_spot place \<times> ('a, 'w) bstate" where
  "client_act pf vt rfuel C_loop = does Died (obj is_valid) (\<lambda>v. if v then Going (C_write False) else Left)"
| "client_act pf vt rfuel (C_write b) =
     does Died (write_begin vt) (\<lambda>r. case r of None \<Rightarrow> Going (C_send b) | Some sent \<Rightarrow> written b sent)"
| "client_act pf vt rfuel (C_send b) =
     does Died (pbind (obj outBuffer) (\<lambda>out. send_buffer pf out 0)) (\<lambda>r. Going (C_compare b r))"
| "client_act pf vt rfuel (C_compare b r) =
     does Died (obj (\<lambda>s. cast_int (length (outBuffer s)))) (\<lambda>n. if r \<noteq> n then written b False else Going (C_clear b))"
| "client_act pf vt rfuel (C_clear b) =
     does Died (pthen (upd (\<lambda>s. s\<lparr>outBuffer := []\<rparr>)) (notify vt Did_write)) (\<lambda>_. written b True)"
| "client_act pf vt rfuel C_valid = does Died (obj is_valid) (\<lambda>v. if v then Going C_read else Left)"
| "client_act pf vt rfuel C_read =
     does Died (read_to_buffer pf vt rfuel) (\<lambda>got. Going (if got then C_loop else C_close))"
| "client_act pf vt rfuel C_close =
     does Died (pbind (obj is_valid) (\<lambda>v. if v then pthen (notify vt Closed) (pret True) else pret False))
       (\<lambda>v. if v then Going (C_write True) else Left)"
| "client_act pf vt rfuel C_shut = does Died (socket_close pf) (\<lambda>_. Left)"

text \<open>The two threads; the second component is what is still to be written.\<close>

inductive client_threads ::
  "platform \<Rightarrow> ('a, 'w) vtable \<Rightarrow> nat \<Rightarrow>
     client_spot place \<times> string list \<times> ('a, 'w) bstate \<Rightarrow> client_spot place \<times> string list \<times> ('a, 'w) bstate \<Rightarrow> bool"
  for pf vt rfuel where
  serving: "client_act pf vt rfuel p s = (sp, s') \<Longrightarrow> client_threads pf vt rfuel (Going p, us, s) (sp, us, s')"
| writing: "\<not> dead sp \<Longrightarrow> buf_write u s = (Inr (), s') \<Longrightarrow> client_threads pf vt rfuel (sp, u # us, s) (sp, us, s')"

inductive_cases client_threadsE: "client_threads pf vt rfuel (sp, us, s) st"

subsection \<open>The thread alone\<close>

lemma send_keeps_out: "keeps (\<lambda>(s, w). outBuffer s = out) (send_buffer pf bs 0)"
proof -
  have "keeps (\<lambda>(s, w). outBuffer s = out) (on_ssl m)" for m
    by (rule keeps_pairI) (auto simp: on_ssl_def split: option.splits prod.splits)
  then show ?thesis
    unfolding send_buffer_def socket_send_def Let_def by (auto intro!: hoare_rules keeps_ask)
qed

lemma write_by_actions:
  "write_from_buffer pf vt =
     pbind (write_begin vt) (\<lambda>r. case r of Some sent \<Rightarrow> pret sent | None \<Rightarrow>
       pbind (pbind (obj outBuffer) (\<lambda>out. send_buffer pf out 0)) (\<lambda>r.
       pbind (obj (\<lambda>s. cast_int (length (outBuffer s)))) (\<lambda>n.
       if r \<noteq> n then pret False
       else pthen (pthen (upd (\<lambda>s. s\<lparr>outBuffer := []\<rparr>)) (notify vt Did_write)) (pret True))))"
  (is "?l = ?r")
proof (rule ext)
  fix sw show "?l sw = ?r sw"
  proof (cases sw)
    case (Pair s w)
    show ?thesis
    proof (cases "is_valid s \<and> outBuffer s \<noteq> []")
      case False
      then show ?thesis using Pair by (auto simp: write_from_buffer_def write_begin_def prog_simps)
    next
      case True
      obtain r s1 w1 where n: "notify vt Will_write (s, w) = (r, (s1, w1))" by (metis surj_pair)
      obtain r2 s2 w2 where d: "send_buffer pf (outBuffer s1) 0 (s1, w1) = (r2, (s2, w2))" by (metis surj_pair)
      have "outBuffer s2 = outBuffer s1"
        using keeps_snd [OF send_keeps_out, of "outBuffer s1" "(s1, w1)" pf "outBuffer s1"] d by simp
      then show ?thesis
        using True Pair n d
        by (cases r; cases r2) (simp_all add: write_from_buffer_def write_begin_def prog_simps split: prod.split sum.split)
    qed
  qed
qed

lemma leads_write:
  "leads (go (client_act pf vt rfuel)) Died (Going (C_write b)) (write_from_buffer pf vt) (written b)"
  unfolding write_by_actions
  by (rule leads_act(1))
    (auto intro!: leads_pret leads_act split: option.split)

lemma leads_close: "leads (go (client_act pf vt rfuel)) Died (Going C_close) (buf_close pf vt) (\<lambda>_. Left)"
proof -
  have "buf_close pf vt = pbind (pbind (obj is_valid) (\<lambda>v. if v then pthen (notify vt Closed) (pret True) else pret False))
      (\<lambda>v. if v then pbind (write_from_buffer pf vt) (\<lambda>_. socket_close pf) else pret ())"
    unfolding buf_close_def buf_flush_def by (rule ext) (auto simp: prog_simps split: prod.split sum.split)
  moreover have "leads (go (client_act pf vt rfuel)) Died (Going (C_write True))
      (pbind (write_from_buffer pf vt) (\<lambda>_. socket_close pf)) (\<lambda>_. Left)"
    by (rule leads_seq [OF leads_write]) (simp add: written_def leads_one)
  ultimately show ?thesis
    by (auto intro!: leads_act(1) leads_pret)
qed

lemma pbind_right: "pbind m pret = m"
  by (rule ext) (simp add: pbind_def pret_def split: prod.split sum.split)

text \<open>
  The loop of \<open>run\<close> computed by its thread: where it ends the thread ends in the same state, and
  with too little fuel the thread is at the test of the loop.
\<close>

theorem client_thread_alone:
  "\<exists>j. case client_run pf vt rfuel k sw of
      (Inr _, sw') \<Rightarrow> ((\<lambda>(sp, sw). go (client_act pf vt rfuel) sp sw) ^^ j) (Going C_loop, sw) = (Left, sw')
    | (Inl e, sw') \<Rightarrow> ((\<lambda>(sp, sw). go (client_act pf vt rfuel) sp sw) ^^ j) (Going C_loop, sw) = (Died e, sw') \<or>
        e = Out_of_fuel \<and> ((\<lambda>(sp, sw). go (client_act pf vt rfuel) sp sw) ^^ j) (Going C_loop, sw) = (Going C_loop, sw')"
proof -
  let ?close = "pthen (buf_close pf vt) (pret None)"
  let ?read = "pbind (obj is_valid) (\<lambda>v. if \<not> v then pret None
    else pbind (read_to_buffer pf vt rfuel) (\<lambda>got. if \<not> got then ?close else pret (Some ())))"
  let ?once = "\<lambda>_ :: unit. pbind (obj is_valid) (\<lambda>v. if \<not> v then pret None
    else pbind (write_from_buffer pf vt) (\<lambda>sent. if \<not> sent then ?close else ?read))"
  let ?at = "\<lambda>r :: unit option. case r of None \<Rightarrow> Left | Some _ \<Rightarrow> Going C_loop"
  have close: "leads (go (client_act pf vt rfuel)) Died (Going C_close) ?close ?at"
    by (rule leads_then [OF leads_close]) (simp add: leads_pret)
  have read: "leads (go (client_act pf vt rfuel)) Died (Going C_valid) ?read ?at"
    by (rule leads_act(1)) (auto intro!: leads_pret leads_act(1) close)
  have "leads (go (client_act pf vt rfuel)) Died (Going C_loop) (?once x) ?at" for x
    by (rule leads_act(1)) (auto simp: written_def intro!: leads_pret leads_seq [OF leads_write] close read)
  moreover have "client_run pf vt rfuel (Suc k) = pbind (?once x) (\<lambda>r. case r of None \<Rightarrow> pret () | Some y \<Rightarrow> client_run pf vt rfuel k)"
    for k and x :: unit
    by (simp add: pthen_def pbind_assoc pbind_if pbind_right cong: if_cong)
  ultimately show ?thesis
    using loop_alone [where loop = "\<lambda>k (_ :: unit). client_run pf vt rfuel k" and once = ?once and test = "\<lambda>_. C_loop"
        and body = "client_act pf vt rfuel" and k = k and s = sw]
    unfolding simp_thms by simp
qed

subsection \<open>A write at the wrong moment\<close>

definition plain_client_socket :: "'a buffered_scheme \<Rightarrow> bool" where
  "plain_client_socket c \<longleftrightarrow> is_valid c \<and> ssl c = None \<and> None \<notin> set (listeners c)"

lemma plain_out [simp]: "plain_client_socket (c\<lparr>outBuffer := x\<rparr>) = plain_client_socket c"
  by (simp add: plain_client_socket_def is_valid_def)

lemma send_all:
  assumes "plain_client_socket c" and "takes_all pf (raw_sock c)" and "outBuffer c \<noteq> []" and "length (outBuffer c) < 2 ^ 31"
  shows "client_act pf idle_vtable rfuel (C_send b) (c, w) =
    (Going (C_compare b (int (length (outBuffer c)))),
     (c, record_call pf (Sys_send (raw_sock c) (outBuffer c) 0 (int (length (outBuffer c)))) w))"
proof -
  have "os_send pf (trace w) (raw_sock c) (outBuffer c) 0 = int (length (outBuffer c))"
    using assms(2) by (simp add: takes_all_def)
  from send_plain [of c, OF _ _ _ this] assms show ?thesis
    by (simp add: does_def prog_simps plain_client_socket_def)
qed

lemma write_acts:
  assumes "plain_client_socket c" and "outBuffer c \<noteq> []"
  shows "client_act pf idle_vtable rfuel C_loop (c, w) = (Going (C_write False), (c, w))"
    and "client_act pf idle_vtable rfuel (C_write b) (c, w) = (Going (C_send b), (c, w))"
    and "length (outBuffer c) < 2 ^ 31 \<Longrightarrow> client_act pf idle_vtable rfuel (C_compare b r) (c, w) =
      (if r \<noteq> int (length (outBuffer c)) then written b False else Going (C_clear b), (c, w))"
    and "client_act pf idle_vtable rfuel (C_clear b) (c, w) = (written b True, (c\<lparr>outBuffer := []\<rparr>, w))"
    and "client_act pf idle_vtable rfuel C_close (c, w) = (Going (C_write True), (c, w))"
  using assms by (simp_all add: does_def prog_simps plain_client_socket_def write_begin_def notify_idle cast_int_small)

lemma shut_act:
  assumes "plain_client_socket c"
  obtains c' w' where "client_act pf vt rfuel C_shut (c, w) = (Left, (c', w'))" "\<not> is_valid c'"
    "wire (raw_sock c) (trace w') = wire (raw_sock c) (trace w)" "outBuffer c' = outBuffer c"
    "ssl c' = None" "listeners c' = listeners c"
  using assms by (simp add: does_def socket_close_def prog_simps plain_client_socket_def is_valid_def)

declare client_act.simps [simp del]

lemma user_writes:
  "\<not> dead sp \<Longrightarrow> client_threads pf vt rfuel (sp, u # us, (c, w)) (sp, us, (c\<lparr>outBuffer := outBuffer c @ bytes_of u\<rparr>, w))"
  by (rule client_threads.writing) (simp_all add: buf_write_def prog_simps)

text \<open>
  C39: the output buffer of an asynchronous client is not safe to write to: even over a kernel that
  takes every send whole there is an order of the actions in which what the program writes is
  lost - it is in the buffer when the thread clears it, and nothing of it was sent - and one in
  which everything that was in the buffer is sent twice and the connection is closed.
\<close>

theorem client_write_race:
  assumes "plain_client_socket c" and "takes_all pf (raw_sock c)" and "outBuffer c \<noteq> []" and "u \<noteq> []"
    and "length (outBuffer c) + length u < 2 ^ 31"
  shows "(\<exists>w'. (client_threads pf idle_vtable rfuel)\<^sup>*\<^sup>* (Going C_loop, [u], (c, w)) (Going C_valid, [], (c\<lparr>outBuffer := []\<rparr>, w')) \<and>
      wire (raw_sock c) (trace w') = wire (raw_sock c) (trace w) @ outBuffer c) \<and>
    (\<exists>c' w'. (client_threads pf idle_vtable rfuel)\<^sup>*\<^sup>* (Going C_loop, [u], (c, w)) (Left, [], (c', w')) \<and> \<not> is_valid c' \<and>
      wire (raw_sock c) (trace w') = wire (raw_sock c) (trace w) @ outBuffer c @ outBuffer c @ bytes_of u)"
proof -
  let ?T = "client_threads pf idle_vtable rfuel" and ?out = "outBuffer c"
  let ?w = "record_call pf (Sys_send (raw_sock c) ?out 0 (int (length ?out))) w"
  let ?c = "c\<lparr>outBuffer := ?out @ bytes_of u\<rparr>"
  let ?v = "record_call pf (Sys_send (raw_sock c) (?out @ bytes_of u) 0 (int (length (?out @ bytes_of u)))) ?w"
  note step = rtranclp.rtrancl_into_rtrancl [where r = ?T, OF _ client_threads.serving]
  note acts = write_acts [OF assms(1,3)]
  have len: "length ?out < 2 ^ 31" "length (outBuffer ?c) < 2 ^ 31" "bytes_of u \<noteq> []"
    using assms(4,5) by simp_all
  have "?T\<^sup>*\<^sup>* (Going C_loop, [u], (c, w)) (Going (C_send False), [u], (c, w))"
    by (rule step [OF step [OF rtranclp.rtrancl_refl acts(1)] acts(2)])
  from step [OF this send_all [OF assms(1-3) len(1)]]
  have sent: "?T\<^sup>*\<^sup>* (Going C_loop, [u], (c, w)) (Going (C_compare False (int (length ?out))), [u], (c, ?w))" .
  have "?T\<^sup>*\<^sup>* (Going C_loop, [u], (c, w)) (Going (C_clear False), [u], (c, ?w))"
    by (rule step [OF sent]) (simp only: acts(3) [OF len(1)] simp_thms if_False)
  then have "?T\<^sup>*\<^sup>* (Going C_loop, [u], (c, w)) (Going (C_clear False), [], (?c, ?w))"
    by (rule rtranclp.rtrancl_into_rtrancl) (rule user_writes, simp add: dead_def)
  from step [OF this write_acts(4)] assms(1,3)
  have "?T\<^sup>*\<^sup>* (Going C_loop, [u], (c, w)) (Going C_valid, [], (c\<lparr>outBuffer := []\<rparr>, ?w))"
    by (simp add: written_def)
  then have lost: "\<exists>w'. ?T\<^sup>*\<^sup>* (Going C_loop, [u], (c, w)) (Going C_valid, [], (c\<lparr>outBuffer := []\<rparr>, w')) \<and>
      wire (raw_sock c) (trace w') = wire (raw_sock c) (trace w) @ ?out"
    by (intro exI [of _ ?w]) simp
  from sent have "?T\<^sup>*\<^sup>* (Going C_loop, [u], (c, w)) (Going (C_compare False (int (length ?out))), [], (?c, ?w))"
    by (rule rtranclp.rtrancl_into_rtrancl) (rule user_writes, simp add: dead_def)
  moreover have pc: "plain_client_socket ?c" "outBuffer ?c \<noteq> []" "takes_all pf (raw_sock ?c)" using assms by simp_all
  note acts2 = write_acts [OF pc(1,2)]
  have "client_act pf idle_vtable rfuel (C_compare False (int (length ?out))) (?c, ?w) = (Going C_close, (?c, ?w))"
    unfolding acts2(3) [OF len(2)] using len(3) by (simp add: written_def)
  ultimately have "?T\<^sup>*\<^sup>* (Going C_loop, [u], (c, w)) (Going C_close, [], (?c, ?w))"
    by (rule step)
  from step [OF step [OF step [OF this acts2(5)] acts2(2)] send_all [OF pc(1,3,2) len(2)]]
  have "?T\<^sup>*\<^sup>* (Going C_loop, [u], (c, w)) (Going (C_compare True (int (length (?out @ bytes_of u)))), [], (?c, ?v))" by simp
  then have "?T\<^sup>*\<^sup>* (Going C_loop, [u], (c, w)) (Going (C_clear True), [], (?c, ?v))"
    by (rule step) (simp add: acts2(3) [OF len(2)])
  from step [OF this acts2(4)]
  have shut: "?T\<^sup>*\<^sup>* (Going C_loop, [u], (c, w)) (Going C_shut, [], (c\<lparr>outBuffer := []\<rparr>, ?v))" by (simp add: written_def)
  have "plain_client_socket (c\<lparr>outBuffer := []\<rparr>)" using assms(1) by simp
  then obtain c' w' where sh: "client_act pf idle_vtable rfuel C_shut (c\<lparr>outBuffer := []\<rparr>, ?v) = (Left, (c', w'))" "\<not> is_valid c'"
    "wire (raw_sock (c\<lparr>outBuffer := []\<rparr>)) (trace w') = wire (raw_sock (c\<lparr>outBuffer := []\<rparr>)) (trace ?v)"
    by (rule shut_act)
  from step [OF shut sh(1)] have "?T\<^sup>*\<^sup>* (Going C_loop, [u], (c, w)) (Left, [], (c', w'))" .
  moreover have "wire (raw_sock c) (trace w') = wire (raw_sock c) (trace w) @ ?out @ ?out @ bytes_of u"
    using sh(3) len(3) by simp
  ultimately have "\<exists>c' w'. ?T\<^sup>*\<^sup>* (Going C_loop, [u], (c, w)) (Left, [], (c', w')) \<and> \<not> is_valid c' \<and>
      wire (raw_sock c) (trace w') = wire (raw_sock c) (trace w) @ ?out @ ?out @ bytes_of u"
    using sh(2) by blast
  with lost show ?thesis by (rule conjI)
qed

lemma sock0_plain: "plain_client_socket sock0"
  by (simp add: plain_client_socket_def)

lemma client_write_race_witness:
  "\<exists>w'. (client_threads granting idle_vtable 1)\<^sup>*\<^sup>* (Going C_loop, [''b''], (sock0\<lparr>outBuffer := bytes_of ''a''\<rparr>, world0))
      (Going C_valid, [], (sock0\<lparr>outBuffer := []\<rparr>, w')) \<and> wire (raw_sock sock0) (trace w') = bytes_of ''a''"
proof -
  let ?c = "sock0\<lparr>outBuffer := bytes_of ''a''\<rparr>"
  have h: "plain_client_socket ?c" "outBuffer ?c \<noteq> []" "''b'' \<noteq> []" "length (outBuffer ?c) + length ''b'' < 2 ^ 31"
    by (simp_all add: sock0_plain)
  from conjunct1 [OF client_write_race [OF h(1) granting_takes_all h(2-4), of 1 world0]] show ?thesis
    by (simp add: world0_def)
qed

subsection \<open>Writes at the other moments\<close>

definition exposed :: "client_spot place \<Rightarrow> bool" where
  "exposed sp \<longleftrightarrow> (case sp of Going (C_compare _ _) \<Rightarrow> True | Going (C_clear _) \<Rightarrow> True | _ \<Rightarrow> False)"

text \<open>Steps in which the program does not write while the thread is between sending and clearing.\<close>

definition careful ::
  "platform \<Rightarrow> nat \<Rightarrow> client_spot place \<times> string list \<times> ('a, 'w) bstate \<Rightarrow>
     client_spot place \<times> string list \<times> ('a, 'w) bstate \<Rightarrow> bool" where
  "careful pf rfuel x y \<longleftrightarrow> client_threads pf idle_vtable rfuel x y \<and> (exposed (fst x) \<longrightarrow> fst (snd y) = fst (snd x))"

abbreviation unwritten :: "string list \<Rightarrow> byte list" where
  "unwritten us \<equiv> concat (map bytes_of us)"

definition kept :: "socket_fd \<Rightarrow> byte list \<Rightarrow> nat \<Rightarrow> client_spot place \<times> string list \<times> ('a, 'w) bstate \<Rightarrow> bool" where
  "kept fd whole bound = (\<lambda>(sp, us, (c, w)). dead sp \<or>
     ssl c = None \<and> None \<notin> set (listeners c) \<and> (is_valid c \<longrightarrow> raw_sock c = fd) \<and>
     length (outBuffer c) + length (unwritten us) \<le> bound \<and>
     (let pending = wire fd (trace w) @ outBuffer c @ unwritten us; sent = wire fd (trace w) @ unwritten us in
      case sp of
        Going (C_compare _ r) \<Rightarrow> if r = int (length (outBuffer c)) then sent = whole else pending = whole
      | Going (C_clear _) \<Rightarrow> sent = whole
      | _ \<Rightarrow> pending = whole))"

text \<open>Programs that leave the output side alone.\<close>

definition unsent :: "socket_fd \<Rightarrow> byte list \<times> nat option list \<times> socket_fd \<times> byte list \<Rightarrow> ('a, 'w) bstate \<Rightarrow> bool" where
  "unsent fd x = (\<lambda>(c, w). ssl c = None \<and> (outBuffer c, listeners c, raw_sock c, wire fd (trace w)) = x)"

lemma unsent_calls:
  "(\<And>r. sent_by fd (evr r) = []) \<Longrightarrow> keeps (unsent fd x) (ask pf g evr)"
  "keeps (unsent fd x) (upd (\<lambda>s. s\<lparr>inBuffer := f s\<rparr>))"
  by (rule keeps_ask keeps_upd; simp add: unsent_def record_call_def)+

lemma unsent_on_ssl: "keeps (unsent fd x) (on_ssl m)"
  by (rule keeps_pairI) (simp add: on_ssl_def unsent_def)

lemma unsent_notify: "keeps (unsent fd x) (notify idle_vtable ev)"
  unfolding notify_def call_listener_def by (auto simp: idle_vtable_def split: option.split intro!: hoare_rules)

lemma unsent_read_chunk: "keeps (unsent fd x) (read_chunk pf idle_vtable chunk)"
  unfolding read_chunk_def socket_recv_def Let_def
  by (auto simp: idle_vtable_def socket_on_recv_def intro!: hoare_rules unsent_calls unsent_on_ssl)

lemma unsent_read: "keeps (unsent fd x) (read_to_buffer pf idle_vtable rfuel)"
proof -
  have "keeps (unsent fd x) (read_loop pf idle_vtable fuel chunk)" for fuel chunk
    by (induction fuel arbitrary: chunk) (auto intro!: hoare_rules unsent_calls unsent_read_chunk)
  then show ?thesis unfolding read_to_buffer_def by (auto intro!: hoare_rules unsent_notify unsent_read_chunk)
qed

lemma send_spot:
  assumes "ssl c = None" and "sends_whole pf fd" and "is_valid c \<Longrightarrow> raw_sock c = fd" and "length (outBuffer c) < 2 ^ 31"
  shows "\<exists>r w'. client_act pf idle_vtable rfuel (C_send b) (c, w) = (Going (C_compare b r), (c, w')) \<and>
    wire fd (trace w') = wire fd (trace w) @ (if r = int (length (outBuffer c)) then outBuffer c else [])"
proof (cases "is_valid c \<and> outBuffer c \<noteq> []")
  case True
  let ?r = "os_send pf (trace w) fd (outBuffer c) 0"
  have fd: "raw_sock c = fd" using True assms(3) by blast
  have r: "?r = -1 \<or> ?r = 0 \<or> ?r = int (length (outBuffer c))" using assms(2) by (auto simp: sends_whole_def)
  have lo: "- (2 ^ 31) \<le> ?r" and hi: "?r < 2 ^ 31" using r assms(4) by auto
  have bs: "outBuffer c \<noteq> []" using True by blast
  from send_plain [OF conjunct1 [OF True] assms(1) bs _ lo hi, of pf w 0] fd
  have "send_buffer pf (outBuffer c) 0 (c, w) = (Inr ?r, (c, record_call pf (Sys_send fd (outBuffer c) 0 ?r) w))" by simp
  with r bs show ?thesis
    by (intro exI [of _ ?r]) (auto simp: client_act.simps does_def prog_simps)
next
  case False
  then show ?thesis
    by (auto simp: client_act.simps does_def prog_simps send_buffer_def socket_send_def INVALID_def)
qed

lemma kept_serving:
  assumes "kept fd whole bound (Going p, us, (c, w))" and "sends_whole pf fd" and "bound < 2 ^ 31"
    and "client_act pf idle_vtable rfuel p (c, w) = (sp, (c', w'))"
  shows "kept fd whole bound (sp, us, (c', w'))"
proof (cases p)
  case (C_send b)
  have "ssl c = None" "is_valid c \<Longrightarrow> raw_sock c = fd" "length (outBuffer c) < 2 ^ 31"
    using assms(1,3) by (auto simp: kept_def dead_def)
  from send_spot [OF this(1) assms(2) this(2,3), of rfuel b w] assms(1,4) C_send show ?thesis
    by (auto simp: kept_def dead_def Let_def)
next
  case (C_compare b r)
  have "cast_int (length (outBuffer c)) = int (length (outBuffer c))"
    using assms(1,3) by (intro cast_int_small) (auto simp: kept_def dead_def)
  with assms(1,4) C_compare show ?thesis
    by (auto simp: kept_def dead_def client_act.simps does_def prog_simps written_def Let_def split: if_splits)
next
  case C_read
  let ?x = "(outBuffer c, listeners c, raw_sock c, wire fd (trace w))"
  have "unsent fd ?x (c, w)" using assms(1) by (simp add: kept_def dead_def unsent_def)
  from keeps_snd [OF unsent_read this, of pf rfuel] assms(4) C_read
  have "unsent fd ?x (c', w')" by (auto simp: client_act.simps does_def split: prod.splits sum.splits)
  moreover have "sp = Going C_loop \<or> sp = Going C_close \<or> dead sp"
    using assms(4) C_read by (auto simp: client_act.simps does_def dead_def split: prod.splits sum.splits)
  ultimately show ?thesis
    using assms(1) C_read by (auto simp: kept_def dead_def unsent_def is_valid_def Let_def)
next
  case C_shut
  with assms(1,4) show ?thesis
    by (cases "raw_sock c = INVALID")
      (auto simp: kept_def dead_def client_act.simps does_def socket_close_def prog_simps is_valid_def Let_def)
qed (use assms(1,4) in \<open>auto simp: kept_def dead_def client_act.simps does_def prog_simps write_begin_def notify_idle
    written_def is_valid_def Let_def split: if_splits option.splits\<close>)

lemma kept_step:
  assumes "careful pf rfuel st st'" and "kept fd whole bound st" and "sends_whole pf fd" and "bound < 2 ^ 31"
  shows "kept fd whole bound st'"
proof -
  have step: "client_threads pf idle_vtable rfuel st st'" using assms(1) by (simp add: careful_def)
  then show ?thesis
  proof cases
    case (serving p sw sp sw' us)
    obtain c w c' w' where "sw = (c, w)" "sw' = (c', w')" by (cases sw; cases sw')
    with kept_serving [of fd whole bound p us c w pf rfuel sp c' w'] assms serving show ?thesis by simp
  next
    case (writing sp u sw sw' us)
    then have "\<not> exposed sp" using assms(1) by (simp add: careful_def)
    moreover obtain c w where "sw = (c, w)" by (cases sw)
    ultimately show ?thesis
      using assms(2) writing
      by (auto simp: kept_def exposed_def buf_write_def prog_simps is_valid_def Let_def
          split: place.splits client_spot.splits)
  qed
qed

text \<open>
  What the program writes at any other moment reaches the peer exactly once: over a kernel that
  takes a send whole or refuses it, in every interleaving in which no write falls between sending
  the buffer and clearing it, what the peer has received, what is in the buffer and what is still
  to be written are together, and in this order, what they were in the beginning.
\<close>

theorem careful_writes_kept:
  assumes "plain_client_socket c" and "sends_whole pf (raw_sock c)"
    and "length (outBuffer c) + length (unwritten us) < 2 ^ 31"
    and "(careful pf rfuel)\<^sup>*\<^sup>* (Going C_loop, us, (c, w)) (sp, us', (c', w'))" and "\<not> exposed sp" and "\<not> dead sp"
  shows "wire (raw_sock c) (trace w') @ outBuffer c' @ unwritten us' = wire (raw_sock c) (trace w) @ outBuffer c @ unwritten us"
proof -
  let ?whole = "wire (raw_sock c) (trace w) @ outBuffer c @ unwritten us"
  let ?bound = "length (outBuffer c) + length (unwritten us)"
  have "kept (raw_sock c) ?whole ?bound (Going C_loop, us, (c, w))"
    using assms(1) by (simp add: kept_def plain_client_socket_def)
  with assms(4) have "kept (raw_sock c) ?whole ?bound (sp, us', (c', w'))"
    by (induction rule: rtranclp_induct) (auto intro: kept_step [OF _ _ assms(2,3)])
  with assms(5,6) show ?thesis
    by (auto simp: kept_def exposed_def Let_def split: place.splits client_spot.splits)
qed

text \<open>A run of this kind: the program writes, then the thread sends everything.\<close>

lemma careful_run:
  fixes w :: "'w world_scheme"
  assumes "plain_client_socket c" and "takes_all pf (raw_sock c)" and "outBuffer c @ bytes_of u \<noteq> []"
    and "length (outBuffer c @ bytes_of u) < 2 ^ 31"
  shows "(careful pf rfuel)\<^sup>*\<^sup>* (Going C_loop, u # us, (c, w)) (Going C_valid, us, (c\<lparr>outBuffer := []\<rparr>,
    record_call pf (Sys_send (raw_sock c) (outBuffer c @ bytes_of u) 0 (int (length (outBuffer c @ bytes_of u)))) w))"
proof -
  let ?T = "careful pf rfuel" and ?c = "c\<lparr>outBuffer := outBuffer c @ bytes_of u\<rparr>"
  let ?w = "record_call pf (Sys_send (raw_sock ?c) (outBuffer ?c) 0 (int (length (outBuffer ?c)))) w"
  have step: "?T\<^sup>*\<^sup>* x (sp, us, s') " if "?T\<^sup>*\<^sup>* x (Going p, us, s)" "client_act pf idle_vtable rfuel p s = (sp, s')" for x p us s sp s'
    by (rule rtranclp.rtrancl_into_rtrancl [OF that(1)])
      (unfold careful_def, intro conjI client_threads.serving [OF that(2)], simp)
  have h: "plain_client_socket ?c" "outBuffer ?c \<noteq> []" "length (outBuffer ?c) < 2 ^ 31" "takes_all pf (raw_sock ?c)"
    using assms by simp_all
  note acts = write_acts [OF h(1,2)]
  have "client_threads pf idle_vtable rfuel (Going C_loop, u # us, (c, w)) (Going C_loop, us, (?c, w))"
    by (rule user_writes) (simp add: dead_def)
  then have "?T\<^sup>*\<^sup>* (Going C_loop, u # us, (c, w)) (Going C_loop, us, (?c, w))"
    by (intro r_into_rtranclp) (simp add: careful_def exposed_def)
  from step [OF step [OF step [OF this acts(1)] acts(2)] send_all [OF h(1,4,2,3)]]
  have "?T\<^sup>*\<^sup>* (Going C_loop, u # us, (c, w)) (Going (C_compare False (int (length (outBuffer ?c)))), us, (?c, ?w))" .
  then have "?T\<^sup>*\<^sup>* (Going C_loop, u # us, (c, w)) (Going (C_clear False), us, (?c, ?w))"
    by (rule step) (simp only: acts(3) [OF h(3)] simp_thms if_False)
  from step [OF this acts(4)] show ?thesis by (simp add: written_def)
qed

lemma careful_writes_kept_witness:
  "\<exists>w'. (careful granting 1)\<^sup>*\<^sup>* (Going C_loop, [''b''], (sock0, world0)) (Going C_valid, [], (sock0\<lparr>outBuffer := []\<rparr>, w')) \<and>
    wire (raw_sock sock0) (trace w') = bytes_of ''b''"
proof -
  have e: "outBuffer sock0 @ bytes_of ''b'' \<noteq> []" "length (outBuffer sock0 @ bytes_of ''b'') < 2 ^ 31" by simp_all
  note run = careful_run [OF sock0_plain granting_takes_all e, of 1 "[]" world0]
  have k: "sends_whole granting (raw_sock sock0)" by (simp add: sends_whole_def granting_def)
  have l: "length (outBuffer sock0) + length (unwritten [''b'']) < 2 ^ 31" by simp
  have "\<not> exposed (Going C_valid)" "\<not> dead (Going C_valid)" by (simp_all add: exposed_def dead_def)
  from careful_writes_kept [OF sock0_plain k l run this]
  have "wire (raw_sock sock0) (trace (record_call granting (Sys_send (raw_sock sock0) (outBuffer sock0 @ bytes_of ''b'') 0
      (int (length (outBuffer sock0 @ bytes_of ''b'')))) world0)) = bytes_of ''b''"
    by (simp add: world0_def)
  with run show ?thesis by blast
qed

end
