(* ===== verification/Async_Crowd.thy ===== *)
theory Async_Crowd
  imports Background_Accept Client_Thread
begin

section \<open>An asynchronous server with several clients at once\<close>

text \<open>
  With a factory that keeps the clients it makes, the accepting loop of \<open>async::server\<close> does not
  wait for a client: each has a thread of its own, and they run side by side, with the accepting
  thread, the thread that calls \<open>stop\<close>, and the program that writes to the clients and at last
  drops its pointers. The parties take turns in any order: \<open>door\<close> are the actions of the accepting
  thread and of \<open>stop\<close>, \<open>guests\<close> those of the clients and of what is written to them, \<open>leaving\<close> is
  the destructor of a client, which waits for its thread. An exception that leaves any thread
  ends the process: then nothing moves any more.
\<close>

text \<open>A client: where its thread is, what the program is still to write to it, and the object.\<close>

type_synonym guest = "client_spot place \<times> string list \<times> default_client"

type_synonym ('a, 'w) crowd_state = "gate place \<times> phase \<times> guest list \<times> ('a server_scheme \<times> 'w net_scheme)"

text \<open>
  A client whose thread has used up its fuel is one that reads for ever: it is stuck, and the
  process goes on.
\<close>

definition fatal :: "client_spot place \<Rightarrow> bool" where
  "fatal p \<longleftrightarrow> (case p of Died e \<Rightarrow> e \<noteq> Out_of_fuel | _ \<Rightarrow> False)"

definition alive :: "gate place \<Rightarrow> guest list \<Rightarrow> bool" where
  "alive sp gs \<longleftrightarrow> \<not> dead sp \<and> (\<forall>g\<in>set gs. \<not> fatal (fst g))"


inductive door :: "platform \<Rightarrow> ('a, 'w) server_vtable \<Rightarrow> ('a, 'w) crowd_state \<Rightarrow> ('a, 'w) crowd_state \<Rightarrow> bool"
  for pf vt where
  turning: "alive (Going p) gs \<Longrightarrow> (\<forall>sock a. p \<noteq> Gate_accepted sock a) \<Longrightarrow> gate_act pf (\<lambda>_ _. pret ()) p sw = (sp, sw') \<Longrightarrow>
    door pf vt (Going p, ph, gs, sw) (sp, ph, gs, sw')"
| seating: "alive (Going (Gate_accepted sock a)) gs \<Longrightarrow>
    client_on_connect (client_of_raw sock a, w) = (Inr (), (c, w')) \<Longrightarrow>
    door pf vt (Going (Gate_accepted sock a), ph, gs, (s, w)) (Going Gate_loop, ph, gs @ [(Going C_loop, us, c)], (s, w'))"
| stopping: "alive sp gs \<Longrightarrow> \<not> over ph \<Longrightarrow> (ph = P_join \<longrightarrow> sp = Left) \<Longrightarrow> stop_act pf vt (pret ()) ph sw = (ph', sw') \<Longrightarrow>
    door pf vt (sp, ph, gs, sw) (sp, ph', gs, sw')"

inductive_cases doorE: "door pf vt (sp, ph, gs, sw) st"

text \<open>The clients act by a relation on one of them, \<open>client_threads\<close> or a part of it.\<close>

inductive guests ::
  "(client_spot place \<times> string list \<times> (default_client \<times> 'w net_scheme) \<Rightarrow>
      client_spot place \<times> string list \<times> (default_client \<times> 'w net_scheme) \<Rightarrow> bool) \<Rightarrow>
     ('a, 'w) crowd_state \<Rightarrow> ('a, 'w) crowd_state \<Rightarrow> bool"
  for R where
  attending: "alive sp gs \<Longrightarrow> i < length gs \<Longrightarrow> gs ! i = (p, us, c) \<Longrightarrow> R (p, us, (c, w)) (p', us', (c', w')) \<Longrightarrow>
    guests R (sp, ph, gs, (s, w)) (sp, ph, gs[i := (p', us', c')], (s, w'))"

inductive_cases guestsE: "guests R (sp, ph, gs, sw) st"

inductive leaving :: "platform \<Rightarrow> ('a, 'w) crowd_state \<Rightarrow> ('a, 'w) crowd_state \<Rightarrow> bool" for pf where
  dropped: "alive sp (xs @ (Left, us, c) # ys) \<Longrightarrow> socket_destroy pf (c, w) = (r, (c', w')) \<Longrightarrow>
    leaving pf (sp, ph, xs @ (Left, us, c) # ys, (s, w)) (sp, ph, xs @ ys, (s, w'))"

inductive_cases leavingE: "leaving pf (sp, ph, gs, sw) st"

text \<open>What the clients and the program do between two actions at the door.\<close>

definition company :: "platform \<Rightarrow> nat \<Rightarrow> ('a, 'w) crowd_state \<Rightarrow> ('a, 'w) crowd_state \<Rightarrow> bool" where
  "company pf rfuel x y \<longleftrightarrow> guests (client_threads pf idle_vtable rfuel) x y \<or> leaving pf x y"

definition crowd :: "platform \<Rightarrow> ('a, 'w) server_vtable \<Rightarrow> nat \<Rightarrow> ('a, 'w) crowd_state \<Rightarrow> ('a, 'w) crowd_state \<Rightarrow> bool" where
  "crowd pf vt rfuel x y \<longleftrightarrow> door pf vt x y \<or> company pf rfuel x y"

subsection \<open>What an action of a client keeps\<close>

lemma client_act_keeps:
  fixes pf :: platform
  assumes "\<And>bs. keeps P (send_buffer pf bs 0)" "\<And>out. keeps P (upd (\<lambda>s. s\<lparr>outBuffer := out\<rparr>))"
    "\<And>ev. keeps P (notify vt ev)" "keeps P (read_to_buffer pf vt rfuel)" "keeps P (socket_close pf)"
    and "P sw"
  shows "P (snd (client_act pf vt rfuel p sw))"
proof -
  have d: "P (snd (does Died m k sw))" if "keeps P m" for m :: "(('a, 'b) bstate, 'x) prog" and k :: "'x \<Rightarrow> client_spot place"
    using keeps_snd [OF that assms(6)] by (auto simp: does_def split: prod.split sum.split)
  show ?thesis
    by (cases p) (auto simp: client_act.simps write_begin_def intro!: d hoare_rules assms(1-5))
qed

lemma client_act_owns: "owns B sw \<Longrightarrow> owns B (snd (client_act pf idle_vtable rfuel p sw))"
  by (rule client_act_keeps)
    (auto simp: send_buffer_def intro!: hoare_rules idle.notify_keeps idle.read_to_buffer_keeps)

lemma client_act_apart: "apart x sw \<Longrightarrow> apart x (snd (client_act pf idle_vtable rfuel p sw))"
  by (rule client_act_keeps)
    (auto simp: send_buffer_def socket_send_def Let_def
      intro!: apart_rules apart_fields apart_notify apart_read apart_close)











subsection \<open>The account of descriptors\<close>

abbreviation object :: "guest \<Rightarrow> default_client" where
  "object g \<equiv> snd (snd g)"

definition held_all :: "guest list \<Rightarrow> socket_fd multiset" where
  "held_all gs = (\<Sum>g\<leftarrow>gs. held (object g))"

lemma held_all_simps [simp]:
  "held_all [] = {#}" "held_all (g # gs) = held (object g) + held_all gs" "held_all (gs @ hs) = held_all gs + held_all hs"
  by (simp_all add: held_all_def)

lemma held_all_at:
  assumes "i < length gs"
  shows "\<exists>M. \<forall>g. held_all (gs[i := g]) = M + held (object g)"
proof -
  have "held_all (gs[i := g]) = (held_all (take i gs) + held_all (drop (Suc i) gs)) + held (object g)" for g
    using assms by (simp add: upd_conv_take_nth_drop ac_simps)
  then show ?thesis by blast
qed

lemma aside:
  assumes "net_inv (M + held c) {} (s, w)"
    and "owns (M + held s + held_by (heap w)) (c, w) \<Longrightarrow> owns (M + held s + held_by (heap w)) (c', w')"
    and "apart (conns w, heap w, next_id w) (c, w) \<Longrightarrow> apart (conns w, heap w, next_id w) (c', w')" and "ssl c = None"
  shows "net_inv (M + held c') {} (s, w') \<and> conns w' = conns w \<and> ssl c' = None"
proof -
  have "owns (M + held s + held_by (heap w)) (c, w)"
    using assms(1) by (simp add: owns_held net_inv_def ac_simps)
  with assms(2) have o: "open_fds (trace w') = M + held s + held_by (heap w) + held c'" by (simp add: owns_held)
  have "apart (conns w, heap w, next_id w) (c, w)" using assms(4) by (simp add: apart_def)
  with assms(3) have a: "conns w' = conns w" "heap w' = heap w" "next_id w' = next_id w" "ssl c' = None"
    by (simp_all add: apart_def)
  with assms(1) o table_ok_world [OF a(1-3)] show ?thesis by (simp add: net_inv_def ac_simps)
qed

lemma guest_account:
  assumes "client_threads pf idle_vtable rfuel (p, us, (c, w)) (p', us', (c', w'))"
    and "net_inv (M + held c) {} (s, w)" and "ssl c = None"
  shows "net_inv (M + held c') {} (s, w') \<and> conns w' = conns w \<and> ssl c' = None"
  using assms(1)
proof cases
  case (serving q)
  with client_act_owns [of _ "(c, w)" pf rfuel q] client_act_apart [of _ "(c, w)" pf rfuel q] show ?thesis
    by (intro aside [OF assms(2) _ _ assms(3)]) (metis snd_conv)+
next
  case (writing u)
  then have "c' = c\<lparr>outBuffer := outBuffer c @ bytes_of u\<rparr>" "w' = w" by (simp_all add: buf_write_def prog_simps)
  moreover have "held (c\<lparr>outBuffer := x\<rparr>) = held c" for x by (simp add: held_def is_valid_def)
  ultimately show ?thesis using assms(2,3) by simp
qed

lemma leave_account:
  assumes "socket_destroy pf (c, w) = (r, (c', w'))" and "net_inv (M + held c) {} (s, w)" and "ssl c = None"
  shows "net_inv M {} (s, w') \<and> conns w' = conns w"
proof -
  let ?B = "M + held s + held_by (heap w)" and ?x = "(conns w, heap w, next_id w)"
  have "owns ?B (c, w)" using assms(2) by (simp add: owns_held net_inv_def ac_simps)
  from destroy_releases [OF this, of pf] assms(1) have o: "open_fds (trace w') = ?B" by simp
  have "apart ?x (c, w)" using assms(3) by (simp add: apart_def)
  from keeps_snd [OF apart_destroy this, of pf] assms(1)
  have a: "conns w' = conns w" "heap w' = heap w" "next_id w' = next_id w" by (simp_all add: apart_def)
  with assms(2) o table_ok_world [OF a] show ?thesis by (simp add: net_inv_def)
qed

subsection \<open>The invariant\<close>

definition crowd_ok :: "socket_fd multiset \<Rightarrow> ('a, 'w) crowd_state \<Rightarrow> bool" where
  "crowd_ok B = (\<lambda>(sp, ph, gs, (s, w)). \<not> alive sp gs \<or>
     net_inv (B + at_place {#} gate_hand sp + held_all gs) {} (s, w) \<and> at_place True gate_fit sp \<and> conns w = [] \<and>
     progress ph (s, w) \<and> (joined ph \<longrightarrow> sp = Left) \<and> (\<forall>g\<in>set gs. ssl (object g) = None))"

lemma alive_simps [simp]:
  "alive (Died e) gs \<longleftrightarrow> False" "alive (Going p) gs \<longleftrightarrow> alive Left gs"
  "alive sp (gs @ hs) \<longleftrightarrow> alive sp gs \<and> alive sp hs"
  "alive sp (g # gs) \<longleftrightarrow> \<not> fatal (fst g) \<and> alive sp gs"
  by (auto simp: alive_def dead_def)

lemma aliveD: "alive sp gs \<Longrightarrow> \<not> dead sp"
  by (simp add: alive_def)

lemma door_ok:
  assumes "door pf (plain_accept pf) st st'" and "crowd_ok B st"
  shows "crowd_ok B st'"
  using assms(1)
proof cases
  case (turning p gs sw sp sw' ph)
  obtain s w s' w' where sw: "sw = (s, w)" "sw' = (s', w')" by (cases sw; cases sw')
  have act: "gate_act pf (drop_served pf (plain_accept pf)) p (s, w) = (sp, (s', w'))"
    using turning sw by (cases p) auto
  have ok: "net_inv ((B + held_all gs) + gate_hand p) {} (s, w)" "gate_fit p" "conns w = []" "progress ph (s, w)"
    "\<not> joined ph" "\<forall>g\<in>set gs. ssl (object g) = None"
    using assms(2) turning sw by (auto simp: crowd_ok_def ac_simps)
  have "progress ph (s', w')"
    using dropping.gate_socket [OF act] ok(3-5) turning(4) by (auto simp: progress_defs is_valid_def split: phase.splits)
  moreover have "\<not> dead sp \<Longrightarrow> net_inv (B + held_all gs + at_place {#} gate_hand sp) {} (s', w') \<and> at_place True gate_fit sp \<and> conns w' = []"
    using dropping.gate_keeps [OF ok(1-3) act] by simp
  ultimately show ?thesis
    using ok turning(2) sw by (auto simp: crowd_ok_def ac_simps dest: aliveD)
next
  case (seating sock a gs w c w' ph s us)
  have c: "c = (client_of_raw sock a)\<lparr>thread := Own_thread\<rparr>" "w' = w"
    using seating by (simp_all add: client_on_connect_def prog_simps)
  have "held c = {#sock#}" if "sock \<noteq> INVALID" using that c by (simp add: held_def is_valid_def)
  with assms(2) seating c show ?thesis
    by (auto simp: crowd_ok_def gate_defs ac_simps fatal_def)
next
  case (stopping sp gs ph sw ph' sw')
  obtain s w s' w' where sw: "sw = (s, w)" "sw' = (s', w')" by (cases sw; cases sw')
  let ?B = "B + at_place {#} gate_hand sp + held_all gs"
  have ok: "net_inv ?B {} (s, w)" "progress ph (s, w)" "conns w = []" "at_place True gate_fit sp" "joined ph \<longrightarrow> sp = Left"
    "\<forall>g\<in>set gs. ssl (object g) = None"
    using assms(2) stopping sw by (auto simp: crowd_ok_def)
  note act = stopping(6) [unfolded sw]
  have "net_inv ?B {} (s', w') \<and> progress ph' (s', w') \<and> conns w' = []"
    by (rule dropping.gate.stop_act_inv [OF ok(1,2) stopping(4) ok(3) act])
  moreover have "joined ph' \<Longrightarrow> sp = Left"
    using stopping(4,5) ok(5) act by (cases ph) (auto simp: joined_def over_def does_def split: prod.splits sum.splits if_splits)
  ultimately show ?thesis using ok stopping sw by (simp add: crowd_ok_def)
qed

lemma company_ok:
  assumes "company pf rfuel st st'" and "crowd_ok B st"
  shows "crowd_ok B st'"
  using assms(1) unfolding company_def
proof
  assume "guests (client_threads pf idle_vtable rfuel) st st'"
  then show ?thesis
  proof cases
    case (attending sp gs i p us c w p' us' c' w' ph s)
    let ?H = "B + at_place {#} gate_hand sp"
    obtain M where M: "held_all (gs[i := g]) = M + held (object g)" for g using held_all_at attending by blast
    have "gs[i := (p, us, c)] = gs" using attending by (metis list_update_id)
    with M [of "(p, us, c)"] have "held_all gs = M + held c" by simp
    moreover have "(p, us, c) \<in> set gs" using attending by (metis nth_mem)
    ultimately have ok: "net_inv ((?H + M) + held c) {} (s, w)" "ssl c = None"
      using assms(2) attending by (auto simp: crowd_ok_def ac_simps)
    from guest_account [OF attending(6) ok] have k: "net_inv (?H + held_all (gs[i := (p', us', c')])) {} (s, w')"
      "conns w' = conns w" "ssl c' = None" using M by (auto simp: ac_simps)
    have "\<forall>g\<in>set (gs[i := (p', us', c')]). ssl (object g) = None" if "\<forall>g\<in>set gs. ssl (object g) = None"
      using that k(3) set_update_subset_insert [of gs i "(p', us', c')"] by auto
    with k assms(2) attending(1-3) show ?thesis
      by (auto simp: crowd_ok_def progress_def split: phase.splits)
  qed
next
  assume "leaving pf st st'"
  then show ?thesis
  proof cases
    case (dropped sp xs us c ys w r c' w' ph s)
    let ?M = "B + at_place {#} gate_hand sp + held_all (xs @ ys)"
    have ok: "net_inv (?M + held c) {} (s, w)" "ssl c = None"
      using assms(2) dropped by (auto simp: crowd_ok_def ac_simps)
    from leave_account [OF dropped(4) ok] assms(2) dropped show ?thesis
      by (auto simp: crowd_ok_def progress_def split: phase.splits)
  qed
qed

lemma crowd_ok_reach: "(crowd pf (plain_accept pf) rfuel)\<^sup>*\<^sup>* st st' \<Longrightarrow> crowd_ok B st \<Longrightarrow> crowd_ok B st'"
  by (induction rule: rtranclp_induct) (auto simp: crowd_def intro: door_ok company_ok)

lemma crowd_start: "net_inv B {} (s, w) \<Longrightarrow> conns w = [] \<Longrightarrow> crowd_ok B (Going Gate_loop, P_test, [], (s, w))"
  by (simp add: crowd_ok_def gate_defs progress_defs)

text \<open>
  C10: an asynchronous server with a factory that keeps the clients it makes: in every interleaving of any number of client
  threads, the accepting thread, a call of \<open>stop\<close>, what the program writes to the clients, and its
  dropping them, the process holds exactly the descriptor of the server while it is open, the one
  that is just being accepted, and one for each client that is connected; once \<open>stop\<close> has returned
  the server is closed, its thread has ended, and just the descriptors of the clients are left.
\<close>

theorem crowd_account:
  assumes "net_inv B {} (s, w)" and "conns w = []"
    and "(crowd pf (plain_accept pf) rfuel)\<^sup>*\<^sup>* (Going Gate_loop, P_test, [], (s, w)) (sp, ph, gs, (s', w'))" and "alive sp gs"
  shows "open_fds (trace w') = B + at_place {#} gate_hand sp + held s' + held_all gs \<and>
    (ph = Returned \<longrightarrow> sp = Left \<and> \<not> server_valid s' \<and> open_fds (trace w') = B + held_all gs)"
proof -
  have ok: "crowd_ok B (sp, ph, gs, (s', w'))" by (rule crowd_ok_reach [OF assms(3) crowd_start [OF assms(1,2)]])
  then have "heap w' = []" using assms(4) by (auto simp: crowd_ok_def net_inv_def intro: table_heap_empty)
  with ok assms(4) show ?thesis
    by (auto simp: crowd_ok_def net_inv_def progress_defs held_by_def server_valid_def ac_simps)
qed

subsection \<open>\<open>stop\<close> does not wait for the clients\<close>

lemma company_door: "company pf rfuel st st' \<Longrightarrow> fst st' = fst st \<and> fst (snd st') = fst (snd st)"
  by (auto simp: company_def elim: guests.cases leaving.cases)

lemma company_reach:
  assumes "(company pf rfuel)\<^sup>*\<^sup>* st st'" and "crowd_ok B st"
  shows "crowd_ok B st' \<and> fst st' = fst st \<and> fst (snd st') = fst (snd st)"
  using assms by (induction rule: rtranclp_induct) (use company_ok company_door in \<open>metis (no_types)\<close>)+

definition rank :: "gate place \<Rightarrow> phase \<Rightarrow> nat" where
  "rank sp ph = at_place 0 gate_weight sp + remaining ph"

lemma rank_bound: "rank sp ph \<le> 7"
proof -
  have "at_place 0 gate_weight sp \<le> 4" by (cases sp; simp) (rename_tac p; case_tac p; simp)
  moreover have "remaining ph \<le> 3" by (cases ph) simp_all
  ultimately show ?thesis by (simp add: rank_def)
qed

lemma door_closing:
  assumes "door pf (plain_accept pf) (sp, ph, gs, sw) (sp', ph', gs', sw')" and "crowd_ok B (sp, ph, gs, sw)" and "closed ph"
  shows "closed ph' \<and> rank sp' ph' < rank sp ph"
  using assms(1)
proof cases
  case (turning p)
  obtain s w where sw: "sw = (s, w)" by (cases sw)
  have "\<not> server_valid s" using assms(2,3) turning sw by (auto simp: crowd_ok_def progress_defs server_valid_def)
  moreover have "gate_act pf (drop_served pf (plain_accept pf)) p (s, w) = (sp', sw')"
    using turning sw by (cases p) auto
  ultimately show ?thesis using dropping.gate_nearer [of pf p s w sp' sw'] turning(1,2) assms(3) by (simp add: rank_def)
next
  case stopping
  obtain s w s' w' where sw: "sw = (s, w)" "sw' = (s', w')" by (cases sw; cases sw')
  let ?B = "B + at_place {#} gate_hand sp + held_all gs"
  have ok: "net_inv ?B {} (s, w)" "progress ph (s, w)" "conns w = []"
    using assms(2) stopping sw by (auto simp: crowd_ok_def)
  have "progress ph' (s', w')"
    using dropping.gate.stop_act_inv [OF ok(1,2) _ ok(3)] stopping sw by blast
  with stopping assms(3) sw show ?thesis
    by (cases ph) (auto simp: does_def progress_defs over_def rank_def split: prod.splits sum.splits)
qed (use assms(3) in \<open>auto simp: rank_def\<close>)

lemma door_works:
  assumes "alive (Going p) gs"
  shows "\<exists>z. door pf vt (Going p, ph, gs, sw) z"
proof -
  obtain s w where sw: "sw = (s, w)" by (cases sw)
  show ?thesis
  proof (cases p)
    case (Gate_accepted sock a)
    have "client_on_connect (client_of_raw sock a, w) = (Inr (), ((client_of_raw sock a)\<lparr>thread := Own_thread\<rparr>, w))"
      by (simp add: client_on_connect_def prog_simps)
    from door.seating [OF _ this] Gate_accepted assms sw show ?thesis by blast
  qed (use assms door.turning [of _ gs pf sw] in \<open>metis gate.distinct surj_pair\<close>)+
qed

text \<open>Where nothing happens at the door, \<open>stop\<close> has returned or waits for a thread that is blocked.\<close>

lemma door_open:
  assumes "alive sp gs" and "closed ph" and "\<nexists>z. unblocked blk (door pf vt) (sp, ph, gs, sw) z"
  shows "ph = Returned \<or> ph = P_join \<and> at_place False (\<lambda>p. blk p (gs, sw)) sp"
proof -
  obtain ph2 sw2 where ph2: "stop_act pf vt (pret ()) ph sw = (ph2, sw2)" by (cases "stop_act pf vt (pret ()) ph sw")
  have can_stop: "over ph \<or> ph = P_join \<and> sp \<noteq> Left"
  proof (rule ccontr)
    assume "\<not> ?thesis"
    with ph2 assms(1) have "door pf vt (sp, ph, gs, sw) (sp, ph2, gs, sw2)" by (intro door.stopping) auto
    then have "unblocked blk (door pf vt) (sp, ph, gs, sw) (sp, ph2, gs, sw2)" by (simp add: unblocked_def)
    with assms(3) show False by blast
  qed
  have can_work: "at_place False (\<lambda>p. blk p (gs, sw)) sp" if p: "sp = Going p" for p
  proof (rule ccontr)
    assume "\<not> ?thesis"
    moreover obtain z where "door pf vt (sp, ph, gs, sw) z" using door_works assms(1) p by blast
    ultimately have "unblocked blk (door pf vt) (sp, ph, gs, sw) z" by (simp add: unblocked_def)
    with assms(3) show False by blast
  qed
  have "over ph \<Longrightarrow> ph = Returned" using assms(2) by (cases ph) (auto simp: over_def closed_def)
  with can_stop can_work assms(1) show ?thesis by (cases sp) auto
qed

text \<open>A round: the clients and the program do what they like, then one action at the door.\<close>

definition door_round :: "platform \<Rightarrow> nat \<Rightarrow> ('a, 'w) crowd_state \<Rightarrow> ('a, 'w) crowd_state \<Rightarrow> bool" where
  "door_round pf rfuel x y \<longleftrightarrow> (\<exists>z. (company pf rfuel)\<^sup>*\<^sup>* x z \<and> door pf (plain_accept pf) z y)"

lemma rounds_closing:
  assumes "(door_round pf rfuel ^^ m) (sp, ph, gs, sw) (sp', ph', gs', sw')" and "crowd_ok B (sp, ph, gs, sw)" and "closed ph"
  shows "closed ph' \<and> crowd_ok B (sp', ph', gs', sw') \<and> m + rank sp' ph' \<le> rank sp ph"
  using assms
proof (induction m arbitrary: sp' ph' gs' sw')
  case (Suc m)
  obtain sp1 ph1 gs1 sw1 where s: "(door_round pf rfuel ^^ m) (sp, ph, gs, sw) (sp1, ph1, gs1, sw1)"
    "door_round pf rfuel (sp1, ph1, gs1, sw1) (sp', ph', gs', sw')"
    using Suc.prems(1) by (metis (no_types) relpowp_Suc_E surj_pair)
  note ih = Suc.IH [OF s(1) Suc.prems(2,3)]
  obtain sp2 ph2 gs2 sw2 where z: "(company pf rfuel)\<^sup>*\<^sup>* (sp1, ph1, gs1, sw1) (sp2, ph2, gs2, sw2)"
    "door pf (plain_accept pf) (sp2, ph2, gs2, sw2) (sp', ph', gs', sw')"
    using s(2) unfolding door_round_def by (metis (no_types) surj_pair)
  have c: "crowd_ok B (sp2, ph2, gs2, sw2)" "sp2 = sp1" "ph2 = ph1" using company_reach [OF z(1)] ih by auto
  with door_closing [OF z(2) c(1)] door_ok [OF z(2) c(1)] ih show ?case by simp
qed auto

text \<open>
  C12: \<open>stop\<close> of an asynchronous server with a factory that keeps the clients it makes: from the
  moment it has closed the socket, the accepting thread and \<open>stop\<close> make at most seven more
  actions, whatever the clients do before, between and after them - they may read for ever - and
  whichever calls do not return (\<open>blk\<close>), where neither of the two can act any more \<open>stop\<close> has
  returned, or an exception has ended the process, or \<open>stop\<close> waits in \<open>join\<close> for an accepting thread
  that is blocked, as in \<open>accept\<close> on the descriptor that was closed under it.
\<close>

theorem crowd_stop_returns:
  assumes "net_inv B {} (s, w)" and "conns w = []"
    and "(crowd pf (plain_accept pf) rfuel)\<^sup>*\<^sup>* (Going Gate_loop, P_test, [], (s, w)) st" and "closed (fst (snd st))"
    and "(door_round pf rfuel ^^ m) st y" and "(company pf rfuel)\<^sup>*\<^sup>* y (sp, ph, gs, sw)"
  shows "m \<le> 7 \<and> ((\<nexists>z. unblocked blk (door pf (plain_accept pf)) (sp, ph, gs, sw) z) \<longrightarrow>
    \<not> alive sp gs \<or> ph = Returned \<or> ph = P_join \<and> (\<exists>p. sp = Going p \<and> blk p (gs, sw)))"
proof -
  obtain sp0 ph0 gs0 sw0 where st: "st = (sp0, ph0, gs0, sw0)" by (metis surj_pair)
  obtain sp1 ph1 gs1 sw1 where y: "y = (sp1, ph1, gs1, sw1)" by (metis surj_pair)
  have "crowd_ok B st" by (rule crowd_ok_reach [OF assms(3) crowd_start [OF assms(1,2)]])
  then have c: "closed ph1 \<and> crowd_ok B y \<and> m + rank sp1 ph1 \<le> rank sp0 ph0"
    using rounds_closing [OF assms(5) [unfolded st y]] assms(4) st y by simp
  then have "closed ph" using company_reach [OF assms(6), of B] y by auto
  from door_open [OF _ this, of sp gs blk pf "plain_accept pf" sw]
  have "(\<nexists>z. unblocked blk (door pf (plain_accept pf)) (sp, ph, gs, sw) z) \<longrightarrow>
      \<not> alive sp gs \<or> ph = Returned \<or> ph = P_join \<and> (\<exists>p. sp = Going p \<and> blk p (gs, sw))"
    by (auto simp: at_place_def split: place.splits)
  with c rank_bound [of sp0 ph0] show ?thesis by simp
qed

subsection \<open>A run with a client that outlives the server\<close>

text \<open>The server accepts a client, \<open>stop\<close> closes the server and returns; the client is still connected.\<close>

definition still_there :: "guest list" where
  "still_there = [(Going C_loop, [], (client_of_raw 9 local_addr)\<lparr>thread := Own_thread\<rparr>)]"

lemma still_there_simps [simp]:
  "alive sp still_there \<longleftrightarrow> \<not> dead sp" "held_all still_there = {#9#}"
  by (simp_all add: still_there_def alive_def fatal_def held_def is_valid_def INVALID_def)

lemma stop_steps:
  assumes "alive sp gs"
  shows "server_valid s \<Longrightarrow> door pf (plain_accept pf) (sp, P_test, gs, (s, w)) (sp, P_notify, gs, (s, w))"
    and "s_listeners s = [] \<Longrightarrow> door pf (plain_accept pf) (sp, P_notify, gs, (s, w)) (sp, P_ssl, gs, (s, w))"
    and "ssl s = None \<Longrightarrow> door pf (plain_accept pf) (sp, P_ssl, gs, (s, w)) (sp, P_shutdown, gs, (s, w))"
    and "raw_sock s = fd \<Longrightarrow> fd \<noteq> INVALID \<Longrightarrow> door pf (plain_accept pf) (sp, P_shutdown, gs, (s, w))
      (sp, P_close fd, gs, (s, record_call pf (Sys_shutdown fd) w))"
    and "door pf (plain_accept pf) (sp, P_close fd, gs, (s, w)) (sp, P_flag, gs, (s\<lparr>raw_sock := INVALID\<rparr>, record_call pf (Sys_close fd) w))"
    and "door pf (plain_accept pf) (sp, P_flag, gs, (s, w)) (sp, P_join, gs, (s\<lparr>non_blocking := False\<rparr>, w))"
    and "sp = Left \<Longrightarrow> door pf (plain_accept pf) (sp, P_join, gs, (s, w)) (sp, P_clear, gs, (s\<lparr>background := False\<rparr>, w))"
    and "door pf (plain_accept pf) (sp, P_clear, gs, (s, w)) (sp, Returned, gs, (s, w))"
  by (rule door.stopping [OF assms]; simp add: over_def does_def prog_simps server_notify_def)+

lemma crowd_with_client:
  "\<exists>sw s w. (crowd two_peers (plain_accept two_peers) 2)\<^sup>*\<^sup>* (Going Gate_loop, P_test, [], (listening epoll_new, net_listening))
      (Going Gate_loop, P_flag, still_there, sw) \<and>
    (door_round two_peers 2 ^^ 4) (Going Gate_loop, P_flag, still_there, sw) (Left, Returned, still_there, (s, w))"
proof -
  let ?D = "door two_peers (plain_accept two_peers)" and ?s = "listening epoll_new"
  let ?w1 = "record_call two_peers (Sys_accept 4 9) net_listening"
  let ?w2 = "record_call two_peers (Sys_close 4) (record_call two_peers (Sys_shutdown 4) ?w1)"
  let ?s2 = "?s\<lparr>raw_sock := INVALID\<rparr>" let ?s3 = "?s2\<lparr>non_blocking := False\<rparr>" let ?s4 = "?s3\<lparr>background := False\<rparr>"
  have a: "os_accept two_peers (trace net_listening) 4 = (9, local_addr)"
    by (simp add: two_peers_def net_listening_def net0_def world.defs)
  have b: "alive Left []" "alive (Going Gate_loop) still_there" "alive Left still_there"
    by (simp add: alive_def dead_def) (simp_all add: dead_def)
  have "?D (Going Gate_loop, P_test, [], (?s, net_listening)) (Going Gate_accept, P_test, [], (?s, net_listening))"
    using b(1) by (intro door.turning) (simp_all add: does_def prog_simps)
  moreover have "?D (Going Gate_accept, P_test, [], (?s, net_listening)) (Going (Gate_waiting 4), P_test, [], (?s, net_listening))"
    using b(1) by (intro door.turning) (simp_all add: does_def prog_simps)
  moreover have "?D (Going (Gate_waiting 4), P_test, [], (?s, net_listening)) (Going (Gate_accepted 9 local_addr), P_test, [], (?s, ?w1))"
    using b(1) a by (intro door.turning) (simp_all add: does_def prog_simps accept_on_def is_valid_def INVALID_def)
  moreover have "?D (Going (Gate_accepted 9 local_addr), P_test, [], (?s, ?w1)) (Going Gate_loop, P_test, still_there, (?s, ?w1))"
    using door.seating [of 9 local_addr "[]" ?w1 "(client_of_raw 9 local_addr)\<lparr>thread := Own_thread\<rparr>" ?w1 two_peers _ P_test ?s "[]"] b(1)
    by (simp add: client_on_connect_def prog_simps still_there_def)
  ultimately have seat: "?D\<^sup>*\<^sup>* (Going Gate_loop, P_test, [], (?s, net_listening)) (Going Gate_loop, P_test, still_there, (?s, ?w1))"
    by (meson converse_rtranclp_into_rtranclp rtranclp.rtrancl_refl)
  note st = stop_steps [OF b(2), where pf = two_peers]
  have "raw_sock ?s = 4" "(4 :: int) \<noteq> INVALID" by (simp_all add: INVALID_def)
  from st(1) [of ?s ?w1] st(2) [of ?s ?w1] st(3) [of ?s ?w1] st(4) [OF this, of ?w1] st(5) [of 4 ?s "record_call two_peers (Sys_shutdown 4) ?w1"]
  have "?D\<^sup>*\<^sup>* (Going Gate_loop, P_test, still_there, (?s, ?w1)) (Going Gate_loop, P_flag, still_there, (?s2, ?w2))"
    by simp
  with seat have "?D\<^sup>*\<^sup>* (Going Gate_loop, P_test, [], (?s, net_listening)) (Going Gate_loop, P_flag, still_there, (?s2, ?w2))" by simp
  then have run: "(crowd two_peers (plain_accept two_peers) 2)\<^sup>*\<^sup>* (Going Gate_loop, P_test, [], (?s, net_listening))
      (Going Gate_loop, P_flag, still_there, (?s2, ?w2))"
    by (rule rtranclp_mono [THEN predicate2D, rotated]) (auto simp: crowd_def)
  have "?D (Going Gate_loop, P_join, still_there, (?s3, ?w2)) (Left, P_join, still_there, (?s3, ?w2))"
    using b(2) by (intro door.turning) (simp_all add: does_def prog_simps server_valid_def is_valid_def)
  then have "(?D OO ?D OO ?D OO ?D) (Going Gate_loop, P_flag, still_there, (?s2, ?w2)) (Left, Returned, still_there, (?s4, ?w2))"
    using st(6) [of ?s2 ?w2] stop_steps(7,8) [OF b(3), where pf = two_peers] by blast
  moreover have "?D x y \<Longrightarrow> door_round two_peers 2 x y" for x y
    unfolding door_round_def by (intro exI [of _ x] conjI rtranclp.rtrancl_refl)
  ultimately have "(door_round two_peers 2 ^^ 4) (Going Gate_loop, P_flag, still_there, (?s2, ?w2)) (Left, Returned, still_there, (?s4, ?w2))"
    by (simp add: eval_nat_numeral relcompp_assoc) blast
  with run show ?thesis by blast
qed

lemma rounds_crowd: "(door_round pf rfuel ^^ m) x y \<Longrightarrow> (crowd pf (plain_accept pf) rfuel)\<^sup>*\<^sup>* x y"
proof (induction m arbitrary: y)
  case (Suc m)
  from Suc.prems obtain u z where u: "(door_round pf rfuel ^^ m) x u" "(company pf rfuel)\<^sup>*\<^sup>* u z" "door pf (plain_accept pf) z y"
    by (metis (no_types) door_round_def relpowp_Suc_E)
  from u(2) have "(crowd pf (plain_accept pf) rfuel)\<^sup>*\<^sup>* u z"
    by (rule rtranclp_mono [THEN predicate2D, rotated]) (auto simp: crowd_def)
  with Suc.IH [OF u(1)] u(3) show ?case
    by (meson crowd_def rtranclp.rtrancl_into_rtrancl rtranclp_trans)
qed simp

lemma crowd_account_witness:
  "\<exists>s w. (crowd two_peers (plain_accept two_peers) 2)\<^sup>*\<^sup>* (Going Gate_loop, P_test, [], (listening epoll_new, net_listening))
      (Left, Returned, still_there, (s, w)) \<and> \<not> server_valid s \<and> open_fds (trace w) = {#9#}"
proof -
  have empty: "conns net_listening = []" by (simp add: net_listening_def net0_def world.defs)
  obtain sw s w where "(crowd two_peers (plain_accept two_peers) 2)\<^sup>*\<^sup>* (Going Gate_loop, P_test, [], (listening epoll_new, net_listening))
      (Going Gate_loop, P_flag, still_there, sw)"
    "(door_round two_peers 2 ^^ 4) (Going Gate_loop, P_flag, still_there, sw) (Left, Returned, still_there, (s, w))"
    using crowd_with_client by blast
  with rounds_crowd have r: "(crowd two_peers (plain_accept two_peers) 2)\<^sup>*\<^sup>* (Going Gate_loop, P_test, [], (listening epoll_new, net_listening))
      (Left, Returned, still_there, (s, w))" by (meson rtranclp_trans)
  from crowd_account [OF net_listening_inv empty r] r show ?thesis by (auto simp: dead_def)
qed

lemma crowd_stop_returns_witness:
  "\<exists>sw s w. (crowd two_peers (plain_accept two_peers) 2)\<^sup>*\<^sup>* (Going Gate_loop, P_test, [], (listening epoll_new, net_listening))
      (Going Gate_loop, P_flag, still_there, sw) \<and> closed P_flag \<and>
    (door_round two_peers 2 ^^ 4) (Going Gate_loop, P_flag, still_there, sw) (Left, Returned, still_there, (s, w)) \<and> (4 :: nat) \<le> 7"
proof -
  have empty: "conns net_listening = []" by (simp add: net_listening_def net0_def world.defs)
  have closed: "closed (fst (snd (Going Gate_loop, P_flag, still_there, sw)))" for sw :: "sync_server \<times> net"
    by (simp add: closed_def)
  from crowd_with_client obtain sw s w where "(crowd two_peers (plain_accept two_peers) 2)\<^sup>*\<^sup>*
      (Going Gate_loop, P_test, [], (listening epoll_new, net_listening)) (Going Gate_loop, P_flag, still_there, sw)"
    "(door_round two_peers 2 ^^ 4) (Going Gate_loop, P_flag, still_there, sw) (Left, Returned, still_there, (s, w))" by blast
  with crowd_stop_returns [OF net_listening_inv empty this(1) closed this(2) rtranclp.rtrancl_refl]
  show ?thesis by (intro exI [of _ sw] exI [of _ s] exI [of _ w] conjI) (simp_all add: closed_def)
qed

subsection \<open>What the peers receive\<close>









end
