(* ===== verification/Socket_Pool.thy ===== *)
theory Socket_Pool
  imports Socket_Facts
begin

section \<open>Programs with many sockets\<close>

text \<open>
  A program with any number of socket objects: it constructs them, moves them into new ones and
  over old ones, accepts new ones from a listening one, uses them, and lets them go out of scope.
  A descriptor belongs to exactly one object, and none is left behind, unless the program makes
  one of the two calls that lose one: \<open>listen\<close> on a socket that is open, and a constructor whose
  TLS handshake throws.
\<close>

datatype pool_op =
    P_new
  | P_open string int bool
  | P_use nat sock_op
  | P_listen nat int int
  | P_accept nat
  | P_move nat
  | P_assign nat nat
  | P_destroy nat

fun names :: "pool_op \<Rightarrow> nat list" where
  "names P_new = []"
| "names (P_open _ _ _) = []"
| "names (P_use i _) = [i]"
| "names (P_listen i _ _) = [i]"
| "names (P_accept i) = [i]"
| "names (P_move i) = [i]"
| "names (P_assign i j) = [i, j]"
| "names (P_destroy i) = [i]"

type_synonym 'w pool = "socket list \<times> 'w world_scheme"

text \<open>Operations of one object.\<close>

definition on_sock :: "nat \<Rightarrow> (socket \<times> 'w world_scheme, unit) prog \<Rightarrow> ('w pool, unit) prog" where
  "on_sock i m = (\<lambda>(ss, w). case m (ss ! i, w) of (r, (s, w')) \<Rightarrow> (r, (ss[i := s], w')))"

fun exec_pool :: "platform \<Rightarrow> pool_op \<Rightarrow> ('w pool, unit) prog" where
  "exec_pool pf P_new = upd (\<lambda>ss. ss @ [socket_default])"
| "exec_pool pf (P_open host port secure) = (\<lambda>(ss, w).
     case socket_open pf host port secure w of
       (Inl e, w') \<Rightarrow> (Inl e, (ss, w'))
     | (Inr s, w') \<Rightarrow> (Inr (), (ss @ [s], w')))"
| "exec_pool pf (P_use i x) = on_sock i (exec_op pf x)"
| "exec_pool pf (P_listen i port backlog) =
     on_sock i (pthen (socket_listen pf port backlog) (pret ()))"
| "exec_pool pf (P_accept i) = (\<lambda>(ss, w).
     case socket_accept pf (ss ! i, w) of
       (Inl e, (_, w')) \<Rightarrow> (Inl e, (ss, w'))
     | (Inr (fd, a), (_, w')) \<Rightarrow> (Inr (), (if fd = INVALID then ss else ss @ [socket_of_raw fd a], w')))"
| "exec_pool pf (P_move i) = upd (\<lambda>ss. case socket_move (ss ! i) of (s, other) \<Rightarrow> ss[i := other] @ [s])"
| "exec_pool pf (P_assign i j) =
     (if i = j then pret ()
      else (\<lambda>(ss, w). case socket_move_assign pf (socket_close pf) (ss ! j) (ss ! i, w) of
         (Inl e, (s, w')) \<Rightarrow> (Inl e, (ss[i := s], w'))
       | (Inr other, (s, w')) \<Rightarrow> (Inr (), (ss[i := s, j := other], w'))))"
| "exec_pool pf (P_destroy i) = (\<lambda>(ss, w).
     case socket_destroy pf (ss ! i, w) of (r, (_, w')) \<Rightarrow> (r, (take i ss @ drop (Suc i) ss, w')))"

text \<open>
  The two calls that lose a descriptor (\<open>listen_leaks_open_socket\<close>, \<open>failed_handshake_leaks\<close>):
  a tidy program makes neither. A constructor that throws because the layer cannot be made has
  not opened anything yet.
\<close>

fun tidy_op :: "platform \<Rightarrow> pool_op \<Rightarrow> 'w pool \<Rightarrow> bool" where
  "tidy_op pf (P_open host port secure) (ss, w) =
     (isl (fst (set_secure pf secure (socket_default, w))) \<or> \<not> isl (fst (socket_open pf host port secure w)))"
| "tidy_op pf (P_listen i port backlog) (ss, w) = (\<not> is_valid (ss ! i))"
| "tidy_op pf _ p = True"

text \<open>The program may handle an exception and go on. A name that is out of scope names nothing.\<close>

definition in_scope :: "pool_op \<Rightarrow> 'w pool \<Rightarrow> bool" where
  "in_scope x p = (\<forall>i\<in>set (names x). i < length (fst p))"

fun run_pool :: "platform \<Rightarrow> pool_op list \<Rightarrow> 'w pool \<Rightarrow> 'w pool" where
  "run_pool pf [] p = p"
| "run_pool pf (x # xs) p =
     run_pool pf xs (if in_scope x p then snd (exec_pool pf x p) else p)"

fun tidy :: "platform \<Rightarrow> pool_op list \<Rightarrow> 'w pool \<Rightarrow> bool" where
  "tidy pf [] p = True"
| "tidy pf (x # xs) p =
     (if in_scope x p then tidy_op pf x p \<and> tidy pf xs (snd (exec_pool pf x p)) else tidy pf xs p)"

subsection \<open>The account\<close>

definition held_in :: "'a socket_scheme list \<Rightarrow> socket_fd multiset" where
  "held_in ss = (\<Sum>s\<leftarrow>ss. held s)"

lemma held_in_simps [simp]:
  "held_in [] = {#}" "held_in (s # ss) = held s + held_in ss" "held_in (ss @ ts) = held_in ss + held_in ts"
  by (simp_all add: held_in_def)

lemma held_in_update: "i < length ss \<Longrightarrow> held_in (ss[i := s]) + held (ss ! i) = held_in ss + held s"
  by (induction ss arbitrary: i) (auto simp: nth_Cons ac_simps split: nat.split)

lemma held_in_remove: "i < length ss \<Longrightarrow> held_in (take i ss @ drop (Suc i) ss) + held (ss ! i) = held_in ss"
  by (induction ss arbitrary: i) (auto simp: nth_Cons ac_simps split: nat.split)

definition pool_ok :: "socket_fd multiset \<Rightarrow> 'w pool \<Rightarrow> bool" where
  "pool_ok B = (\<lambda>(ss, w). open_fds (trace w) = B + held_in ss)"

text \<open>One object against the rest of them.\<close>

lemma pool_ok_owns:
  fixes w :: "'w world_scheme"
  assumes "pool_ok B (ss, w)" and "i < length ss"
  shows "\<exists>M. owns M (ss ! i, w) \<and> (\<forall>s. \<forall>w' :: 'w world_scheme. owns M (s, w') \<longrightarrow> pool_ok B (ss[i := s], w'))"
proof (intro exI conjI allI impI)
  let ?rest = "B + held_in (take i ss @ drop (Suc i) ss)"
  show "owns ?rest (ss ! i, w)"
    using assms held_in_remove [OF assms(2)] by (simp add: pool_ok_def owns_held ac_simps)
  show "pool_ok B (ss[i := s], w')" if "owns ?rest (s, w')" for s and w' :: "'w world_scheme"
  proof -
    have "held_in (ss[i := s]) + held (ss ! i) = held_in (take i ss @ drop (Suc i) ss) + held s + held (ss ! i)"
      unfolding held_in_update [OF assms(2)] held_in_remove [OF assms(2), symmetric] by (simp add: ac_simps)
    then have "held_in (ss[i := s]) = held_in (take i ss @ drop (Suc i) ss) + held s" by simp
    with that show ?thesis by (simp add: pool_ok_def owns_held ac_simps)
  qed
qed

lemma on_sock_ok:
  fixes w :: "'w world_scheme"
  assumes "\<And>M. keeps (owns M) m" and "pool_ok B (ss, w)" and "i < length ss"
  shows "pool_ok B (snd (on_sock i m (ss, w)))"
proof -
  obtain M where M: "owns M (ss ! i, w)" "\<And>s. \<And>w' :: 'w world_scheme. owns M (s, w') \<Longrightarrow> pool_ok B (ss[i := s], w')"
    using pool_ok_owns [OF assms(2,3)] by blast
  obtain r s w' where m: "m (ss ! i, w) = (r, (s, w'))" by (metis surj_pair)
  with keeps_snd [OF assms(1) M(1)] M(2) show ?thesis by (simp add: on_sock_def)
qed

lemma relisten_ok:
  fixes w :: "'w world_scheme"
  assumes "pool_ok B (ss, w)" and "i < length ss" and "\<not> is_valid (ss ! i)"
  shows "pool_ok B (snd (on_sock i (pthen (socket_listen pf port backlog) (pret ())) (ss, w)))"
proof -
  obtain M where M: "owns M (ss ! i, w)" "\<And>s. \<And>w' :: 'w world_scheme. owns M (s, w') \<Longrightarrow> pool_ok B (ss[i := s], w')"
    using pool_ok_owns [OF assms(1,2)] by blast
  have listen: "hoare (\<lambda>sw :: socket \<times> 'w world_scheme. owns M sw \<and> \<not> is_valid (fst sw))
      (pthen (socket_listen pf port backlog) (pret ())) (\<lambda>_. owns M) (\<lambda>_. owns M)"
    unfolding pthen_def by (rule hoare_pbind [OF listen_owns]) (rule keeps_pret)
  obtain r s w' where m: "pthen (socket_listen pf port backlog) (pret ()) (ss ! i, w) = (r, (s, w'))"
    by (metis surj_pair)
  have "owns M (s, w')"
    using listen M(1) assms(3) m unfolding hoare_def by (cases r) fastforce+
  with m M(2) show ?thesis by (simp add: on_sock_def)
qed

subsection \<open>Constructing, accepting, moving\<close>

lemma plain_connect_returns:
  assumes "ssl s = None" and "\<not> is_valid s"
  shows "\<exists>b s' w'. socket_connect pf vclose host port (s, w) = (Inr b, (s', w'))"
proof -
  have keep: "keeps (\<lambda>(s, w). ssl s = None) (connect_loop pf ps)" for ps
    by (induction ps) (auto intro!: hoare_rules keeps_ask keeps_call keeps_upd)
  have loop: "\<exists>found s' w'. connect_loop pf ps (s, v) = (Inr found, (s', w')) \<and> ssl s' = None" for ps v
  proof -
    obtain r s' w' where l: "connect_loop pf ps (s, v) = (r, (s', w'))" by (metis surj_pair)
    have "owns (open_fds (trace v)) (s, v)" using assms(2) by (simp add: owns_held)
    from connect_loop_owns [OF this assms(2) l] keeps_snd [OF keep, of "(s, v)" ps] l assms(1) show ?thesis by auto
  qed
  obtain r ps where gai: "os_getaddrinfo pf (trace w) (Some (c_str host)) (servnam port) = (r, ps)"
    by (cases "os_getaddrinfo pf (trace w) (Some (c_str host)) (servnam port)")
  let ?w = "record_call pf (Sys_getaddrinfo (Some (c_str host)) (servnam port) r) w"
  obtain found s1 w1 where l: "connect_loop pf ps (s, ?w) = (Inr found, (s1, w1))" "ssl s1 = None"
    using loop by metis
  then have "\<exists>b s' w'. finish_connect pf found (s1, w1) = (Inr b, (s', w'))"
    by (cases found) (auto simp: finish_connect_def attach_ssl_def prog_simps)
  with gai l assms(2) show ?thesis
    by (auto simp: socket_connect_def prog_simps)
qed

text \<open>A constructor without TLS does not throw.\<close>

lemma open_plain: "\<not> isl (fst (socket_open pf host port False w))"
proof -
  have s0: "set_secure pf False (socket_default, w) = (Inr (), (socket_default, w))"
    by (simp add: set_secure_def set_ssl_def prog_simps socket_default_def)
  obtain b s w' where c: "socket_connect pf (socket_close pf) host port (socket_default, w) = (Inr b, (s, w'))"
    using plain_connect_returns [of socket_default] by (fastforce simp: socket_default_def is_valid_def)
  with s0 show ?thesis by (simp add: socket_open_def prog_simps)
qed

lemma open_tidy:
  assumes "socket_open pf host port secure w = (r, w')" and "tidy_op pf (P_open host port secure) (ss, w)"
  shows "open_fds (trace w') = open_fds (trace w) + (case r of Inl e \<Rightarrow> {#} | Inr s \<Rightarrow> held s)"
proof -
  let ?B = "open_fds (trace w)"
  obtain r0 s0 w0 where set: "set_secure pf secure (socket_default, w) = (r0, (s0, w0))" by (metis surj_pair)
  have o0: "owns ?B (s0, w0)"
    using keeps_snd [OF keeps_owns_set_secure socket_default_owns [of w], of pf secure] set by simp
  have raw: "\<not> is_valid s0" using set_secure_raw [OF set] by (simp add: is_valid_def socket_default_def)
  show ?thesis
  proof (cases r0)
    case (Inl e)
    obtain r1 s1 w1 where f: "set_ssl pf None (s0, w0) = (r1, (s1, w1))" by (metis surj_pair)
    have "owns ?B (s1, w1)" using keeps_snd [OF keeps_owns_set_ssl o0, of pf None] f by simp
    moreover have "\<not> is_valid s1" using set_ssl_raw [OF f] raw by (simp add: is_valid_def)
    ultimately show ?thesis
      using assms(1) set f Inl by (auto simp: socket_open_def prog_simps owns_held)
  next
    case (Inr u)
    obtain r1 s1 w1 where c: "socket_connect pf (socket_close pf) host port (s0, w0) = (r1, (s1, w1))"
      by (metis surj_pair)
    have "owns ?B (s1, w1)" using keeps_snd [OF plain.keeps_connect o0] c by (metis snd_conv)
    with assms set c Inr show ?thesis
      by (cases r1) (auto simp: socket_open_def prog_simps owns_held)
  qed
qed

lemma accept_fds:
  obtains fd a w' where "socket_accept pf (s, w) = (Inr (fd, a), (s, w'))"
    "open_fds (trace w') = open_fds (trace w) + held (socket_of_raw fd a)"
  by (cases "os_accept pf (trace w) (raw_sock s)")
    (auto simp: socket_accept_def prog_simps held_def is_valid_def socket_of_raw_def)

lemma move_held: "socket_move s = (t, s') \<Longrightarrow> held t = held s \<and> held s' = {#}"
  by (auto simp: socket_move_def held_def is_valid_def)

lemma set_ssl_returns: "\<exists>s' w'. set_ssl pf l (s, w) = (Inr (), (s', w'))"
proof (cases "ssl s")
  case (Some k)
  from layer_shutdown_result [of pf k w 0] Some show ?thesis
    by (auto simp: set_ssl_def prog_simps on_ssl_def)
qed (simp add: set_ssl_def prog_simps)

lemma move_assign_plain:
  assumes "owns (M + held other) (s, w)"
  obtains other' s' w' where "socket_move_assign pf (socket_close pf) other (s, w) = (Inr other', (s', w'))"
    "owns M (s', w')" "\<not> is_valid other'"
proof -
  obtain s1 w1 where c: "socket_close pf (s, w) = (Inr (), (s1, w1))"
    using socket_close_spec [OF assms, of pf] by auto
  let ?s2 = "s1\<lparr>raw_sock := raw_sock other, addr := addr other, non_blocking := non_blocking other\<rparr>"
  obtain s3 w3 where l: "set_ssl pf (ssl other) (?s2, w1) = (Inr (), (s3, w3))" using set_ssl_returns by blast
  let ?o = "other\<lparr>raw_sock := INVALID, non_blocking := False, ssl := None\<rparr>"
  have run: "socket_move_assign pf (socket_close pf) other (s, w) = (Inr ?o, (s3, w3))"
    using c l by (simp add: socket_move_assign_def prog_simps)
  have "owns (M + (if is_valid other then {#raw_sock other#} else {#})) (s, w)"
    using assms by (simp add: held_def)
  from plain.move_assign_owns [OF this run] that [OF run] show ?thesis by simp
qed

text \<open>Every operation keeps the account.\<close>

lemma assign_ok:
  assumes "pool_ok B (ss, w)" and "i < length ss" and "j < length ss"
  shows "pool_ok B (snd (exec_pool pf (P_assign i j) (ss, w)))"
proof (cases "i = j")
  case False
  let ?ts = "ss[j := socket_default]"
  have d: "held socket_default = {#}" by (simp add: socket_default_def is_valid_def)
  have j: "held_in ss = held_in ?ts + held (ss ! j)"
    using held_in_update [OF assms(3), of socket_default] d by simp
  have i: "held_in ?ts = held_in (take i ?ts @ drop (Suc i) ?ts) + held (ss ! i)"
    using held_in_remove [of i ?ts] assms(2) False by simp
  define M where "M = B + held_in (take i ?ts @ drop (Suc i) ?ts)"
  have "owns (M + held (ss ! j)) (ss ! i, w)"
    using assms(1) i j by (simp add: pool_ok_def owns_held M_def ac_simps)
  then obtain other' s' w' where r: "socket_move_assign pf (socket_close pf) (ss ! j) (ss ! i, w) = (Inr other', (s', w'))"
    "owns M (s', w')" "\<not> is_valid other'"
    by (rule move_assign_plain)
  have "held_in (?ts[i := s']) + held (ss ! i) = held_in ?ts + held s'"
    using held_in_update [of i ?ts s'] assms(2) False by simp
  then have "held_in (?ts[i := s']) = held_in (take i ?ts @ drop (Suc i) ?ts) + held s'"
    unfolding i by (simp add: ac_simps)
  moreover have "held_in (?ts[i := s', j := other']) = held_in (?ts[i := s'])"
    using held_in_update [of j "?ts[i := s']" other'] assms(3) False r(3) d by simp
  moreover have "?ts[i := s', j := other'] = ss[i := s', j := other']"
    using False by (simp add: list_update_swap)
  ultimately show ?thesis
    using r False by (simp add: pool_ok_def owns_held M_def ac_simps)
qed (use assms in \<open>simp add: prog_simps\<close>)

lemma pool_ok_exec:
  assumes "pool_ok B p" and "in_scope x p" and "tidy_op pf x p"
  shows "pool_ok B (snd (exec_pool pf x p))"
proof -
  obtain ss w where p: "p = (ss, w)" by (cases p)
  note ok = assms(1) [unfolded p]
  note scope = assms(2) [unfolded in_scope_def]
  show ?thesis
  proof (cases x)
    case P_new
    with ok p show ?thesis by (simp add: prog_simps pool_ok_def socket_default_def is_valid_def)
  next
    case (P_open h n sec)
    obtain r w' where o: "socket_open pf h n sec w = (r, w')" by (metis surj_pair)
    from open_tidy [OF o] assms(3) p P_open
    have "open_fds (trace w') = open_fds (trace w) + (case r of Inl e \<Rightarrow> {#} | Inr s \<Rightarrow> held s)" by simp
    with ok p P_open o show ?thesis by (cases r) (simp_all add: pool_ok_def ac_simps)
  next
    case (P_use i op)
    with on_sock_ok [OF keeps_owns_exec ok] scope p show ?thesis by simp
  next
    case (P_listen i port b)
    with relisten_ok [OF ok] scope assms(3) p show ?thesis by simp
  next
    case (P_accept i)
    obtain fd a w' where "socket_accept pf (ss ! i, w) = (Inr (fd, a), (ss ! i, w'))"
      "open_fds (trace w') = open_fds (trace w) + held (socket_of_raw fd a)" by (rule accept_fds)
    with ok p P_accept show ?thesis
      by (auto simp: pool_ok_def ac_simps is_valid_def socket_of_raw_def)
  next
    case (P_move i)
    obtain t s' where m: "socket_move (ss ! i) = (t, s')" by (cases "socket_move (ss ! i)")
    with move_held [OF m] held_in_update [of i ss s'] ok p P_move scope show ?thesis
      by (simp add: prog_simps pool_ok_def)
  next
    case (P_assign i j)
    with assign_ok [OF ok] scope p show ?thesis by simp
  next
    case (P_destroy i)
    then have i: "i < length ss" using scope p by simp
    define M where "M = B + held_in (take i ss @ drop (Suc i) ss)"
    have "owns M (ss ! i, w)"
      using ok held_in_remove [OF i] by (simp add: pool_ok_def owns_held M_def ac_simps)
    with destroy_releases [OF this, of pf] P_destroy p show ?thesis
      by (cases "socket_destroy pf (ss ! i, w)") (auto simp: pool_ok_def M_def)
  qed
qed

lemma run_pool_ok: "pool_ok B p \<Longrightarrow> tidy pf ops p \<Longrightarrow> pool_ok B (run_pool pf ops p)"
proof (induction ops arbitrary: p)
  case (Cons x ops)
  show ?case unfolding run_pool.simps
    by (rule Cons.IH) (use Cons.prems in \<open>auto intro: pool_ok_exec split: if_splits\<close>)
qed simp

lemma run_pool_append: "run_pool pf (xs @ ys) p = run_pool pf ys (run_pool pf xs p)"
  by (induction xs arbitrary: p) simp_all

lemma destroy_all: "fst (run_pool pf (replicate (length (fst p)) (P_destroy 0)) p) = []"
proof (induction "length (fst p)" arbitrary: p)
  case (Suc n)
  let ?p = "snd (exec_pool pf (P_destroy 0) p)"
  have "length (fst ?p) = n" using Suc.hyps(2) by (cases p) (auto split: prod.split)
  with Suc.hyps(1) [of ?p] Suc.hyps(2) [symmetric] show ?case by (simp add: in_scope_def)
qed simp

lemma destroying_tidy: "tidy pf (replicate n (P_destroy i)) p"
  by (induction n arbitrary: p) simp_all

text \<open>
  C1: whatever the kernel and the peers answer, and whatever a program does with any number of
  sockets - default construction, the connecting constructor with or without TLS, connecting,
  listening, accepting, sending, receiving, switching TLS on or off, changing the blocking mode,
  moving them into new objects and over old ones, destroying them, in any order, calls that throw
  included - the process holds the descriptors it held before and exactly one for each valid
  object; and when all objects are destroyed, the descriptors it held before. Two calls are
  excluded by the hypothesis, because they lose a descriptor: \<open>listen\<close> on a socket that is open,
  and a connecting constructor whose handshake throws after the connection was made.
\<close>

theorem socket_pool_owns:
  assumes "tidy pf ops ([], w)"
  shows "case run_pool pf ops ([], w) of (ss, w') \<Rightarrow>
     open_fds (trace w') = open_fds (trace w) + (\<Sum>s\<leftarrow>ss. if is_valid s then {#raw_sock s#} else {#}) \<and>
     open_fds (trace (snd (run_pool pf (replicate (length ss) (P_destroy 0)) (ss, w')))) = open_fds (trace w)"
proof -
  obtain ss w' where run: "run_pool pf ops ([], w) = (ss, w')" by (cases "run_pool pf ops ([], w)")
  have "pool_ok (open_fds (trace w)) ([], w)" by (simp add: pool_ok_def)
  from run_pool_ok [OF this assms] run have ok: "pool_ok (open_fds (trace w)) (ss, w')" by simp
  then have held: "open_fds (trace w') = open_fds (trace w) + (\<Sum>s\<leftarrow>ss. if is_valid s then {#raw_sock s#} else {#})"
    by (simp add: pool_ok_def held_in_def held_def)
  let ?fin = "run_pool pf (replicate (length ss) (P_destroy 0)) (ss, w')"
  have "fst ?fin = []" using destroy_all [of pf "(ss, w')"] by simp
  moreover have "pool_ok (open_fds (trace w)) ?fin" using ok destroying_tidy by (rule run_pool_ok)
  ultimately have "open_fds (trace (snd ?fin)) = open_fds (trace w)"
    by (cases ?fin) (simp add: pool_ok_def)
  with held run show ?thesis by simp
qed

text \<open>A program with a TLS connection, a listening socket and an accepted one.\<close>

definition pool_demo :: "pool_op list" where
  "pool_demo = [P_open ''h'' 443 True, P_new, P_listen 1 80 10, P_accept 1, P_move 0, P_assign 1 2]"

lemma socket_pool_owns_witness:
  "tidy granting pool_demo ([], world0) \<and>
   (case run_pool granting pool_demo ([], world0) of (ss, w') \<Rightarrow>
     open_fds (trace w') = {#} + (\<Sum>s\<leftarrow>ss. if is_valid s then {#raw_sock s#} else {#}) \<and>
     open_fds (trace (snd (run_pool granting (replicate (length ss) (P_destroy 0)) (ss, w')))) = {#})"
proof -
  have "tidy granting pool_demo ([], world0)"
    by code_simp
  with socket_pool_owns [OF this] show ?thesis by (simp add: world0_def)
qed

end
