(* ===== verification/Spec2Isabelle.thy ===== *)
theory Spec2Isabelle
  imports Http_Curl Crest_Web Sync_Lifetime Sync_Service
    Background_Facts Background_Accept Background_Changes Async_Crowd Socket_Pool
begin

text \<open>
  \<^bold>\<open>A verification library for libcoda-net.\<close> The library is a set of C++ classes over POSIX sockets:
  a socket with an optional TLS layer, a buffered socket with listeners, a Telnet socket, servers
  that poll or use threads, URIs, encoders, an HTTP client with two transports, and a command line
  tool on top of it. These theories translate the code under \<open>src/src\<close> and prove what it promises,
  and, where it does not keep a promise, what it does instead.

  \<^bold>\<open>How a program is modelled.\<close> A member function is a program in the monad of theory \<open>Prelude\<close>: from
  the object and the world to a result or an exception (type \<open>exn\<close>, sum type, \<open>Inl\<close> is a throw), and the
  new object and world, also when it throws. The world (\<open>Posix\<close>) is \<open>errno\<close> and the trace of the system
  calls made so far; every call appends its event with its answer. The kernel, OpenSSL and the peers
  are the record \<open>platform\<close> of functions from the trace so far to the next answer, so a theorem for
  all platforms holds for every behaviour of the outside. \<open>open_fds\<close> computes the descriptors a trace
  leaves open, \<open>wire\<close> the bytes a peer has received. Virtual functions are a record of programs
  (\<open>vtable\<close>, \<open>server_vtable\<close>), the class hierarchy is record extension: \<open>socket\<close>, \<open>buffered\<close>,
  \<open>default_client\<close>; \<open>socket\<close>, \<open>server\<close>, \<open>sync_server\<close>; \<open>transfer\<close>, \<open>response\<close>, \<open>client\<close>. Undefined
  behaviour, an abort of the process and exhausted fuel are exceptions of their own that no handler
  of the code catches. Iterators are positions in a list (\<open>Cpp_Seq\<close>), \<open>std::map\<close> is a list sorted by
  its keys (\<open>Std_Map\<close>, interface \<open>ordered_map\<close>), bytes are 8-bit words, \<open>int\<close> results that may wrap go
  through \<open>to_int\<close>.

  \<^bold>\<open>Theories and the code they model.\<close>
  \<^item> \<open>Prelude\<close>, \<open>Cpp_Seq\<close>, \<open>Std_Map\<close>, \<open>Posix\<close>: the monad and its Hoare rules (collection \<open>hoare_rules\<close>,
    evaluation by \<open>prog_simps\<close>), sequences, maps, the system.
  \<^item> \<open>Secure_Layer\<close> (\<open>secure_layer.cpp\<close>), \<open>Socket\<close> (\<open>socket.cpp\<close>), \<open>Buffered_Socket\<close>
    (\<open>buffered_socket.cpp\<close>), \<open>Telnet\<close> (\<open>telnet/socket.cpp\<close>, \<open>telnet/protocol.h\<close>).
  \<^item> \<open>Uri\<close> (\<open>uri.cpp\<close>, both builds), \<open>Encoders\<close> (\<open>encoders.cpp\<close>, \<open>encoders.h\<close>; interface \<open>coding\<close>), \<open>Http\<close> (\<open>http/client.cpp\<close>,
    \<open>http/protocol.h\<close>), \<open>Http_Socket\<close> and \<open>Http_Curl\<close> (the two transports), \<open>Crest\<close> (\<open>http/crest\<close>).
  \<^item> \<open>Server\<close> (\<open>socket_server.cpp\<close>, \<open>socket_factory.cpp\<close>), \<open>Sync_Server\<close> (\<open>sync/\<close>, with \<open>select\<close> and
    with \<open>epoll\<close>), \<open>Async\<close> (\<open>async/\<close>). Connections live in a heap in the world (\<open>net\<close>), because the
    table of the server and the listeners share them.

  \<^bold>\<open>What the facts show.\<close>
  \<^item> \<open>Socket_Facts\<close>, \<open>Socket_Pool\<close>: the account of descriptors over any session of one socket (invariant
    \<open>owns\<close>; interface \<open>closing\<close> for the virtual \<open>close\<close>) and over any program with many sockets that are
    constructed, moved, assigned, accepted and destroyed (invariant \<open>pool_ok\<close>), except by the two calls that
    lose one, a constructor with a failed handshake and \<open>listen\<close> on an open socket (\<open>tidy\<close>); these two
    leaks themselves; the order in which \<open>connect\<close> tries addresses.
  \<^item> \<open>Buffered_Facts\<close>, \<open>Output_Queue\<close>, \<open>Buffered_Session\<close>: lines round trip, reading drains the kernel,
    the output side refines an abstract queue, the account holds for every table of overridden
    functions that respects it (interface \<open>respectful_vtable\<close>, interpreted for the plain and the
    Telnet socket).
  \<^item> \<open>Telnet_Facts\<close>: the in-place filter refines a one-pass scanner (\<open>scan\<close>), decodes composed streams,
    ends, and lets no command through.
  \<^item> \<open>Uri_Facts\<close>, \<open>Http_Facts\<close>, \<open>Http_Session\<close>, \<open>Crest_Facts\<close>, \<open>Crest_Web\<close>: parsers against the texts they are to
    read, requests of a client and runs of the tool from end to end over a socket, the interface \<open>transport\<close> between client and transport with the
    invariants of a client over it, the history over two runs of the tool, and the dialogue with its
    output as a step relation.
  \<^item> \<open>Server_Facts\<close>, \<open>Poll_Facts\<close>, \<open>Sync_Facts\<close>, \<open>Sync_Lifetime\<close>, \<open>Sync_Order\<close>, \<open>Sync_Service\<close>: the stall time; what
    the two polling objects watch; the walk over the connections against a plain loop over the table; one
    poll that accepts nothing does for every connection what \<open>select\<close> has reported; the table of connections and the account of descriptors of a polling server,
    from its constructor to its destructor.
  \<^item> \<open>Background\<close>: a thread of a server and the thread that calls \<open>stop\<close>, as a step relation (\<open>threads\<close>)
    over the actions of both in any order, for the polling loop of the synchronous server, the
    accepting loop of \<open>socket_server\<close> and that of the asynchronous server. \<open>Background_Alone\<close>: a thread
    that is left alone computes what the sequential model computes. \<open>Background_Stop\<close>: what \<open>stop\<close> needs
    of a thread (interface \<open>stoppable\<close>) and what follows: in every interleaving a \<open>stop\<close> that returns
    has joined the thread and released everything but the \<open>epoll\<close> instance, and both make few actions
    once the socket is closed: \<open>stop\<close> then returns unless the thread dies of an exception or is blocked
    in a system call (\<open>unblocked\<close> leaves out the actions of a thread in a call that does not return). \<open>Background_Facts\<close> and \<open>Background_Accept\<close>: the three loops are instances (the accepting
    ones by the interface \<open>accepting\<close>, over what is done with a connection); with \<open>select\<close> there is an
    order of actions in which the thread does die, with \<open>epoll\<close> and no time limit one in which \<open>stop\<close>
    waits for ever, and with a client whose peer has gone the
    asynchronous server cannot be stopped.
  \<^item> \<open>Client_Thread\<close>: the thread of an asynchronous client and a program that writes to the client, in
    any order. What is written between sending the buffer and clearing it is lost or repeated, what
    is written at any other moment arrives exactly once.
  \<^item> \<open>Async_Crowd\<close>: an asynchronous server whose clients are kept, any number of them at once, with the
    accepting thread, \<open>stop\<close>, and the program that writes to the clients and drops them: the account of
    descriptors over all of them, no byte reaches the peer of another client, and \<open>stop\<close> does not
    wait for the clients, whatever they do.
  \<^item> \<open>Background_Changes\<close>: \<open>set_frequency\<close> and \<open>set_socket_factory\<close> while the server runs: \<open>wait_time\<close>
    divides by zero exactly if some thread sets 0, and the accepting loop can die if some thread
    takes its factory away.

  \<^bold>\<open>Bounds and fuel.\<close> Loops over data are structural or have a measure. Fuel stands only for loops that
  the outside keeps going: \<open>read_loop\<close> (one unit per chunk that the kernel has ready),
  \<open>iterate_connections\<close> (one per connection), \<open>poll_loop\<close>, \<open>accept_loop\<close>, \<open>async_run\<close> and \<open>client_run\<close>
  (one per turn of a server or client that runs until it is stopped), \<open>start\<close> (one per line of the
  dialogue). The theorems on draining and on complete dialogues give the fuel that is enough; the
  safety theorems hold for every fuel, exhausted or not. A length below 2 to the 31 is assumed where the
  code casts a size to \<open>int\<close>. The threads of \<open>Background\<close>, \<open>Client_Thread\<close> and \<open>Async_Crowd\<close> loop without
  fuel; only the reads of one connection, the walk over the connections inside one action and, where
  the accepting loop of \<open>Background\<close> drops it at once, the whole life of an accepted client have it. The 74 actions
  that \<open>stop\<close> can have to wait for a polling thread are a poll with the 64 events (\<open>MAXEVENTS\<close>) of one \<open>epoll_wait\<close>; an accepting thread needs 7.

  \<^bold>\<open>Not modelled.\<close> Windows branches; the finer effects of data races, where a plain member is read and written at
  once (the models interleave whole reads and writes); the life of a factory object, of which a server
  has the number (0 for the default one), so that one that is replaced while it is called does no
  harm here; listeners that a server gets while it notifies; the debug output of \<open>curl_impl.cpp\<close>; \<open>getopt_long\<close>, represented by the options it finds, with the messages it prints itself; the inside of OpenSSL, libcurl, cereal and
  uriparser, which are parameters; the functions that are declared but defined nowhere
  (\<open>buffered_socket::write(void *, size_t)\<close>, \<open>client::set_uri\<close>); tests and build files.
\<close>

end
